(* ===== verification/Prelude.thy ===== *)
theory Prelude
  imports Main "HOL-Library.Sublist" "HOL-Library.Word"
begin

text \<open>
  What the components share. Strings and byte slices of the Go sources are both
  \<open>string\<close> (a list of bytes). The operations of the packages \<open>strings\<close>,
  \<open>strconv\<close> and \<open>time\<close> that the sources call are defined here; the gRPC
  \<open>codes\<close> and \<open>status\<close> packages, which are not part of the repository, appear as a
  data type of error codes and as a record of functions that every reporting
  operation takes as an argument.
\<close>

section \<open>Proof collections\<close>

named_theorems go_defs \<open>definitions of Go library operations, for evaluation\<close>
named_theorems effect_simps \<open>what an operation does to each field of the state\<close>

section \<open>Package strings\<close>

type_synonym bytes = string

definition has_prefix :: "string \<Rightarrow> string \<Rightarrow> bool" where
  "has_prefix s p = (take (length p) s = p)"

definition has_suffix :: "string \<Rightarrow> string \<Rightarrow> bool" where
  "has_suffix s p = (length p \<le> length s \<and> drop (length s - length p) s = p)"

definition trim_prefix :: "string \<Rightarrow> string \<Rightarrow> string" where
  "trim_prefix s p = (if has_prefix s p then drop (length p) s else s)"

definition trim_suffix :: "string \<Rightarrow> string \<Rightarrow> string" where
  "trim_suffix s p = (if has_suffix s p then take (length s - length p) s else s)"

text \<open>\<open>strings.Split\<close> with a separator of one byte.\<close>

fun split_on :: "char \<Rightarrow> string \<Rightarrow> string list" where
  "split_on c [] = [[]]"
| "split_on c (x # xs) =
     (if x = c then [] # split_on c xs
      else (case split_on c xs of [] \<Rightarrow> [[x]] | y # ys \<Rightarrow> (x # y) # ys))"

text \<open>\<open>strings.Join\<close>.\<close>

fun join_with :: "string \<Rightarrow> string list \<Rightarrow> string" where
  "join_with sep [] = []"
| "join_with sep [x] = x"
| "join_with sep (x # y # ys) = x @ sep @ join_with sep (y # ys)"

text \<open>
  \<open>strings.TrimSpace\<close> removes leading and trailing Unicode white space. These are the
  UTF-8 encodings of the code points \<open>unicode.IsSpace\<close> accepts.
\<close>

definition space_seqs :: "string list" where
  "space_seqs =
    [[CHR 0x09], [CHR 0x0A], [CHR 0x0B], [CHR 0x0C], [CHR 0x0D], [CHR 0x20],
     [CHR 0xC2, CHR 0x85], [CHR 0xC2, CHR 0xA0], [CHR 0xE1, CHR 0x9A, CHR 0x80],
     [CHR 0xE2, CHR 0x80, CHR 0x80], [CHR 0xE2, CHR 0x80, CHR 0x81],
     [CHR 0xE2, CHR 0x80, CHR 0x82], [CHR 0xE2, CHR 0x80, CHR 0x83],
     [CHR 0xE2, CHR 0x80, CHR 0x84], [CHR 0xE2, CHR 0x80, CHR 0x85],
     [CHR 0xE2, CHR 0x80, CHR 0x86], [CHR 0xE2, CHR 0x80, CHR 0x87],
     [CHR 0xE2, CHR 0x80, CHR 0x88], [CHR 0xE2, CHR 0x80, CHR 0x89],
     [CHR 0xE2, CHR 0x80, CHR 0x8A], [CHR 0xE2, CHR 0x80, CHR 0xA8],
     [CHR 0xE2, CHR 0x80, CHR 0xA9], [CHR 0xE2, CHR 0x80, CHR 0xAF],
     [CHR 0xE2, CHR 0x81, CHR 0x9F], [CHR 0xE3, CHR 0x80, CHR 0x80]]"

definition leading_space :: "string \<Rightarrow> nat" where
  "leading_space s = (case find (has_prefix s) space_seqs of None \<Rightarrow> 0 | Some w \<Rightarrow> length w)"

definition trailing_space :: "string \<Rightarrow> nat" where
  "trailing_space s = (case find (has_suffix s) space_seqs of None \<Rightarrow> 0 | Some w \<Rightarrow> length w)"

function trim_left :: "string \<Rightarrow> string" where
  "trim_left s = (if s = [] \<or> leading_space s = 0 then s else trim_left (drop (leading_space s) s))"
  by pat_completeness auto
termination
  by (relation "measure length") auto

function trim_right :: "string \<Rightarrow> string" where
  "trim_right s =
     (if s = [] \<or> trailing_space s = 0 then s else trim_right (take (length s - trailing_space s) s))"
  by pat_completeness auto
termination
  by (relation "measure length") auto

declare trim_left.simps [simp del] trim_right.simps [simp del]

definition trim_space :: "string \<Rightarrow> string" where
  "trim_space s = trim_right (trim_left s)"

text \<open>
  \<open>strings.ToLower\<close> maps an ASCII string byte by byte; what it does to any other string
  (the Unicode case tables) is the argument \<open>ul\<close>.
\<close>

definition is_ascii :: "string \<Rightarrow> bool" where
  "is_ascii s = list_all (\<lambda>c. (of_char c :: nat) < 128) s"

definition lower_byte :: "char \<Rightarrow> char" where
  "lower_byte c = (let n = (of_char c :: nat) in if 65 \<le> n \<and> n \<le> 90 then char_of (n + 32) else c)"

definition to_lower :: "(string \<Rightarrow> string) \<Rightarrow> string \<Rightarrow> string" where
  "to_lower ul s = (if is_ascii s then map lower_byte s else ul s)"

section \<open>Errors\<close>

datatype code =
    OK | Canceled | Unknown | InvalidArgument | DeadlineExceeded | NotFound | AlreadyExists
  | PermissionDenied | Unauthenticated | ResourceExhausted | FailedPrecondition | Aborted
  | OutOfRange | Unimplemented | Internal | Unavailable | DataLoss | OtherCode "32 word"

text \<open>
  The errors the program makes or passes on: a gRPC status error, an error with a text
  only (\<open>fmt.Errorf\<close>, \<open>errors.New\<close>, a library's own error), and the two sentinel
  errors of \<open>managed_repository.go\<close>.
\<close>

datatype go_error =
    StatusError code string
  | PlainError string
  | ErrReferenceNotFound
  | ErrReferenceInvalid

text \<open>
  The package \<open>status\<close>: \<open>FromError\<close> (\<open>None\<close> stands for a result that is not ok),
  the text of a status error, and the name of a code.
\<close>

record status_lib =
  from_error :: "go_error option \<Rightarrow> (code \<times> string) option"
  status_text :: "code \<Rightarrow> string \<Rightarrow> string"
  code_name :: "code \<Rightarrow> string"

text \<open>
  The documented behaviour of \<open>status.FromError\<close>: a nil error has the code OK, a status
  error has its own code and message, any other error is not a status.
\<close>

definition status_law :: "status_lib \<Rightarrow> bool" where
  "status_law L = (from_error L None = Some (OK, []) \<and>
     (\<forall>c m. from_error L (Some (StatusError c m)) = Some (c, m)) \<and>
     (\<forall>m. from_error L (Some (PlainError m)) = None) \<and>
     from_error L (Some ErrReferenceNotFound) = None \<and>
     from_error L (Some ErrReferenceInvalid) = None)"

definition error_text :: "status_lib \<Rightarrow> go_error \<Rightarrow> string" where
  "error_text L e = (case e of
      StatusError c m \<Rightarrow> status_text L c m
    | PlainError m \<Rightarrow> m
    | ErrReferenceNotFound \<Rightarrow> ''reference not found''
    | ErrReferenceInvalid \<Rightarrow> ''reference is not valid'')"

text \<open>The code a reporter starts from when the error is not a status: \<open>codes.Internal\<close>.\<close>

definition status_or_internal :: "status_lib \<Rightarrow> go_error option \<Rightarrow> code \<times> string" where
  "status_or_internal L e = (case from_error L e of None \<Rightarrow> (Internal, []) | Some st \<Rightarrow> st)"

section \<open>Decimal numbers: strconv and fmt\<close>

definition digit_char :: "nat \<Rightarrow> char" where
  "digit_char d = char_of (48 + d)"

fun show_nat :: "nat \<Rightarrow> string" where
  "show_nat n = (if n < 10 then [digit_char n] else show_nat (n div 10) @ [digit_char (n mod 10)])"

declare show_nat.simps [simp del]

definition digit_val :: "char \<Rightarrow> nat option" where
  "digit_val c = (let n = (of_char c :: nat) in if 48 \<le> n \<and> n \<le> 57 then Some (n - 48) else None)"

fun digits_val :: "nat \<Rightarrow> string \<Rightarrow> nat option" where
  "digits_val acc [] = Some acc"
| "digits_val acc (c # cs) =
     (case digit_val c of None \<Rightarrow> None | Some d \<Rightarrow> digits_val (10 * acc + d) cs)"

text \<open>
  \<open>strconv.ParseInt(s, 10, 64)\<close>: the value, and whether the error is nil. A syntax
  error gives 0, an out-of-range number the nearest 64-bit integer.
\<close>

definition parse_digits :: "string \<Rightarrow> nat option" where
  "parse_digits s = (if s = [] then None else digits_val 0 s)"

definition parse_int :: "string \<Rightarrow> int \<times> bool" where
  "parse_int s =
     (let neg = has_prefix s ''-'';
          ds = (if neg \<or> has_prefix s ''+'' then drop 1 s else s)
      in case parse_digits ds of
           None \<Rightarrow> (0, False)
         | Some n \<Rightarrow>
             if neg then (if n \<le> 2 ^ 63 then (- int n, True) else (- (2 ^ 63), False))
             else (if n < 2 ^ 63 then (int n, True) else (2 ^ 63 - 1, False)))"

text \<open>\<open>fmt.Sprintf("%012d", n)\<close> and \<open>fmt.Sprintf("%d", n)\<close>.\<close>

definition show_int :: "int \<Rightarrow> string" where
  "show_int n = (if n < 0 then ''-'' @ show_nat (nat (- n)) else show_nat (nat n))"

definition pad12 :: "int \<Rightarrow> string" where
  "pad12 n =
     (if n < 0 then ''-'' @ replicate (11 - length (show_nat (nat (- n)))) (digit_char 0) @ show_nat (nat (- n))
      else replicate (12 - length (show_nat (nat n))) (digit_char 0) @ show_nat (nat n))"

section \<open>Package time\<close>

text \<open>Instants are nanoseconds since the Unix epoch, durations nanoseconds.\<close>

type_synonym time = int
type_synonym duration = int

definition second :: duration where "second = 1000000000"
definition minute :: duration where "minute = 60 * second"
definition hour :: duration where "hour = 60 * minute"

definition unix_of :: "time \<Rightarrow> int" where
  "unix_of t = t div second"

definition of_unix :: "int \<Rightarrow> time" where
  "of_unix s = s * second"

lemmas time_defs = second_def minute_def hour_def unix_of_def of_unix_def

section \<open>Lemmas on decimal numbers\<close>

lemma digit_char_code: "d < 10 \<Longrightarrow> (of_char (digit_char d) :: nat) = 48 + d"
  by (simp add: digit_char_def)

lemma digit_val_char: "d < 10 \<Longrightarrow> digit_val (digit_char d) = Some d"
  by (simp add: digit_val_def digit_char_code Let_def)

lemma digits_val_append:
  "digits_val acc (s @ t) = (case digits_val acc s of None \<Rightarrow> None | Some v \<Rightarrow> digits_val v t)"
  by (induction s arbitrary: acc) (auto split: option.splits)

lemma digits_val_show_nat: "digits_val 0 (show_nat n) = Some n"
proof (induction n rule: show_nat.induct)
  case (1 n)
  then show ?case
    using show_nat.simps [of n] by (cases "n < 10") (simp_all add: digits_val_append digit_val_char)
qed

lemma show_nat_nonempty: "show_nat n \<noteq> []"
  by (subst show_nat.simps) simp

section \<open>Lemmas on strings\<close>

lemma has_prefix_append [simp]: "has_prefix (p @ s) p"
  by (simp add: has_prefix_def)

lemma has_prefix_iff: "has_prefix s p \<longleftrightarrow> (\<exists>r. s = p @ r)"
  unfolding has_prefix_def by (metis append_eq_conv_conj append_take_drop_id)

lemma has_suffix_append [simp]: "has_suffix (s @ p) p"
  by (simp add: has_suffix_def)

lemma has_suffix_iff: "has_suffix s p \<longleftrightarrow> (\<exists>r. s = r @ p)"
proof
  assume "has_suffix s p"
  then have "s = take (length s - length p) s @ p"
    unfolding has_suffix_def by (metis append_take_drop_id)
  then show "\<exists>r. s = r @ p" by blast
qed auto

lemma trim_suffix_append [simp]: "trim_suffix (s @ p) p = s"
  by (simp add: trim_suffix_def)

lemma trim_prefix_append [simp]: "trim_prefix (p @ s) p = s"
  by (simp add: trim_prefix_def)

lemma trim_suffix_id: "\<not> has_suffix s p \<Longrightarrow> trim_suffix s p = s"
  by (simp add: trim_suffix_def)

lemma trim_suffix_prefix: "prefix (trim_suffix s p) s"
  by (simp add: trim_suffix_def take_is_prefix)

lemma split_on_nonempty [simp]: "split_on c s \<noteq> []"
  by (induction s) (auto split: list.splits)

lemma split_on_no_sep: "c \<notin> set s \<Longrightarrow> split_on c s = [s]"
  by (induction s) auto

lemma split_on_append: "c \<notin> set s \<Longrightarrow> split_on c (s @ c # t) = s # split_on c t"
  by (induction s) (auto split: list.splits)

lemma split_on_split: "split_on c (s @ c # t) = split_on c s @ split_on c t"
  by (induction s) (auto split: list.splits)

lemma has_suffix_longer: "length q \<le> length t \<Longrightarrow> has_suffix (s @ t) q = has_suffix t q"
  by (auto simp: has_suffix_def)

lemma split_on_parts_clean: "p \<in> set (split_on c s) \<Longrightarrow> c \<notin> set p"
  by (induction s arbitrary: p) (auto split: list.splits if_splits)

lemma join_split_on: "join_with [c] (split_on c s) = s"
proof (induction s)
  case Nil
  then show ?case by simp
next
  case (Cons x xs)
  obtain y ys where y: "split_on c xs = y # ys"
    using split_on_nonempty by (metis list.exhaust)
  show ?case
  proof (cases "x = c")
    case True
    with Cons y show ?thesis by simp
  next
    case False
    with Cons y show ?thesis by (cases ys) auto
  qed
qed

lemma split_on_join:
  "xs \<noteq> [] \<Longrightarrow> (\<forall>x \<in> set xs. c \<notin> set x) \<Longrightarrow> split_on c (join_with [c] xs) = xs"
  by (induction "[c]" xs rule: join_with.induct) (auto simp: split_on_no_sep split_on_append)

lemma split_on_two: "c \<in> set s \<Longrightarrow> 2 \<le> length (split_on c s)"
proof (induction s)
  case (Cons x xs)
  then show ?case
    by (cases "x = c"; cases "split_on c xs") auto
qed simp

lemma status_or_internal_simps:
  assumes "status_law L"
  shows "status_or_internal L None = (OK, [])"
    and "status_or_internal L (Some (StatusError c m)) = (c, m)"
    and "status_or_internal L (Some (PlainError m)) = (Internal, [])"
    and "status_or_internal L (Some ErrReferenceNotFound) = (Internal, [])"
    and "status_or_internal L (Some ErrReferenceInvalid) = (Internal, [])"
  using assms by (auto simp: status_or_internal_def status_law_def)

section \<open>Text without white space\<close>

definition graphic :: "string \<Rightarrow> bool" where
  "graphic s = list_all (\<lambda>c. 33 \<le> (of_char c :: nat) \<and> (of_char c :: nat) \<le> 126) s"

lemma graphic_simps [simp]:
  "graphic []"
  "graphic (c # s) \<longleftrightarrow> 33 \<le> (of_char c :: nat) \<and> (of_char c :: nat) \<le> 126 \<and> graphic s"
  "graphic (s @ t) \<longleftrightarrow> graphic s \<and> graphic t"
  by (simp_all add: graphic_def)

lemma graphic_no_space: "graphic s \<Longrightarrow> CHR '' '' \<notin> set s"
  by (induction s) auto

definition blank_ends :: "string \<Rightarrow> bool" where
  "blank_ends w = (w \<noteq> [] \<and> \<not> graphic [hd w] \<and> \<not> graphic [last w])"

lemma space_seqs_blank: "list_all blank_ends space_seqs"
  by code_simp

lemma leading_space_graphic: "graphic [c] \<Longrightarrow> leading_space (c # s) = 0"
proof -
  assume c: "graphic [c]"
  have "\<not> has_prefix (c # s) w" if "w \<in> set space_seqs" for w
  proof
    assume "has_prefix (c # s) w"
    then obtain r where r: "c # s = w @ r" by (auto simp: has_prefix_iff)
    from that space_seqs_blank have "blank_ends w" by (auto simp: list_all_iff)
    with r have "hd w = c" unfolding blank_ends_def by (metis hd_append2 list.sel(1))
    with \<open>blank_ends w\<close> c show False by (simp add: blank_ends_def)
  qed
  then have "find (has_prefix (c # s)) space_seqs = None"
    by (auto simp: find_None_iff)
  then show ?thesis by (simp add: leading_space_def)
qed

lemma trailing_space_graphic: "graphic [c] \<Longrightarrow> trailing_space (s @ [c]) = 0"
proof -
  assume c: "graphic [c]"
  have "\<not> has_suffix (s @ [c]) w" if "w \<in> set space_seqs" for w
  proof
    assume "has_suffix (s @ [c]) w"
    then obtain r where r: "s @ [c] = r @ w" by (auto simp: has_suffix_iff)
    from that space_seqs_blank have "blank_ends w" by (auto simp: list_all_iff)
    with r have "last w = c" unfolding blank_ends_def by (metis last_appendR last_snoc)
    with \<open>blank_ends w\<close> c show False by (simp add: blank_ends_def)
  qed
  then have "find (has_suffix (s @ [c])) space_seqs = None"
    by (auto simp: find_None_iff)
  then show ?thesis by (simp add: trailing_space_def)
qed

lemma trim_left_Nil [simp]: "trim_left [] = []"
  by (subst trim_left.simps) simp

lemma trim_right_Nil [simp]: "trim_right [] = []"
  by (subst trim_right.simps) simp

lemma trim_left_graphic: "graphic s \<Longrightarrow> s \<noteq> [] \<Longrightarrow> trim_left (s @ t) = s @ t"
  by (cases s) (simp_all add: trim_left.simps [of "_ # _"] leading_space_graphic)

lemma trim_right_graphic: "graphic s \<Longrightarrow> trim_right s = s"
  by (cases s rule: rev_cases) (subst trim_right.simps, simp add: trailing_space_graphic)+

abbreviation newline :: string where
  "newline \<equiv> [CHR 0x0A]"

lemma newline_seqs: "newline \<in> set space_seqs"
    "list_all (\<lambda>w. w \<noteq> [] \<and> (last w = CHR 0x0A \<longrightarrow> w = newline)) space_seqs"
  by code_simp+

lemma trailing_space_newline: "trailing_space (s @ newline) = 1"
proof (cases "find (has_suffix (s @ newline)) space_seqs")
  case None
  with newline_seqs(1) show ?thesis by (auto simp: find_None_iff)
next
  case (Some w)
  then have "w \<in> set space_seqs" and "has_suffix (s @ newline) w"
    by (auto simp: find_Some_iff in_set_conv_nth)
  moreover from this obtain r where "s @ newline = r @ w" by (auto simp: has_suffix_iff)
  ultimately have "w = newline"
    using newline_seqs(2) unfolding list_all_iff by (metis last_appendR last_snoc)
  with Some show ?thesis by (simp add: trailing_space_def)
qed

lemma leading_space_newline: "leading_space newline = 1"
  by code_simp

lemma trim_space_graphic: "graphic s \<Longrightarrow> trim_space s = s"
  using trim_left_graphic [of s "[]"]
  by (cases "s = []") (simp_all add: trim_space_def trim_right_graphic)

lemma trim_space_line: "graphic s \<Longrightarrow> trim_space (s @ newline) = s"
proof (cases "s = []")
  case True
  have "trim_left newline = []"
    by (subst trim_left.simps) (simp add: leading_space_newline)
  with True show ?thesis by (simp add: trim_space_def)
next
  case False
  assume s: "graphic s"
  have "trim_right (s @ newline) = trim_right s"
    by (subst trim_right.simps) (simp add: trailing_space_newline)
  with s False show ?thesis
    by (simp add: trim_space_def trim_left_graphic trim_right_graphic)
qed

section \<open>A concrete status package, for witnesses\<close>

definition plain_status :: status_lib where
  "plain_status =
     \<lparr>from_error = (\<lambda>e. case e of None \<Rightarrow> Some (OK, []) | Some (StatusError c m) \<Rightarrow> Some (c, m) | _ \<Rightarrow> None),
      status_text = (\<lambda>c m. ''rpc error: '' @ m), code_name = (\<lambda>_. ''code'')\<rparr>"

lemma plain_status_law: "status_law plain_status"
  by (simp add: status_law_def plain_status_def)

end
