(* ===== verification/Canon.thy ===== *)
theory Canon
  imports Prelude
begin

text \<open>
  URLs and paths: the parts of \<open>path\<close>, \<open>path/filepath\<close> and \<open>net/url\<close> the sources use, the URL
  canonicalizers of \<open>goblet.go\<close>, \<open>github/url.go\<close> and \<open>google/hooks.go\<close>, and the directory of
  the cache a URL is kept in.
\<close>

section \<open>Package path\<close>

fun clean_elems :: "bool \<Rightarrow> string list \<Rightarrow> string list \<Rightarrow> string list" where
  "clean_elems rooted out [] = rev out"
| "clean_elems rooted out (e # es) =
     (if e = [] \<or> e = ''.'' then clean_elems rooted out es
      else if e = ''..'' then
        (if out \<noteq> [] \<and> hd out \<noteq> ''..'' then clean_elems rooted (tl out) es
         else if rooted then clean_elems rooted out es
         else clean_elems rooted (''..'' # out) es)
      else clean_elems rooted (e # out) es)"

text \<open>\<open>path.Clean\<close> (on Unix \<open>filepath.Clean\<close> is the same).\<close>

definition path_clean :: "string \<Rightarrow> string" where
  "path_clean s =
     (if s = [] then ''.''
      else let rooted = has_prefix s ''/'';
               es = clean_elems rooted [] (split_on CHR ''/'' s)
           in if rooted then ''/'' @ join_with ''/'' es
              else if es = [] then ''.'' else join_with ''/'' es)"

text \<open>\<open>path.Join\<close> and \<open>filepath.Join\<close>: leading empty elements are dropped.\<close>

definition path_join :: "string list \<Rightarrow> string" where
  "path_join elems =
     (case dropWhile (\<lambda>e. e = []) elems of [] \<Rightarrow> [] | e # es \<Rightarrow> path_clean (join_with ''/'' (e # es)))"

text \<open>\<open>path.Base\<close>.\<close>

definition path_base :: "string \<Rightarrow> string" where
  "path_base s =
     (let t = rev (dropWhile (\<lambda>c. c = CHR ''/'') (rev s)) in
      if s = [] then ''.'' else if t = [] then ''/'' else last (split_on CHR ''/'' t))"

section \<open>Package net/url\<close>

record url =
  u_scheme :: string
  u_host :: string
  u_path :: string
  u_query :: string

definition hex_digit :: "nat \<Rightarrow> char" where
  "hex_digit n = (if n < 10 then char_of (48 + n) else char_of (55 + n))"

definition percent :: "char \<Rightarrow> string" where
  "percent c = (let n = (of_char c :: nat) in [CHR ''%'', hex_digit (n div 16), hex_digit (n mod 16)])"

definition alnum :: "char \<Rightarrow> bool" where
  "alnum c = (let n = (of_char c :: nat) in 48 \<le> n \<and> n \<le> 57 \<or> 65 \<le> n \<and> n \<le> 90 \<or> 97 \<le> n \<and> n \<le> 122)"

definition unreserved :: "char \<Rightarrow> bool" where
  "unreserved c = (alnum c \<or> c \<in> set ''-_.~'')"

definition escape_with :: "(char \<Rightarrow> bool) \<Rightarrow> string \<Rightarrow> string" where
  "escape_with keep s = concat (map (\<lambda>c. if keep c then [c] else percent c) s)"

text \<open>\<open>url.PathEscape\<close>: a single path segment.\<close>

definition path_escape :: "string \<Rightarrow> string" where
  "path_escape s = escape_with (\<lambda>c. unreserved c \<or> c \<in> set ''$&+=:@'') s"

text \<open>\<open>URL.String\<close> on a URL with these four fields.\<close>

definition escaped_path :: "string \<Rightarrow> string" where
  "escaped_path p = (if p = ''*'' then ''*'' else escape_with (\<lambda>c. unreserved c \<or> c \<in> set ''$&+,/:;=@'') p)"

definition escaped_host :: "string \<Rightarrow> string" where
  "escaped_host h = escape_with (\<lambda>c. unreserved c \<or> c \<in> set (CHR 0x27 # CHR 0x22 # ''!$&()*+,;=:[]<>'')) h"

definition url_string :: "url \<Rightarrow> string" where
  "url_string u =
     (let scheme = (if u_scheme u = [] then [] else u_scheme u @ '':'');
          slashes = (if (u_scheme u \<noteq> [] \<or> u_host u \<noteq> []) \<and> (u_host u \<noteq> [] \<or> u_path u \<noteq> []) then ''//'' else []);
          path = escaped_path (u_path u);
          sep = (if path \<noteq> [] \<and> hd path \<noteq> CHR ''/'' \<and> u_host u \<noteq> [] then ''/'' else [])
      in scheme @ slashes @ escaped_host (u_host u) @ sep @ path @
         (if u_query u = [] then [] else ''?'' @ u_query u))"

section \<open>The canonicalizers\<close>

type_synonym canonicalizer = "url \<Rightarrow> go_error + url"

text \<open>The Git endpoint suffixes, as the canonicalizers cut them off.\<close>

definition strip_endpoint :: "string \<Rightarrow> string" where
  "strip_endpoint p =
     (if has_suffix p ''/info/refs'' then trim_suffix p ''/info/refs''
      else if has_suffix p ''/git-upload-pack'' then trim_suffix p ''/git-upload-pack''
      else if has_suffix p ''/git-receive-pack'' then trim_suffix p ''/git-receive-pack''
      else p)"

definition https_url :: "string \<Rightarrow> string \<Rightarrow> url" where
  "https_url h p = \<lparr>u_scheme = ''https'', u_host = h, u_path = p, u_query = []\<rparr>"

text \<open>\<open>DefaultURLCanonicalizer\<close>.\<close>

definition default_url_canonicalizer :: "(string \<Rightarrow> string) \<Rightarrow> canonicalizer" where
  "default_url_canonicalizer ul u =
     Inr (https_url (to_lower ul (u_host u)) (trim_suffix (strip_endpoint (u_path u)) ''.git''))"

text \<open>\<open>github.URLCanonicalizer\<close>.\<close>

definition github_url_canonicalizer :: "(string \<Rightarrow> string) \<Rightarrow> canonicalizer" where
  "github_url_canonicalizer ul u =
     (case default_url_canonicalizer ul u of
        Inl e \<Rightarrow> Inl e
      | Inr ret \<Rightarrow>
          if to_lower ul (u_host ret) = ''github.com''
          then Inr (ret\<lparr>u_path := to_lower ul (u_path ret)\<rparr>) else Inr ret)"

text \<open>\<open>google.CanonicalizeURL\<close>.\<close>

definition google_canonicalize_url :: canonicalizer where
  "google_canonicalize_url u =
     (let finish = (\<lambda>p. Inr (https_url (u_host u) (trim_suffix (strip_endpoint p) ''.git'')))
      in if has_suffix (u_host u) ''.googlesource.com'' then
           finish (if has_prefix (u_path u) ''/a/'' then trim_prefix (u_path u) ''/a'' else u_path u)
         else if u_host u = ''source.developers.google.com'' then finish (u_path u)
         else Inl (StatusError InvalidArgument (''unsupported host: '' @ u_host u)))"

text \<open>The directory \<open>openManagedRepository\<close> keeps a URL in.\<close>

definition local_disk_path :: "string \<Rightarrow> url \<Rightarrow> string" where
  "local_disk_path root u = path_join [root, u_host u, u_path u]"

section \<open>What a canonicalizer promises\<close>

definition endpoints :: "string list" where
  "endpoints = [''/info/refs'', ''/git-upload-pack'', ''/git-receive-pack'']"

text \<open>A path of a repository: not itself one of an endpoint, nor the authorization prefix alone.\<close>

definition base_path :: "string \<Rightarrow> bool" where
  "base_path p = (list_all (\<lambda>ep. \<not> has_suffix p ep) endpoints \<and> p \<noteq> ''/a'')"

locale url_canonicalizer =
  fixes canon :: canonicalizer
  assumes canon_https: "canon u = Inr v \<Longrightarrow> u_scheme v = ''https'' \<and> u_query v = []"
    and canon_endpoint: "ep \<in> set endpoints \<Longrightarrow> base_path p \<Longrightarrow> canon (u\<lparr>u_path := p @ ep\<rparr>) = canon (u\<lparr>u_path := p\<rparr>)"
    and canon_host_path: "u_host u = u_host v \<Longrightarrow> u_path u = u_path v \<Longrightarrow> canon u = canon v"
begin

text \<open>Every request of a Git client for one repository is for one URL, so for one directory.\<close>

lemma same_repository:
  assumes "base_path p" and "ep1 \<in> set ([] # endpoints)" and "ep2 \<in> set ([] # endpoints)"
    and "u_host u1 = u_host u2" and "u_path u1 = p @ ep1" and "u_path u2 = p @ ep2"
  shows "canon u1 = canon u2"
proof -
  have one: "canon v = canon (v\<lparr>u_path := p\<rparr>)" if "u_path v = p @ ep" "ep \<in> set ([] # endpoints)" for v ep
  proof -
    have "v = v\<lparr>u_path := p @ ep\<rparr>" using that(1) by simp
    then show ?thesis using that(2) canon_endpoint [OF _ assms(1), of ep v] by auto
  qed
  have "canon (u1\<lparr>u_path := p\<rparr>) = canon (u2\<lparr>u_path := p\<rparr>)"
    using assms(4) by (intro canon_host_path) simp_all
  with one [OF assms(5,2)] one [OF assms(6,3)] show ?thesis by simp
qed

end

lemma endpoint_suffixes [simp]:
  "has_suffix (p @ ''/info/refs'') ''/info/refs''"
  "\<not> has_suffix (p @ ''/git-upload-pack'') ''/info/refs''"
  "has_suffix (p @ ''/git-upload-pack'') ''/git-upload-pack''"
  "\<not> has_suffix (p @ ''/git-receive-pack'') ''/info/refs''"
  "\<not> has_suffix (p @ ''/git-receive-pack'') ''/git-upload-pack''"
  "has_suffix (p @ ''/git-receive-pack'') ''/git-receive-pack''"
  by (simp_all add: has_suffix_longer, simp_all add: has_suffix_def)

lemma strip_endpoint_id: "list_all (\<lambda>ep. \<not> has_suffix p ep) endpoints \<Longrightarrow> strip_endpoint p = p"
  by (simp add: strip_endpoint_def endpoints_def)

lemma strip_endpoint_base: "base_path p \<Longrightarrow> strip_endpoint p = p"
  by (simp add: base_path_def strip_endpoint_id)

lemma strip_endpoint_append: "ep \<in> set endpoints \<Longrightarrow> strip_endpoint (p @ ep) = p"
  by (auto simp: endpoints_def strip_endpoint_def)

interpretation default_canon: url_canonicalizer "default_url_canonicalizer ul" for ul
  by unfold_locales
    (auto simp: default_url_canonicalizer_def https_url_def strip_endpoint_append strip_endpoint_base)

interpretation github_canon: url_canonicalizer "github_url_canonicalizer ul" for ul
  by unfold_locales
    (auto simp: github_url_canonicalizer_def default_url_canonicalizer_def https_url_def
      strip_endpoint_append strip_endpoint_base split: if_splits)

lemma base_path_prefix:
  assumes "ep \<in> set endpoints" and "base_path p"
  shows "has_prefix (p @ ep) ''/a/'' = has_prefix p ''/a/''"
proof (cases p rule: remdups_adj.cases)
  case (3 x y r)
  with assms show ?thesis
    by (cases r) (auto simp: has_prefix_def endpoints_def base_path_def)
qed (use assms in \<open>auto simp: has_prefix_def endpoints_def\<close>)

lemma strip_authorization:
  assumes "ep \<in> set endpoints" and "base_path p" and "has_prefix p ''/a/''"
  shows "strip_endpoint (trim_prefix (p @ ep) ''/a'') = strip_endpoint (trim_prefix p ''/a'')"
proof -
  obtain r where r: "p = ''/a/'' @ r" using assms(3) by (auto simp: has_prefix_iff)
  have "has_suffix p q" if "has_suffix (CHR ''/'' # r) q" for q
  proof -
    from that obtain t where "CHR ''/'' # r = t @ q" by (auto simp: has_suffix_iff)
    then have "p = (''/a'' @ t) @ q" by (simp add: r)
    then show ?thesis by (metis has_suffix_append)
  qed
  with assms(2) have "strip_endpoint (CHR ''/'' # r) = CHR ''/'' # r"
    by (intro strip_endpoint_id) (auto simp: base_path_def list_all_iff)
  then show ?thesis
    using strip_endpoint_append [OF assms(1), of "CHR ''/'' # r"]
    by (simp add: r trim_prefix_def has_prefix_def)
qed

interpretation google_canon: url_canonicalizer google_canonicalize_url
proof unfold_locales
  fix ep p u
  assume "ep \<in> set endpoints" and "base_path p"
  then show "google_canonicalize_url (u\<lparr>u_path := p @ ep\<rparr>) = google_canonicalize_url (u\<lparr>u_path := p\<rparr>)"
    by (simp add: google_canonicalize_url_def Let_def base_path_prefix strip_authorization
        strip_endpoint_append strip_endpoint_base)
qed (auto simp: google_canonicalize_url_def https_url_def Let_def split: if_splits)

section \<open>Elements of paths\<close>

definition path_elems :: "string \<Rightarrow> string list" where
  "path_elems s = filter (\<lambda>e. e \<noteq> [] \<and> e \<noteq> ''.'') (split_on CHR ''/'' s)"

abbreviation no_dotdot :: "string \<Rightarrow> bool" where
  "no_dotdot s \<equiv> ''..'' \<notin> set (split_on CHR ''/'' s)"

lemma clean_elems_plain:
  "''..'' \<notin> set es \<Longrightarrow> clean_elems rooted out es = rev out @ filter (\<lambda>e. e \<noteq> [] \<and> e \<noteq> ''.'') es"
  by (induction rooted out es rule: clean_elems.induct) auto

lemma path_elems_append: "path_elems (s @ CHR ''/'' # t) = path_elems s @ path_elems t"
  by (simp add: path_elems_def split_on_split)

lemma path_elems_clean:
  "e \<in> set (path_elems s) \<Longrightarrow> CHR ''/'' \<notin> set e \<and> e \<noteq> [] \<and> e \<noteq> ''.''"
  by (auto simp: path_elems_def dest: split_on_parts_clean)

lemma path_elems_join:
  "(\<And>e. e \<in> set es \<Longrightarrow> CHR ''/'' \<notin> set e \<and> e \<noteq> [] \<and> e \<noteq> ''.'') \<Longrightarrow> path_elems (''/'' @ join_with ''/'' es) = es"
proof -
  assume es: "\<And>e. e \<in> set es \<Longrightarrow> CHR ''/'' \<notin> set e \<and> e \<noteq> [] \<and> e \<noteq> ''.''"
  then have "path_elems (join_with ''/'' es) = es"
    by (cases "es = []") (simp_all add: path_elems_def split_on_join filter_id_conv)
  then show ?thesis by (simp add: path_elems_def)
qed

lemma path_elems_path_clean:
  assumes "has_prefix s ''/''" and "no_dotdot s"
  shows "path_elems (path_clean s) = path_elems s"
proof -
  have "s \<noteq> []" using assms(1) by (auto simp: has_prefix_def)
  with assms have "path_clean s = ''/'' @ join_with ''/'' (path_elems s)"
    by (simp add: path_clean_def Let_def clean_elems_plain path_elems_def)
  then show ?thesis
    using path_elems_join path_elems_clean by metis
qed

lemma path_join_three:
  assumes "root \<noteq> []"
  shows "path_join [root, h, p] = path_clean (root @ CHR ''/'' # h @ CHR ''/'' # p)"
  using assms by (simp add: path_join_def)

lemma local_disk_path_elems:
  assumes "has_prefix root ''/''" and "no_dotdot root" and "no_dotdot (u_host u)" and "no_dotdot (u_path u)"
  shows "path_elems (local_disk_path root u) = path_elems root @ path_elems (u_host u) @ path_elems (u_path u)"
proof -
  let ?s = "root @ CHR ''/'' # u_host u @ CHR ''/'' # u_path u"
  have root: "root \<noteq> []" using assms(1) by (auto simp: has_prefix_def)
  with assms(1) have "has_prefix ?s ''/''" by (cases root) (auto simp: has_prefix_def)
  moreover have "no_dotdot ?s" using assms by (simp add: split_on_split)
  ultimately show ?thesis
    by (simp add: local_disk_path_def path_join_three [OF root] path_elems_path_clean path_elems_append)
qed

section \<open>Case\<close>

lemma is_ascii_simps [simp]:
  "is_ascii []" "is_ascii (c # s) \<longleftrightarrow> (of_char c :: nat) < 128 \<and> is_ascii s"
  "is_ascii (s @ t) \<longleftrightarrow> is_ascii s \<and> is_ascii t"
  by (simp_all add: is_ascii_def)

lemma lower_byte_idem [simp]: "lower_byte (lower_byte c) = lower_byte c"
  by (auto simp: lower_byte_def Let_def of_char_of)

lemma lower_byte_ascii: "(of_char c :: nat) < 128 \<Longrightarrow> (of_char (lower_byte c) :: nat) < 128"
  by (auto simp: lower_byte_def Let_def)

lemma is_ascii_lower: "is_ascii s \<Longrightarrow> is_ascii (map lower_byte s)"
  by (induction s) (auto simp: lower_byte_ascii)

lemma to_lower_idem: "is_ascii s \<Longrightarrow> to_lower ul (to_lower ul s) = to_lower ul s"
  by (simp add: to_lower_def is_ascii_lower)

lemma trim_git_append: "trim_suffix (p @ ''.git'') ''.git'' = p"
  by simp

lemma strip_endpoint_any:
  assumes "ep \<in> set ([] # endpoints)" and "base_path p"
  shows "strip_endpoint (p @ ep) = p"
  using assms strip_endpoint_append strip_endpoint_base by auto

section \<open>Properties\<close>

text \<open>
  C38: the requests of a Git client for one repository (the reference advertisement, the
  upload and the receive endpoint, with or without the suffix .git) all canonicalize to one
  URL, so they are served from one directory of the cache.
\<close>

theorem same_repository_url:
  assumes "base_path p" and "base_path (p @ ''.git'')" and "\<not> has_suffix p ''.git''"
    and "ep1 \<in> set ([] # endpoints)" and "ep2 \<in> set ([] # endpoints)"
    and "u_host u1 = u_host u2" and "u_path u1 = p @ ep1" and "u_path u2 = p @ ''.git'' @ ep2"
  shows "\<exists>v. github_url_canonicalizer ul u1 = Inr v \<and> github_url_canonicalizer ul u2 = Inr v"
proof -
  let ?b = "u2\<lparr>u_path := p\<rparr>" and ?g = "u2\<lparr>u_path := p @ ''.git''\<rparr>"
  have "github_url_canonicalizer ul u1 = github_url_canonicalizer ul ?b"
    using assms(4,6,7) by (intro github_canon.same_repository [OF assms(1), of ep1 "[]"]) auto
  moreover have "github_url_canonicalizer ul u2 = github_url_canonicalizer ul ?g"
    using assms(5,8) by (intro github_canon.same_repository [OF assms(2), of ep2 "[]"]) auto
  moreover have "default_url_canonicalizer ul ?b = default_url_canonicalizer ul ?g"
    using assms(1-3) by (simp add: default_url_canonicalizer_def strip_endpoint_base trim_suffix_id)
  then have "github_url_canonicalizer ul ?b = github_url_canonicalizer ul ?g"
    by (simp add: github_url_canonicalizer_def)
  moreover have "\<exists>v. github_url_canonicalizer ul ?g = Inr v"
    by (simp add: github_url_canonicalizer_def default_url_canonicalizer_def)
  ultimately show ?thesis by auto
qed

theorem same_repository_url_witness:
  "\<exists>v. github_url_canonicalizer id (https_url ''github.com'' ''/o/r/info/refs'') = Inr v \<and>
     github_url_canonicalizer id (https_url ''github.com'' ''/o/r.git/git-upload-pack'') = Inr v"
  using same_repository_url [of "''/o/r''" "''/info/refs''" "''/git-upload-pack''"
      "https_url ''github.com'' ''/o/r/info/refs''" "https_url ''github.com'' ''/o/r.git/git-upload-pack''" id]
  by (auto simp: base_path_def endpoints_def has_suffix_def https_url_def)

text \<open>
  On github.com the repository path is not case sensitive: paths that differ in case
  only, and carry no endpoint and no .git suffix, canonicalize to the same URL.
\<close>

theorem github_case_insensitive:
  assumes "base_path p" and "base_path q" and "\<not> has_suffix p ''.git''" and "\<not> has_suffix q ''.git''"
    and "is_ascii p" and "is_ascii q" and "map lower_byte p = map lower_byte q"
    and "is_ascii h" and "map lower_byte h = ''github.com''"
  shows "github_url_canonicalizer ul (https_url h p) = github_url_canonicalizer ul (https_url ''github.com'' q)"
proof -
  have gh: "to_lower ul h = ''github.com''" and gh2: "to_lower ul ''github.com'' = ''github.com''"
    using assms(8,9) by (simp_all add: to_lower_def lower_byte_def Let_def)
  have canon: "github_url_canonicalizer ul (https_url g r) = Inr (https_url ''github.com'' (map lower_byte r))"
    if "base_path r" "\<not> has_suffix r ''.git''" "is_ascii r" "to_lower ul g = ''github.com''" for g r
    using that gh2
    by (simp add: github_url_canonicalizer_def default_url_canonicalizer_def https_url_def
        strip_endpoint_base trim_suffix_id) (simp add: to_lower_def)
  from canon [OF assms(1,3,5) gh] canon [OF assms(2,4,6) gh2] assms(7) show ?thesis by simp
qed

theorem github_case_insensitive_witness:
  "github_url_canonicalizer id (https_url ''GitHub.com'' ''/O/Repo'') =
     github_url_canonicalizer id (https_url ''github.com'' ''/o/repo'')"
  by (rule github_case_insensitive; code_simp)

text \<open>
  A repository is kept inside the cache: when neither the host nor the path has a
  parent element, the directory's elements are those of the root followed by those of the
  host and of the path.
\<close>

theorem cache_directory_inside_root:
  assumes "has_prefix root ''/''" and "no_dotdot root" and "no_dotdot (u_host u)" and "no_dotdot (u_path u)"
  shows "path_elems (local_disk_path root u) = path_elems root @ path_elems (u_host u) @ path_elems (u_path u)
    \<and> prefix (path_elems root) (path_elems (local_disk_path root u))"
  using local_disk_path_elems [OF assms] by simp

theorem cache_directory_inside_root_witness:
  "path_elems (local_disk_path ''/tmp/goblet'' (https_url ''github.com'' ''/o/r'')) =
     [''tmp'', ''goblet'', ''github.com'', ''o'', ''r'']"
  using cache_directory_inside_root [of "''/tmp/goblet''" "https_url ''github.com'' ''/o/r''"]
  by (simp add: https_url_def has_prefix_def path_elems_def)

text \<open>
  A host or a path with a parent element leaves the cache: the canonicalizers and
  \<open>openManagedRepository\<close> do not look for one.
\<close>

theorem cache_directory_escapes:
  "github_url_canonicalizer id (https_url ''..'' ''/o/r/info/refs'') = Inr (https_url ''..'' ''/o/r'') \<and>
   local_disk_path ''/tmp/goblet'' (https_url ''..'' ''/o/r'') = ''/tmp/o/r''"
  by code_simp

text \<open>
  The canonicalizer for Google hosts accepts exactly the hosts under googlesource.com and
  source.developers.google.com, keeps the host, and refuses every other with InvalidArgument.
\<close>

theorem google_hosts:
  "(\<exists>v. google_canonicalize_url u = Inr v \<and> u_host v = u_host u \<and> u_scheme v = ''https'') \<longleftrightarrow>
     has_suffix (u_host u) ''.googlesource.com'' \<or> u_host u = ''source.developers.google.com''"
  by (auto simp: google_canonicalize_url_def https_url_def Let_def)

end
