(* ===== verification/PackHook.thy ===== *)
theory PackHook
  imports Canon
begin

text \<open>
  The pack-objects hook (\<open>hooks/packobjects/main.go\<close>): a process that runs a command and
  keeps its output in a cache directory, or serves the output kept there. Many of them run
  at the same time on one file system, so the program is a step function, one step for
  each access to the files, and a run is a schedule of the processes. The model is of the
  processes that have one key, hence one directory: the files of different keys are
  different (\<open>cache_path_separate\<close>).
\<close>

section \<open>Keys and paths\<close>

text \<open>What \<open>obtainStdinAndKey\<close> feeds to SHA-256, which is an argument, and the key.\<close>

definition key_input :: "string list \<Rightarrow> bytes \<Rightarrow> bytes" where
  "key_input args stdin = trim_space (join_with '' '' args) @ newline @ stdin"

definition hex_lower :: "nat \<Rightarrow> char" where
  "hex_lower n = (if n < 10 then char_of (48 + n) else char_of (87 + n))"

definition hex_encode :: "bytes \<Rightarrow> string" where
  "hex_encode bs = concat (map (\<lambda>c. let n = (of_char c :: nat) in [hex_lower (n div 16), hex_lower (n mod 16)]) bs)"

definition obtain_stdin_and_key :: "(bytes \<Rightarrow> bytes) \<Rightarrow> string list \<Rightarrow> bytes \<Rightarrow> bytes \<times> int \<times> string" where
  "obtain_stdin_and_key sha256 args stdin =
     (stdin, int (length stdin), hex_encode (sha256 (key_input args stdin)))"

definition cache_path :: "string \<Rightarrow> string \<Rightarrow> string list \<Rightarrow> string" where
  "cache_path dir key files = path_join ([dir, take 2 key, drop 2 key] @ files)"

section \<open>Processes and files\<close>

datatype fname = FStart | FStdout | FEnd | FServed

text \<open>
  The directory of the key: whether it is there, what its names refer to, and the contents
  of the files, which an open file keeps when its name is removed.
\<close>

text \<open>
  Where a process is. \<open>CopyStdout off\<close> has read that much of the cached output; the run of
  the command has the chunks it still prints; a purge knows what follows it.
\<close>

datatype after_purge = ThenPrepare | ThenExit

datatype pc =
    CheckEnd | OpenStdout | CopyStdout nat | MarkServed
  | PurgeEnd after_purge | PurgeStdout after_purge | PurgeList after_purge
  | PurgeNames "fname list" after_purge | PurgeDir after_purge
  | PrepareCheck | PrepareMkdir | PrepareStart | PrepareStdout
  | RunCached "bytes list" | RunPlain "bytes list" | WriteEnd
  | Exited | Dead

record hook_proc =
  p_pc :: pc
  p_fd :: nat
  p_out :: bytes
  p_code :: int

record hook =
  h_dir :: bool
  h_entry :: "fname \<Rightarrow> nat option"
  h_content :: "nat \<Rightarrow> bytes"
  h_next :: nat
  h_proc :: "nat \<Rightarrow> hook_proc"

text \<open>
  The command of a process: what it prints and its exit code. \<open>cacheable\<close>: the standard
  input is not over the limit. \<open>line\<close>: the text of the small files.
\<close>

record hook_env =
  e_chunks :: "nat \<Rightarrow> bytes list"
  e_code :: "nat \<Rightarrow> int"
  e_cacheable :: bool
  e_line :: bytes

definition within_max :: "int \<Rightarrow> int \<Rightarrow> bool" where
  "within_max stdin_size stdin_max = (\<not> (stdin_max \<noteq> 0 \<and> stdin_size > stdin_max))"

text \<open>
  What happens at a step: it goes well (a read returns at most so many bytes and one more),
  the system call fails, or the process is killed.
\<close>

datatype choice = Go nat | Fault | Kill

definition goto :: "nat \<Rightarrow> pc \<Rightarrow> hook \<Rightarrow> hook" where
  "goto p c h = h\<lparr>h_proc := (h_proc h)(p := (h_proc h p)\<lparr>p_pc := c\<rparr>)\<rparr>"

definition exit_code :: "nat \<Rightarrow> int \<Rightarrow> hook \<Rightarrow> hook" where
  "exit_code p n h = h\<lparr>h_proc := (h_proc h)(p := (h_proc h p)\<lparr>p_code := n\<rparr>)\<rparr>"

definition print_out :: "nat \<Rightarrow> bytes \<Rightarrow> hook \<Rightarrow> hook" where
  "print_out p b h = h\<lparr>h_proc := (h_proc h)(p := (h_proc h p)\<lparr>p_out := p_out (h_proc h p) @ b\<rparr>)\<rparr>"

definition open_fd :: "nat \<Rightarrow> nat \<Rightarrow> hook \<Rightarrow> hook" where
  "open_fd p fd h = h\<lparr>h_proc := (h_proc h)(p := (h_proc h p)\<lparr>p_fd := fd\<rparr>)\<rparr>"

text \<open>\<open>fileExists\<close>: any error but "not exist" counts as existing.\<close>

definition file_exists :: "choice \<Rightarrow> fname \<Rightarrow> hook \<Rightarrow> bool" where
  "file_exists ch f h = (ch = Fault \<or> h_entry h f \<noteq> None)"

text \<open>An exclusive create succeeds when the directory is there and the name is not.\<close>

definition can_create :: "choice \<Rightarrow> fname \<Rightarrow> hook \<Rightarrow> bool" where
  "can_create ch f h = (ch \<noteq> Fault \<and> h_dir h \<and> h_entry h f = None)"

definition create :: "fname \<Rightarrow> bytes \<Rightarrow> hook \<Rightarrow> hook" where
  "create f b h = h\<lparr>h_entry := (h_entry h)(f \<mapsto> h_next h), h_content := (h_content h)(h_next h := b),
     h_next := Suc (h_next h)\<rparr>"

text \<open>Opening with \<open>O_APPEND|O_CREATE\<close> and writing a line.\<close>

definition append_line :: "choice \<Rightarrow> fname \<Rightarrow> bytes \<Rightarrow> hook \<Rightarrow> hook" where
  "append_line ch f b h =
     (if ch = Fault \<or> \<not> h_dir h then h
      else case h_entry h f of
             Some i \<Rightarrow> h\<lparr>h_content := (h_content h)(i := h_content h i @ b)\<rparr>
           | None \<Rightarrow> create f b h)"

definition unlink :: "choice \<Rightarrow> fname \<Rightarrow> hook \<Rightarrow> hook" where
  "unlink ch f h = (if ch = Fault then h else h\<lparr>h_entry := (h_entry h)(f := None)\<rparr>)"

definition entries :: "hook \<Rightarrow> fname list" where
  "entries h = filter (\<lambda>f. h_entry h f \<noteq> None) [FStart, FStdout, FEnd, FServed]"

definition after_purge_pc :: "after_purge \<Rightarrow> pc" where
  "after_purge_pc a = (case a of ThenPrepare \<Rightarrow> PrepareCheck | ThenExit \<Rightarrow> Exited)"

text \<open>
  One step of process \<open>p\<close>. The pcs follow \<open>main\<close>: is the cache complete, serve it, or
  purge it; \<open>prepareCacheDir\<close>; the run; the end of the cache or the purge of it.
  \<open>os.RemoveAll\<close> on the directory reads the names, removes each, then removes the
  directory if it is empty.
\<close>

definition hook_step :: "hook_env \<Rightarrow> choice \<Rightarrow> nat \<Rightarrow> hook \<Rightarrow> hook" where
  "hook_step env ch p h =
     (if p_pc (h_proc h p) = Exited \<or> p_pc (h_proc h p) = Dead then h
      else if ch = Kill then goto p Dead h
      else case p_pc (h_proc h p) of
        CheckEnd \<Rightarrow> goto p (if file_exists ch FEnd h then OpenStdout else PrepareCheck) h
      | OpenStdout \<Rightarrow>
          (case h_entry h FStdout of
             Some i \<Rightarrow> if ch = Fault then goto p (PurgeEnd ThenPrepare) h
                       else open_fd p i (goto p (CopyStdout 0) h)
           | None \<Rightarrow> goto p (PurgeEnd ThenPrepare) h)
      | CopyStdout off \<Rightarrow>
          (case ch of
             Go n \<Rightarrow>
               let b = take (Suc n) (drop off (h_content h (p_fd (h_proc h p)))) in
               if b = [] then goto p MarkServed h
               else print_out p b (goto p (CopyStdout (off + length b)) h)
           | _ \<Rightarrow> exit_code p 1 (goto p MarkServed h))
      | MarkServed \<Rightarrow> append_line ch FServed (e_line env) (goto p Exited h)
      | PurgeEnd a \<Rightarrow> unlink ch FEnd (goto p (PurgeStdout a) h)
      | PurgeStdout a \<Rightarrow> unlink ch FStdout (goto p (PurgeList a) h)
      | PurgeList a \<Rightarrow>
          if ch = Fault \<or> \<not> h_dir h then goto p (after_purge_pc a) h
          else goto p (PurgeNames (entries h) a) h
      | PurgeNames fs a \<Rightarrow>
          (case fs of
             [] \<Rightarrow> goto p (PurgeDir a) h
           | f # fs' \<Rightarrow> unlink ch f (goto p (PurgeNames fs' a) h))
      | PurgeDir a \<Rightarrow>
          (if ch = Fault \<or> entries h \<noteq> [] then goto p (after_purge_pc a) h
           else goto p (after_purge_pc a) (h\<lparr>h_dir := False\<rparr>))
      | PrepareCheck \<Rightarrow>
          (if \<not> e_cacheable env \<or> file_exists ch FStart h then goto p (RunPlain (e_chunks env p)) h
           else goto p PrepareMkdir h)
      | PrepareMkdir \<Rightarrow> if ch = Fault then goto p PrepareStart h else goto p PrepareStart (h\<lparr>h_dir := True\<rparr>)
      | PrepareStart \<Rightarrow>
          if can_create ch FStart h then create FStart (e_line env) (goto p PrepareStdout h)
          else goto p (RunPlain (e_chunks env p)) h
      | PrepareStdout \<Rightarrow>
          if can_create ch FStdout h then
            open_fd p (h_next h) (create FStdout [] (goto p (RunCached (e_chunks env p)) h))
          else goto p (RunPlain (e_chunks env p)) h
      | RunCached bs \<Rightarrow>
          if ch = Fault then exit_code p 1 (goto p (PurgeEnd ThenExit) h)
          else (case bs of
             b # bs' \<Rightarrow> print_out p b (goto p (RunCached bs')
               (h\<lparr>h_content := (h_content h)(p_fd (h_proc h p) := h_content h (p_fd (h_proc h p)) @ b)\<rparr>))
           | [] \<Rightarrow> exit_code p (e_code env p) (goto p (if e_code env p = 0 then WriteEnd else PurgeEnd ThenExit) h))
      | RunPlain bs \<Rightarrow>
          if ch = Fault then exit_code p 1 (goto p Exited h)
          else (case bs of
             b # bs' \<Rightarrow> print_out p b (goto p (RunPlain bs') h)
           | [] \<Rightarrow> exit_code p (e_code env p) (goto p Exited h))
      | WriteEnd \<Rightarrow> append_line ch FEnd (e_line env) (goto p Exited h)
      | Exited \<Rightarrow> h
      | Dead \<Rightarrow> h)"

text \<open>
  MkdirAll with an error other than "exist" is not an early return in \<open>prepareCacheDir\<close>
  (\<open>PrepareMkdir\<close> goes on), and a failed creation of the output file leaves the lock. The
  early return for the error "exist" does what faults at \<open>PrepareMkdir\<close> and \<open>PrepareStart\<close> do:
  the command is run without the cache, and nothing has been created.
\<close>

fun hook_run :: "hook_env \<Rightarrow> (nat \<times> choice) list \<Rightarrow> hook \<Rightarrow> hook" where
  "hook_run env [] h = h"
| "hook_run env ((p, ch) # sched) h = hook_run env sched (hook_step env ch p h)"

definition new_proc :: hook_proc where
  "new_proc = \<lparr>p_pc = CheckEnd, p_fd = 0, p_out = [], p_code = 0\<rparr>"

definition empty_cache :: hook where
  "empty_cache = \<lparr>h_dir = False, h_entry = (\<lambda>_. None), h_content = (\<lambda>_. []), h_next = 0, h_proc = (\<lambda>_. new_proc)\<rparr>"

text \<open>
  What \<open>main\<close> checks before: a command, the directory in the environment and that it can be
  created. \<open>None\<close>: the process exits with status 1; otherwise the key and whether the
  input is small enough.
\<close>

definition hook_main ::
  "(bytes \<Rightarrow> bytes) \<Rightarrow> string list \<Rightarrow> (string \<Rightarrow> string option) \<Rightarrow> (string \<Rightarrow> bool) \<Rightarrow> bytes \<Rightarrow>
     (string \<times> string \<times> bool) option" where
  "hook_main sha256 args lookup_env mkdir_all stdin =
     (if args = [] then None
      else case lookup_env ''POH_CACHE_DIR'' of
        None \<Rightarrow> None
      | Some dir \<Rightarrow>
          let (v, ok) = parse_int (case lookup_env ''POH_STDIN_MAX'' of None \<Rightarrow> [] | Some s \<Rightarrow> s);
              stdin_max = (if ok then v else 0)
          in if \<not> mkdir_all dir then None
             else let (_, size, key) = obtain_stdin_and_key sha256 args stdin
                  in Some (dir, key, within_max size stdin_max))"

section \<open>The lock and the invariant\<close>

text \<open>A process holds the lock from the creation of the start file to its removal or the end.\<close>

fun holds :: "pc \<Rightarrow> bool" where
  "holds PrepareStdout = True"
| "holds (RunCached bs) = True"
| "holds WriteEnd = True"
| "holds (PurgeEnd a) = (a = ThenExit)"
| "holds (PurgeStdout a) = (a = ThenExit)"
| "holds (PurgeList a) = (a = ThenExit)"
| "holds (PurgeNames fs a) = (a = ThenExit \<and> FStart \<in> set fs)"
| "holds _ = False"

abbreviation pc_of :: "hook \<Rightarrow> nat \<Rightarrow> pc" where
  "pc_of h p \<equiv> p_pc (h_proc h p)"

definition full_output :: "hook_env \<Rightarrow> nat \<Rightarrow> bytes" where
  "full_output env p = concat (e_chunks env p)"

text \<open>The whole output of a command that succeeded.\<close>

definition complete :: "hook_env \<Rightarrow> bytes \<Rightarrow> bool" where
  "complete env b \<longleftrightarrow> (\<exists>q. b = full_output env q \<and> e_code env q = 0)"

definition proc_ok :: "hook_env \<Rightarrow> hook \<Rightarrow> nat \<Rightarrow> bool" where
  "proc_ok env h p =
     (let pr = h_proc h p; ended = (h_entry h FEnd \<noteq> None) in
      case p_pc pr of
        CheckEnd \<Rightarrow> p_out pr = []
      | OpenStdout \<Rightarrow> p_out pr = [] \<and> ended
      | CopyStdout off \<Rightarrow> ended \<and> h_entry h FStdout = Some (p_fd pr) \<and> p_out pr = take off (h_content h (p_fd pr))
      | MarkServed \<Rightarrow> ended \<and> (p_code pr = 0 \<longrightarrow> complete env (p_out pr))
      | PurgeEnd a \<Rightarrow> a = ThenExit \<and> p_code pr \<noteq> 0
      | PurgeStdout a \<Rightarrow> a = ThenExit \<and> p_code pr \<noteq> 0
      | PurgeList a \<Rightarrow> a = ThenExit \<and> p_code pr \<noteq> 0 \<and> h_entry h FStdout = None
      | PurgeNames fs a \<Rightarrow> a = ThenExit \<and> p_code pr \<noteq> 0 \<and> (fs = [] \<or> fs = [FStart])
      | PurgeDir a \<Rightarrow> a = ThenExit \<and> p_code pr \<noteq> 0
      | PrepareCheck \<Rightarrow> p_out pr = []
      | PrepareMkdir \<Rightarrow> p_out pr = []
      | PrepareStart \<Rightarrow> p_out pr = []
      | PrepareStdout \<Rightarrow> p_out pr = []
      | RunCached bs \<Rightarrow> h_entry h FStdout = Some (p_fd pr) \<and> h_content h (p_fd pr) @ concat bs = full_output env p \<and>
          p_out pr = h_content h (p_fd pr)
      | RunPlain bs \<Rightarrow> p_out pr @ concat bs = full_output env p
      | WriteEnd \<Rightarrow> h_entry h FStdout = Some (p_fd pr) \<and> h_content h (p_fd pr) = full_output env p \<and>
          p_out pr = full_output env p \<and> e_code env p = 0
      | Exited \<Rightarrow> p_code pr = 0 \<longrightarrow> complete env (p_out pr)
      | Dead \<Rightarrow> True)"

definition files_ok :: "hook_env \<Rightarrow> hook \<Rightarrow> bool" where
  "files_ok env h \<longleftrightarrow>
     (\<forall>f i. h_entry h f = Some i \<longrightarrow> i < h_next h) \<and>
     (\<forall>f g i. h_entry h f = Some i \<longrightarrow> h_entry h g = Some i \<longrightarrow> f = g) \<and>
     (h_entry h FServed \<noteq> None \<longrightarrow> h_entry h FEnd \<noteq> None) \<and>
     (h_entry h FEnd \<noteq> None \<longrightarrow> h_entry h FStart \<noteq> None \<and>
        (\<exists>i. h_entry h FStdout = Some i \<and> complete env (h_content h i)))"

definition lock_ok :: "hook \<Rightarrow> bool" where
  "lock_ok h \<longleftrightarrow>
     (\<forall>p. holds (pc_of h p) \<longrightarrow> h_entry h FStart \<noteq> None \<and> h_entry h FEnd = None) \<and>
     (\<forall>p q. holds (pc_of h p) \<longrightarrow> holds (pc_of h q) \<longrightarrow> p = q)"

definition hook_inv :: "hook_env \<Rightarrow> hook \<Rightarrow> bool" where
  "hook_inv env h \<longleftrightarrow> files_ok env h \<and> lock_ok h \<and> (\<forall>p. proc_ok env h p)"

text \<open>
  Where a failing system call is excluded: the look at the end file, the opening of the
  output, and the removal of the output.
\<close>

definition no_fault_at :: "pc \<Rightarrow> bool" where
  "no_fault_at c \<longleftrightarrow> c = CheckEnd \<or> c = OpenStdout \<or> (\<exists>a. c = PurgeStdout a)"

fun reliable :: "hook_env \<Rightarrow> (nat \<times> choice) list \<Rightarrow> hook \<Rightarrow> bool" where
  "reliable env [] h = True"
| "reliable env ((p, ch) # sched) h =
     ((no_fault_at (pc_of h p) \<longrightarrow> ch \<noteq> Fault) \<and> reliable env sched (hook_step env ch p h))"

lemmas hook_ops = goto_def exit_code_def print_out_def open_fd_def create_def append_line_def unlink_def

text \<open>A process that does not look at the files that changed is as it was.\<close>

lemma proc_ok_frame:
  assumes "proc_ok env h q" and "h_proc h' q = h_proc h q"
    and "h_entry h FEnd \<noteq> None \<longrightarrow> h_entry h' FEnd \<noteq> None" and "h_entry h' FStdout = h_entry h FStdout"
    and "\<And>i. h_entry h FStdout = Some i \<Longrightarrow> h_content h' i = h_content h i"
  shows "proc_ok env h' q"
  using assms by (cases "pc_of h q") (auto simp: proc_ok_def Let_def)

lemma proc_ok_other:
  assumes "proc_ok env h q" and "h_proc h' q = h_proc h q"
    and "\<not> holds (pc_of h q)" and "h_entry h FEnd = None"
  shows "proc_ok env h' q"
  using assms by (cases "pc_of h q") (auto simp: proc_ok_def Let_def)

lemma hook_inv_start: "hook_inv env empty_cache"
  by (simp add: hook_inv_def files_ok_def lock_ok_def proc_ok_def empty_cache_def new_proc_def)

text \<open>A step that only moves one process, without taking the lock.\<close>

lemma hook_inv_local:
  assumes "hook_inv env h" and "h_entry h' = h_entry h" and "h_content h' = h_content h" and "h_next h' = h_next h"
    and "\<And>q. q \<noteq> p \<Longrightarrow> h_proc h' q = h_proc h q" and "holds (pc_of h' p) \<longrightarrow> holds (pc_of h p)"
    and "proc_ok env h' p"
  shows "hook_inv env h'"
proof -
  have "proc_ok env h' q" for q
    using assms proc_ok_frame [of env h q h'] by (cases "q = p") (auto simp: hook_inv_def)
  moreover have "lock_ok h'"
    using assms(1,2,5,6) unfolding hook_inv_def lock_ok_def by metis
  moreover have "files_ok env h'"
    using assms(1-4) by (simp add: hook_inv_def files_ok_def)
  ultimately show ?thesis by (simp add: hook_inv_def)
qed

text \<open>A step of the process that holds the lock: the others do not depend on what it changes.\<close>

lemma hook_inv_holder:
  assumes "hook_inv env h" and "holds (pc_of h p)" and "files_ok env h'"
    and "\<And>q. q \<noteq> p \<Longrightarrow> h_proc h' q = h_proc h q"
    and "holds (pc_of h' p) \<longrightarrow> h_entry h' FStart \<noteq> None \<and> h_entry h' FEnd = None"
    and "proc_ok env h' p"
  shows "hook_inv env h'"
proof -
  have others: "\<not> holds (pc_of h q)" if "q \<noteq> p" for q
    using assms(1,2) that by (auto simp: hook_inv_def lock_ok_def)
  have "h_entry h FEnd = None"
    using assms(1,2) by (auto simp: hook_inv_def lock_ok_def)
  then have "proc_ok env h' q" for q
    using assms(1,4,6) others proc_ok_other [of env h q h'] by (cases "q = p") (auto simp: hook_inv_def)
  moreover have "lock_ok h'"
    unfolding lock_ok_def using assms(4,5) others by metis
  ultimately show ?thesis using assms(3) by (simp add: hook_inv_def)
qed

text \<open>The steps, by the pc.\<close>

lemma step_kill: "hook_inv env h \<Longrightarrow> hook_inv env (hook_step env Kill p h)"
  by (cases "pc_of h p = Exited \<or> pc_of h p = Dead")
    (auto simp: hook_step_def goto_def proc_ok_def elim!: hook_inv_local [where p = p])

lemmas step_facts = hook_step_def hook_ops Let_def proc_ok_def

lemma hook_inv_parts:
  assumes "hook_inv env h"
  shows "proc_ok env h p" and "files_ok env h" and "lock_ok h"
    and "holds (pc_of h p) \<Longrightarrow> h_entry h FStart \<noteq> None"
    and "holds (pc_of h p) \<Longrightarrow> h_entry h FEnd = None"
    and "h_entry h FEnd \<noteq> None \<Longrightarrow> \<exists>i. h_entry h FStdout = Some i \<and> complete env (h_content h i)"
  using assms by (auto simp: hook_inv_def lock_ok_def files_ok_def)

lemma step_check_end:
  assumes "hook_inv env h" and "pc_of h p = CheckEnd" and "ch \<noteq> Fault" and "ch \<noteq> Kill"
  shows "hook_inv env (hook_step env ch p h)"
  using hook_inv_parts(1) [OF assms(1), of p] assms
  by (intro hook_inv_local [OF assms(1), where p = p]) (simp_all add: step_facts file_exists_def)

lemma step_open_stdout:
  assumes "hook_inv env h" and "pc_of h p = OpenStdout" and "ch \<noteq> Fault" and "ch \<noteq> Kill"
  shows "hook_inv env (hook_step env ch p h)"
proof -
  have "h_entry h FEnd \<noteq> None"
    using hook_inv_parts(1) [OF assms(1), of p] assms(2) by (simp add: proc_ok_def Let_def)
  then obtain i where "h_entry h FStdout = Some i"
    using hook_inv_parts(6) [OF assms(1)] by blast
  then show ?thesis
    using hook_inv_parts(1) [OF assms(1), of p] assms
    by (intro hook_inv_local [OF assms(1), where p = p]) (simp_all add: step_facts)
qed

lemma step_copy_stdout:
  assumes "hook_inv env h" and "pc_of h p = CopyStdout off" and "ch \<noteq> Kill"
  shows "hook_inv env (hook_step env ch p h)"
proof -
  have ok: "h_entry h FEnd \<noteq> None" "h_entry h FStdout = Some (p_fd (h_proc h p))"
    "p_out (h_proc h p) = take off (h_content h (p_fd (h_proc h p)))"
    using hook_inv_parts(1) [OF assms(1), of p] assms(2) by (simp_all add: proc_ok_def Let_def)
  then have comp: "complete env (h_content h (p_fd (h_proc h p)))"
    using hook_inv_parts(6) [OF assms(1)] by auto
  have more: "take off xs @ take (Suc n) (drop off xs) = take (off + length (take (Suc n) (drop off xs))) xs"
    for xs :: bytes and n
    by (simp add: take_add min_def)
  show ?thesis
  proof (cases ch)
    case (Go n)
    then show ?thesis
      using ok comp assms(2) more [of "h_content h (p_fd (h_proc h p))" n]
      by (intro hook_inv_local [OF assms(1), where p = p]) (simp_all add: step_facts)
  next
    case Fault
    then show ?thesis
      using ok assms(2) by (intro hook_inv_local [OF assms(1), where p = p]) (simp_all add: step_facts)
  qed (use assms(3) in simp)
qed

lemma files_ok_upd:
  assumes "files_ok env h" and "h_entry h' = (h_entry h)(f := None)" and "h_content h' = h_content h"
    and "h_next h' = h_next h" and "h_entry h FEnd = None"
  shows "files_ok env h'"
  using assms by (auto simp: files_ok_def)

lemma files_ok_create:
  assumes "files_ok env h" and "h_entry h' = (h_entry h)(f \<mapsto> h_next h)"
    and "\<And>i. i < h_next h \<Longrightarrow> h_content h' i = h_content h i" and "h_next h' = Suc (h_next h)"
    and "f \<noteq> FStdout \<or> h_entry h FEnd = None" and "f = FServed \<longrightarrow> h_entry h FEnd \<noteq> None"
    and "f = FEnd \<longrightarrow> h_entry h FStart \<noteq> None \<and> (\<exists>i. h_entry h FStdout = Some i \<and> complete env (h_content h i))"
  shows "files_ok env h'"
proof -
  have below: "i < h_next h" if "h_entry h g = Some i" for g i
    using assms(1) that by (auto simp: files_ok_def)
  have "i < h_next h'" if "h_entry h' g = Some i" for g i
    using below that assms(2,4) by (auto simp: less_Suc_eq split: if_splits)
  moreover have "g = k" if "h_entry h' g = Some i" and "h_entry h' k = Some i" for g k i
    using assms(1,2) that below by (auto simp: files_ok_def split: if_splits)
  moreover have "h_entry h' FEnd \<noteq> None \<longrightarrow> h_entry h' FStart \<noteq> None \<and>
      (\<exists>i. h_entry h' FStdout = Some i \<and> complete env (h_content h' i))"
  proof
    assume "h_entry h' FEnd \<noteq> None"
    then have "h_entry h FStart \<noteq> None \<and> (\<exists>i. h_entry h FStdout = Some i \<and> complete env (h_content h i)) \<and> f \<noteq> FStdout"
      using assms(1,2,5,7) by (auto simp: files_ok_def split: if_splits)
    then show "h_entry h' FStart \<noteq> None \<and> (\<exists>i. h_entry h' FStdout = Some i \<and> complete env (h_content h' i))"
      using assms(2,3) below by auto
  qed
  moreover have "h_entry h' FServed \<noteq> None \<longrightarrow> h_entry h' FEnd \<noteq> None"
    using assms(1,2,6) by (auto simp: files_ok_def split: if_splits)
  ultimately show ?thesis unfolding files_ok_def by blast
qed

lemma step_mark_served:
  assumes "hook_inv env h" and "pc_of h p = MarkServed" and "ch \<noteq> Kill"
  shows "hook_inv env (hook_step env ch p h)"
proof -
  note parts = hook_inv_parts [OF assms(1)]
  let ?h' = "hook_step env ch p h"
  have ended: "h_entry h FEnd \<noteq> None" and out: "p_code (h_proc h p) = 0 \<longrightarrow> complete env (p_out (h_proc h p))"
    using parts(1) [of p] assms(2) by (simp_all add: proc_ok_def Let_def)
  obtain i where i: "h_entry h FStdout = Some i" and comp: "complete env (h_content h i)"
    using parts(6) ended by blast
  have kept: "h_entry ?h' f = h_entry h f" if "f \<noteq> FServed" for f
    using assms(2,3) that by (auto simp: step_facts split: option.split)
  have "i < h_next h" and "h_entry h FServed \<noteq> Some i"
    using parts(2) i unfolding files_ok_def by (blast, metis fname.distinct(9))
  then have content: "h_content ?h' i = h_content h i"
    using assms(2,3) by (auto simp: step_facts split: option.split)
  have files: "files_ok env ?h'"
  proof (cases "h_entry ?h' = h_entry h")
    case True
    moreover have "h_next ?h' = h_next h"
      using True assms(2,3) by (auto simp: step_facts fun_upd_idem_iff split: option.splits)
    ultimately show ?thesis
      using parts(2) i comp content by (auto simp: files_ok_def)
  next
    case False
    then have "h_entry ?h' = (h_entry h)(FServed \<mapsto> h_next h)" "h_next ?h' = Suc (h_next h)"
      "\<And>i. i < h_next h \<Longrightarrow> h_content ?h' i = h_content h i"
      using assms(2,3) by (auto simp: step_facts split: option.splits if_splits)
    then show ?thesis
      using ended by (intro files_ok_create [OF parts(2), where f = FServed]) auto
  qed
  have others: "h_proc ?h' q = h_proc h q" if "q \<noteq> p" for q
    using assms(2,3) that by (auto simp: step_facts split: option.split)
  have me: "h_proc ?h' p = (h_proc h p)\<lparr>p_pc := Exited\<rparr>"
    using assms(2,3) by (auto simp: step_facts split: option.split)
  have "proc_ok env ?h' q" for q
  proof (cases "q = p")
    case True
    with me out show ?thesis by (simp add: proc_ok_def Let_def)
  next
    case False
    then show ?thesis
      using kept [of FEnd] kept [of FStdout] i content others
      by (intro proc_ok_frame [OF parts(1)]) auto
  qed
  moreover have "\<not> holds (pc_of ?h' q)" for q
    using parts(5) [of q] ended others [of q] me by (cases "q = p") auto
  then have "lock_ok ?h'" by (simp add: lock_ok_def)
  ultimately show ?thesis using files by (simp add: hook_inv_def)
qed

text \<open>A purge: the only file it finds is the start file, and removing it gives up the lock.\<close>

lemma step_purge_end:
  assumes "hook_inv env h" and "pc_of h p = PurgeEnd a" and "ch \<noteq> Kill"
  shows "hook_inv env (hook_step env ch p h)"
proof -
  note parts = hook_inv_parts [OF assms(1)]
  have a: "a = ThenExit" and code: "p_code (h_proc h p) \<noteq> 0"
    using parts(1) [of p] assms(2) by (simp_all add: proc_ok_def Let_def)
  then have "h_entry h FEnd = None" using parts(5) [of p] assms(2) by simp
  then show ?thesis
    using a code assms(2,3)
    by (intro hook_inv_local [OF assms(1), where p = p]) (simp_all add: step_facts fun_upd_idem)
qed

lemma step_purge_stdout:
  assumes "hook_inv env h" and "pc_of h p = PurgeStdout a" and "ch \<noteq> Kill" and "ch \<noteq> Fault"
  shows "hook_inv env (hook_step env ch p h)"
proof -
  note parts = hook_inv_parts [OF assms(1)]
  have a: "a = ThenExit" and code: "p_code (h_proc h p) \<noteq> 0"
    using parts(1) [of p] assms(2) by (simp_all add: proc_ok_def Let_def)
  then have holds: "holds (pc_of h p)" using assms(2) by simp
  have "files_ok env (hook_step env ch p h)"
    using assms(2-4) parts(5) [OF holds]
    by (intro files_ok_upd [OF parts(2), where f = FStdout]) (simp_all add: step_facts)
  then show ?thesis
    using a code assms(2-4) parts(4,5) [OF holds]
    by (intro hook_inv_holder [OF assms(1) holds]) (simp_all add: step_facts)
qed

lemma step_purge_list:
  assumes "hook_inv env h" and "pc_of h p = PurgeList a" and "ch \<noteq> Kill"
  shows "hook_inv env (hook_step env ch p h)"
proof -
  note parts = hook_inv_parts [OF assms(1)]
  have a: "a = ThenExit" "p_code (h_proc h p) \<noteq> 0" "h_entry h FStdout = None"
    using parts(1) [of p] assms(2) by (simp_all add: proc_ok_def Let_def)
  then have lock: "h_entry h FStart \<noteq> None" "h_entry h FEnd = None"
    using parts(4,5) [of p] assms(2) by simp_all
  then have "h_entry h FServed = None" using parts(2) by (auto simp: files_ok_def)
  with a lock have "entries h = [FStart]" by (simp add: entries_def)
  with a assms(2,3) show ?thesis
    by (intro hook_inv_local [OF assms(1), where p = p]) (simp_all add: step_facts after_purge_pc_def)
qed

lemma step_purge_names:
  assumes "hook_inv env h" and "pc_of h p = PurgeNames fs a" and "ch \<noteq> Kill"
  shows "hook_inv env (hook_step env ch p h)"
proof -
  note parts = hook_inv_parts [OF assms(1)]
  have a: "a = ThenExit" "p_code (h_proc h p) \<noteq> 0" "fs = [] \<or> fs = [FStart]"
    using parts(1) [of p] assms(2) by (simp_all add: proc_ok_def Let_def)
  show ?thesis
  proof (cases "fs = []")
    case True
    with a assms(2,3) show ?thesis
      by (intro hook_inv_local [OF assms(1), where p = p]) (simp_all add: step_facts)
  next
    case False
    with a have fs: "fs = [FStart]" by simp
    with a assms(2) have holds: "holds (pc_of h p)" by simp
    have "files_ok env (hook_step env ch p h)"
    proof (cases ch)
      case Fault
      then show ?thesis
        using parts(2) assms(2) fs by (simp add: step_facts files_ok_def)
    next
      case (Go n)
      then show ?thesis
        using assms(2) fs parts(5) [OF holds]
        by (intro files_ok_upd [OF parts(2), where f = FStart]) (simp_all add: step_facts)
    qed (use assms(3) in simp)
    then show ?thesis
      using a fs assms(2,3)
      by (intro hook_inv_holder [OF assms(1) holds]) (simp_all add: step_facts)
  qed
qed

lemma step_purge_dir:
  assumes "hook_inv env h" and "pc_of h p = PurgeDir a" and "ch \<noteq> Kill"
  shows "hook_inv env (hook_step env ch p h)"
  using hook_inv_parts(1) [OF assms(1), of p] assms
  by (intro hook_inv_local [OF assms(1), where p = p]) (simp_all add: step_facts after_purge_pc_def)

text \<open>\<open>prepareCacheDir\<close>: the exclusive create takes the lock.\<close>

lemma step_prepare:
  assumes "hook_inv env h" and "pc_of h p = PrepareCheck \<or> pc_of h p = PrepareMkdir" and "ch \<noteq> Kill"
  shows "hook_inv env (hook_step env ch p h)"
proof -
  have out: "p_out (h_proc h p) = []"
    using hook_inv_parts(1) [OF assms(1), of p] assms(2) by (auto simp: proc_ok_def Let_def)
  from assms(2) show ?thesis
  proof
    assume "pc_of h p = PrepareCheck"
    with out assms(3) show ?thesis
      by (intro hook_inv_local [OF assms(1), where p = p]) (simp_all add: step_facts full_output_def)
  next
    assume "pc_of h p = PrepareMkdir"
    with out assms(3) show ?thesis
      by (intro hook_inv_local [OF assms(1), where p = p]) (simp_all add: step_facts)
  qed
qed

lemma step_prepare_start:
  assumes "hook_inv env h" and "pc_of h p = PrepareStart" and "ch \<noteq> Kill"
  shows "hook_inv env (hook_step env ch p h)"
proof -
  note parts = hook_inv_parts [OF assms(1)]
  let ?h' = "hook_step env ch p h"
  have out: "p_out (h_proc h p) = []"
    using parts(1) [of p] assms(2) by (simp add: proc_ok_def Let_def)
  show ?thesis
  proof (cases "can_create ch FStart h")
    case False
    with out assms(2,3) show ?thesis
      by (intro hook_inv_local [OF assms(1), where p = p]) (simp_all add: step_facts full_output_def)
  next
    case True
    then have none: "h_entry h FStart = None" by (simp add: can_create_def)
    then have ended: "h_entry h FEnd = None" and free: "\<not> holds (pc_of h q)" for q
      using parts(2) parts(4) [of q] by (auto simp: files_ok_def)
    have others: "h_proc ?h' q = h_proc h q" if "q \<noteq> p" for q
      using True assms(2,3) that by (simp add: step_facts)
    have "files_ok env ?h'"
      using True assms(2,3) by (intro files_ok_create [OF parts(2), where f = FStart]) (simp_all add: step_facts)
    moreover have "proc_ok env ?h' q" for q
    proof (cases "q = p")
      case True
      then show ?thesis using out assms(2,3) \<open>can_create ch FStart h\<close> by (simp add: step_facts)
    next
      case False
      then show ?thesis by (intro proc_ok_other [OF parts(1) _ free ended] others)
    qed
    moreover have "lock_ok ?h'"
    proof -
      have "holds (pc_of ?h' q) \<Longrightarrow> q = p" for q
        using free [of q] others [of q] by (cases "q = p") auto
      moreover have "h_entry ?h' FStart \<noteq> None" "h_entry ?h' FEnd = None"
        using ended assms(2,3) True by (simp_all add: step_facts)
      ultimately show ?thesis unfolding lock_ok_def by blast
    qed
    ultimately show ?thesis by (simp add: hook_inv_def)
  qed
qed

lemma step_prepare_stdout:
  assumes "hook_inv env h" and "pc_of h p = PrepareStdout" and "ch \<noteq> Kill"
  shows "hook_inv env (hook_step env ch p h)"
proof -
  note parts = hook_inv_parts [OF assms(1)]
  have out: "p_out (h_proc h p) = []" and holds: "holds (pc_of h p)"
    using parts(1) [of p] assms(2) by (simp_all add: proc_ok_def Let_def)
  show ?thesis
  proof (cases "can_create ch FStdout h")
    case False
    with out assms(2,3) show ?thesis
      by (intro hook_inv_local [OF assms(1), where p = p]) (simp_all add: step_facts full_output_def)
  next
    case True
    have "files_ok env (hook_step env ch p h)"
      using True assms(2,3) parts(5) [OF holds]
      by (intro files_ok_create [OF parts(2), where f = FStdout]) (simp_all add: step_facts)
    with True out assms(2,3) parts(4,5) [OF holds] show ?thesis
      by (intro hook_inv_holder [OF assms(1) holds]) (simp_all add: step_facts full_output_def)
  qed
qed

text \<open>The run of the command.\<close>

lemma step_run_cached:
  assumes "hook_inv env h" and "pc_of h p = RunCached bs" and "ch \<noteq> Kill"
  shows "hook_inv env (hook_step env ch p h)"
proof -
  note parts = hook_inv_parts [OF assms(1)]
  let ?fd = "p_fd (h_proc h p)"
  have run: "h_entry h FStdout = Some ?fd" "h_content h ?fd @ concat bs = full_output env p"
      "p_out (h_proc h p) = h_content h ?fd" and holds: "holds (pc_of h p)"
    using parts(1) [of p] assms(2) by (simp_all add: proc_ok_def Let_def)
  note lock = parts(4,5) [OF holds]
  show ?thesis
  proof (cases "ch = Fault \<or> bs = []")
    case True
    with run assms(2,3) show ?thesis
      by (intro hook_inv_local [OF assms(1), where p = p]) (auto simp: step_facts)
  next
    case False
    then obtain b bs' where bs: "bs = b # bs'" by (cases bs) auto
    have "files_ok env (hook_step env ch p h)"
      using parts(2) False bs assms(2,3) lock by (simp add: step_facts files_ok_def)
    with False bs run assms(2,3) lock show ?thesis
      by (intro hook_inv_holder [OF assms(1) holds]) (simp_all add: step_facts)
  qed
qed

lemma step_run_plain:
  assumes "hook_inv env h" and "pc_of h p = RunPlain bs" and "ch \<noteq> Kill"
  shows "hook_inv env (hook_step env ch p h)"
proof -
  have out: "p_out (h_proc h p) @ concat bs = full_output env p"
    using hook_inv_parts(1) [OF assms(1), of p] assms(2) by (simp add: proc_ok_def Let_def)
  show ?thesis
    using out assms(2,3)
    by (intro hook_inv_local [OF assms(1), where p = p])
      (cases bs; auto simp: step_facts complete_def)+
qed

lemma step_write_end:
  assumes "hook_inv env h" and "pc_of h p = WriteEnd" and "ch \<noteq> Kill"
  shows "hook_inv env (hook_step env ch p h)"
proof -
  note parts = hook_inv_parts [OF assms(1)]
  let ?fd = "p_fd (h_proc h p)" and ?h' = "hook_step env ch p h"
  have ok: "h_entry h FStdout = Some ?fd" "h_content h ?fd = full_output env p"
      "p_out (h_proc h p) = full_output env p" "e_code env p = 0" and holds: "holds (pc_of h p)"
    using parts(1) [of p] assms(2) by (simp_all add: proc_ok_def Let_def)
  note lock = parts(4,5) [OF holds]
  have comp: "complete env (full_output env p)" using ok(4) by (auto simp: complete_def)
  show ?thesis
  proof (cases "ch = Fault \<or> \<not> h_dir h")
    case True
    with ok comp assms(2,3) show ?thesis
      by (intro hook_inv_local [OF assms(1), where p = p]) (auto simp: step_facts)
  next
    case False
    have "files_ok env ?h'"
      using False ok comp lock assms(2,3)
      by (intro files_ok_create [OF parts(2), where f = FEnd]) (simp_all add: step_facts)
    with False ok comp assms(2,3) lock show ?thesis
      by (intro hook_inv_holder [OF assms(1) holds]) (simp_all add: step_facts)
  qed
qed

lemma hook_inv_step:
  assumes "hook_inv env h" and "no_fault_at (pc_of h p) \<longrightarrow> ch \<noteq> Fault"
  shows "hook_inv env (hook_step env ch p h)"
proof (cases "ch = Kill")
  case True
  with assms(1) step_kill show ?thesis by blast
next
  case False
  note step = assms(1) _ False
  show ?thesis
  proof (cases "pc_of h p")
    case (PurgeStdout a)
    with step_purge_stdout [OF step] assms(2) show ?thesis by (simp add: no_fault_at_def)
  next
    case CheckEnd
    with step_check_end [OF assms(1)] False assms(2) show ?thesis by (simp add: no_fault_at_def)
  next
    case OpenStdout
    with step_open_stdout [OF assms(1)] False assms(2) show ?thesis by (simp add: no_fault_at_def)
  next
    case Exited
    with assms(1) show ?thesis by (simp add: hook_step_def)
  next
    case Dead
    with assms(1) show ?thesis by (simp add: hook_step_def)
  qed (use step_copy_stdout [OF step] step_mark_served [OF step] step_purge_end [OF step] step_purge_list [OF step]
      step_purge_names [OF step] step_purge_dir [OF step] step_prepare [OF step] step_prepare_start [OF step]
      step_prepare_stdout [OF step] step_run_cached [OF step] step_run_plain [OF step] step_write_end [OF step] in blast)+
qed

lemma hook_inv_run: "hook_inv env h \<Longrightarrow> reliable env sched h \<Longrightarrow> hook_inv env (hook_run env sched h)"
  by (induction env sched h rule: hook_run.induct) (simp_all add: hook_inv_step)

section \<open>Paths of keys\<close>

lemma path_elems_join_with: "path_elems (join_with ''/'' (d # es)) = concat (map path_elems (d # es))"
  by (induction es arbitrary: d) (simp_all add: path_elems_append)

lemma no_dotdot_join_with: "no_dotdot (join_with ''/'' (d # es)) \<longleftrightarrow> (\<forall>e \<in> set (d # es). no_dotdot e)"
  by (induction es arbitrary: d) (auto simp: split_on_split)

definition hex_char :: "char \<Rightarrow> bool" where
  "hex_char c = (digit_val c \<noteq> None \<or> c \<in> set ''abcdef'')"

lemma hex_lower_char:
  assumes "n < 16"
  shows "hex_char (hex_lower n)"
proof (cases "n < 10")
  case True
  then show ?thesis by (simp add: hex_char_def hex_lower_def digit_val_def of_char_of Let_def)
next
  case False
  with assms have "n = 10 \<or> n = 11 \<or> n = 12 \<or> n = 13 \<or> n = 14 \<or> n = 15" by arith
  moreover have "char_of (97 :: nat) = CHR ''a''" "char_of (98 :: nat) = CHR ''b''" "char_of (99 :: nat) = CHR ''c''"
    "char_of (100 :: nat) = CHR ''d''" "char_of (101 :: nat) = CHR ''e''" "char_of (102 :: nat) = CHR ''f''"
    by code_simp+
  ultimately show ?thesis by (auto simp: hex_char_def hex_lower_def)
qed

lemma hex_encode_chars: "list_all hex_char (hex_encode bs) \<and> length (hex_encode bs) = 2 * length bs"
  by (induction bs) (simp_all add: hex_encode_def Let_def hex_lower_char less_mult_imp_div_less)

lemma hex_elem:
  assumes "list_all hex_char e" and "e \<noteq> []"
  shows "path_elems e = [e]" and "no_dotdot e"
proof -
  have "CHR ''/'' \<notin> set e" and dot: "CHR ''.'' \<notin> set e"
    using assms(1) by (auto simp: list_all_iff hex_char_def digit_val_def Let_def)
  moreover have "e \<noteq> ''.''" and "e \<noteq> ''..''" using dot by auto
  ultimately show "path_elems e = [e]" and "no_dotdot e"
    using assms(2) by (simp_all add: path_elems_def split_on_no_sep)
qed

lemma cache_path_elems:
  assumes "has_prefix dir ''/''" and "no_dotdot dir" and "length b = 32" and "key = hex_encode b"
    and "f \<in> {''start'', ''stdout'', ''end'', ''served''}"
  shows "path_elems (cache_path dir key [f]) = path_elems dir @ [take 2 key, drop 2 key, f]"
proof -
  have key: "list_all hex_char key" "length key = 64"
    using hex_encode_chars [of b] assms(3,4) by auto
  have "list_all hex_char (take 2 key)" "list_all hex_char (drop 2 key)"
    using key(1) by (metis append_take_drop_id list_all_append)+
  with key(2) have parts: "path_elems (take 2 key) = [take 2 key]" "no_dotdot (take 2 key)"
      "path_elems (drop 2 key) = [drop 2 key]" "no_dotdot (drop 2 key)"
    by (simp_all add: hex_elem flip: length_greater_0_conv)
  have f: "path_elems f = [f]" "no_dotdot f" using assms(5) by (auto simp: path_elems_def)
  have "dir \<noteq> []" using assms(1) by (auto simp: has_prefix_def)
  moreover have "has_prefix (join_with ''/'' (dir # [take 2 key, drop 2 key, f])) ''/''"
    using assms(1) by (cases dir) (auto simp: has_prefix_def)
  ultimately show ?thesis
    using path_elems_path_clean no_dotdot_join_with [of dir "[take 2 key, drop 2 key, f]"]
      path_elems_join_with [of dir "[take 2 key, drop 2 key, f]"] parts f assms(2)
    by (simp add: cache_path_def path_join_def)
qed

section \<open>After a writer was killed\<close>

text \<open>The start file is there, the end file is not, and nobody holds the lock.\<close>

definition abandoned :: "hook \<Rightarrow> bool" where
  "abandoned h \<longleftrightarrow> h_entry h FStart \<noteq> None \<and> h_entry h FEnd = None \<and> (\<forall>p. \<not> holds (pc_of h p))"

lemma abandoned_step:
  assumes "hook_inv env h" and "abandoned h" and "no_fault_at (pc_of h p) \<longrightarrow> ch \<noteq> Fault"
  shows "abandoned (hook_step env ch p h)"
proof -
  have ok: "proc_ok env h p" using assms(1) by (simp add: hook_inv_def)
  have start: "h_entry h FStart \<noteq> None" "h_entry h FEnd = None" "\<not> holds (pc_of h p)"
    using assms(2) by (auto simp: abandoned_def)
  have names: "fs = []" if "pc_of h p = PurgeNames fs a" for fs a
    using ok start(3) that by (auto simp: proc_ok_def)
  have "h_entry (hook_step env ch p h) = h_entry h \<and> \<not> holds (pc_of (hook_step env ch p h) p)"
  proof (cases "ch = Kill")
    case True
    with start show ?thesis by (simp add: hook_step_def goto_def)
  next
    case False
    with ok start assms(3) names show ?thesis
      by (cases "pc_of h p")
        (simp_all add: step_facts file_exists_def can_create_def no_fault_at_def after_purge_pc_def split: list.split)
  qed
  moreover have "h_proc (hook_step env ch p h) q = h_proc h q" if "q \<noteq> p" for q
    using that ok start names
    by (cases "pc_of h p")
      (simp_all add: step_facts file_exists_def can_create_def after_purge_pc_def split: list.split)
  ultimately show ?thesis
    using assms(2) unfolding abandoned_def by metis
qed

lemma abandoned_run:
  "hook_inv env h \<Longrightarrow> abandoned h \<Longrightarrow> reliable env sched h \<Longrightarrow> abandoned (hook_run env sched h)"
  by (induction env sched h rule: hook_run.induct) (simp_all add: hook_inv_step abandoned_step)

section \<open>A process that runs alone\<close>

abbreviation alone :: "hook_env \<Rightarrow> nat \<Rightarrow> nat \<Rightarrow> hook \<Rightarrow> hook" where
  "alone env n p h \<equiv> hook_run env (replicate n (p, Go 0)) h"

lemma alone_add: "alone env (m + n) p h = alone env n p (alone env m p h)"
  by (induction m arbitrary: h) simp_all

text \<open>From a state to another in some number of steps of one process.\<close>

definition reaches :: "hook_env \<Rightarrow> nat \<Rightarrow> hook \<Rightarrow> hook \<Rightarrow> bool" where
  "reaches env p h h' \<longleftrightarrow> (\<exists>n. alone env n p h = h')"

lemma reaches_refl [simp]: "reaches env p h h"
  unfolding reaches_def by (rule exI [of _ 0]) simp

lemma reaches_trans: "reaches env p h h1 \<Longrightarrow> reaches env p h1 h2 \<Longrightarrow> reaches env p h h2"
  unfolding reaches_def by (metis alone_add)

lemma reaches_step: "reaches env p (hook_step env (Go 0) p h) h' \<Longrightarrow> reaches env p h h'"
  unfolding reaches_def by (metis replicate_Suc hook_run.simps(2))

text \<open>The command prints its chunks, into the cache as well.\<close>

definition ran :: "hook \<Rightarrow> nat \<Rightarrow> bytes \<Rightarrow> hook \<Rightarrow> bool" where
  "ran h p b h' \<longleftrightarrow> p_out (h_proc h' p) = p_out (h_proc h p) @ b \<and> p_fd (h_proc h' p) = p_fd (h_proc h p) \<and>
    h_content h' (p_fd (h_proc h p)) = h_content h (p_fd (h_proc h p)) @ b \<and>
    h_entry h' = h_entry h \<and> h_dir h' = h_dir h \<and> h_next h' = h_next h \<and>
    (\<forall>q. q \<noteq> p \<longrightarrow> h_proc h' q = h_proc h q)"

lemma ran_trans: "ran h p a h1 \<Longrightarrow> ran h1 p b h2 \<Longrightarrow> ran h p (a @ b) h2"
  unfolding ran_def by simp

lemma reaches_run_cached:
  assumes "pc_of h p = RunCached bs"
  shows "\<exists>h'. reaches env p h h' \<and> pc_of h' p = RunCached [] \<and> ran h p (concat bs) h'"
  using assms
proof (induction bs arbitrary: h)
  case (Cons b bs)
  let ?h = "hook_step env (Go 0) p h"
  have step: "pc_of ?h p = RunCached bs" "ran h p b ?h"
    using Cons.prems by (simp_all add: hook_step_def hook_ops ran_def)
  from Cons.IH [OF step(1)] obtain h' where "reaches env p ?h h'" "pc_of h' p = RunCached []" "ran ?h p (concat bs) h'"
    by blast
  with ran_trans [OF step(2)] show ?case
    by (intro exI [of _ h']) (auto intro: reaches_step)
next
  case Nil
  then show ?case by (intro exI [of _ h]) (simp add: ran_def)
qed

text \<open>Serving reads the file to its end.\<close>

lemma reaches_copy:
  assumes "pc_of h p = CopyStdout off" and "length (h_content h (p_fd (h_proc h p))) - off = n"
  shows "\<exists>h'. reaches env p h h' \<and> pc_of h' p = MarkServed \<and> p_code (h_proc h' p) = p_code (h_proc h p) \<and>
    p_out (h_proc h' p) = p_out (h_proc h p) @ drop off (h_content h (p_fd (h_proc h p)))"
  using assms
proof (induction n arbitrary: h off)
  case 0
  then show ?case
    by (intro exI [of _ "hook_step env (Go 0) p h"]) (auto intro: reaches_step simp: hook_step_def hook_ops)
next
  case (Suc n)
  let ?h = "hook_step env (Go 0) p h" and ?c = "h_content h (p_fd (h_proc h p))"
  have more: "off < length ?c" using Suc.prems(2) by simp
  then have d: "drop off ?c = ?c ! off # drop (Suc off) ?c" by (simp add: Cons_nth_drop_Suc)
  then have "pc_of ?h p = CopyStdout (Suc off)" "h_content ?h = h_content h" "p_fd (h_proc ?h p) = p_fd (h_proc h p)"
      "p_out (h_proc ?h p) = p_out (h_proc h p) @ [?c ! off]" "p_code (h_proc ?h p) = p_code (h_proc h p)"
    using Suc.prems(1) by (simp_all add: hook_step_def hook_ops Let_def)
  with Suc.IH [of ?h "Suc off"] Suc.prems(2) d show ?case by (fastforce intro: reaches_step)
qed

text \<open>A process that is new, in a state with the cache empty or complete.\<close>

definition fresh :: "hook \<Rightarrow> nat \<Rightarrow> bool" where
  "fresh h p \<longleftrightarrow> h_proc h p = new_proc"

lemma new_proc_simps [simp]: "p_pc new_proc = CheckEnd" "p_out new_proc = []" "p_code new_proc = 0" "p_fd new_proc = 0"
  by (simp_all add: new_proc_def)

lemma reaches_writing:
  assumes "fresh h p" and "h_entry h = (\<lambda>_. None)" and "e_cacheable env"
  shows "\<exists>h'. reaches env p h h' \<and> pc_of h' p = RunCached [] \<and> p_out (h_proc h' p) = full_output env p \<and>
    h_content h' (p_fd (h_proc h' p)) = full_output env p \<and> h_dir h' \<and>
    h_entry h' = (\<lambda>_. None)(FStart \<mapsto> h_next h, FStdout \<mapsto> p_fd (h_proc h' p)) \<and>
    p_fd (h_proc h' p) < h_next h' \<and> (\<forall>q. q \<noteq> p \<longrightarrow> h_proc h' q = h_proc h q)"
proof -
  let ?h = "alone env 5 p h"
  have step: "pc_of ?h p = RunCached (e_chunks env p)" "p_out (h_proc ?h p) = []" "h_dir ?h"
      "h_content ?h (p_fd (h_proc ?h p)) = []" "\<forall>q. q \<noteq> p \<longrightarrow> h_proc ?h q = h_proc h q"
      "h_entry ?h = (\<lambda>_. None)(FStart \<mapsto> h_next h, FStdout \<mapsto> p_fd (h_proc ?h p))"
      "p_fd (h_proc ?h p) < h_next ?h"
    using assms by (simp_all add: numeral_eq_Suc hook_step_def hook_ops fresh_def file_exists_def can_create_def)
  obtain h' where h': "reaches env p ?h h'" "pc_of h' p = RunCached []" "ran ?h p (concat (e_chunks env p)) h'"
    using reaches_run_cached [OF step(1)] by blast
  have "reaches env p h ?h" unfolding reaches_def by blast
  with h'(1) have "reaches env p h h'" by (rule reaches_trans [rotated])
  with h'(2,3) step(2-7) show ?thesis
    unfolding ran_def full_output_def by (intro exI [of _ h']) auto
qed

text \<open>The end of a run: the cache is completed, or the directory goes.\<close>

lemma reaches_stored:
  assumes "fresh h p" and "h_entry h = (\<lambda>_. None)" and "e_cacheable env" and "e_code env p = 0"
  shows "\<exists>h' i. reaches env p h h' \<and> pc_of h' p = Exited \<and> p_code (h_proc h' p) = 0 \<and>
    p_out (h_proc h' p) = full_output env p \<and> h_entry h' FEnd \<noteq> None \<and> h_entry h' FStdout = Some i \<and>
    h_content h' i = full_output env p \<and> (\<forall>q. q \<noteq> p \<longrightarrow> h_proc h' q = h_proc h q)"
proof -
  obtain h1 where h1: "reaches env p h h1" "pc_of h1 p = RunCached []" "p_out (h_proc h1 p) = full_output env p"
      "h_content h1 (p_fd (h_proc h1 p)) = full_output env p" "h_dir h1"
      "h_entry h1 = (\<lambda>_. None)(FStart \<mapsto> h_next h, FStdout \<mapsto> p_fd (h_proc h1 p))"
      "p_fd (h_proc h1 p) < h_next h1" "\<forall>q. q \<noteq> p \<longrightarrow> h_proc h1 q = h_proc h q"
    using reaches_writing [OF assms(1-3)] by blast
  let ?h = "alone env 2 p h1"
  have "pc_of ?h p = Exited \<and> p_code (h_proc ?h p) = 0 \<and> p_out (h_proc ?h p) = full_output env p \<and>
    h_entry ?h FEnd \<noteq> None \<and> h_entry ?h FStdout = Some (p_fd (h_proc h1 p)) \<and>
    h_content ?h (p_fd (h_proc h1 p)) = full_output env p \<and>
    (\<forall>q. q \<noteq> p \<longrightarrow> h_proc ?h q = h_proc h q)"
    using h1(2-8) assms(4) by (simp add: numeral_eq_Suc hook_step_def hook_ops)
  moreover have "reaches env p h1 ?h" unfolding reaches_def by blast
  with h1(1) have "reaches env p h ?h" by (rule reaches_trans)
  ultimately show ?thesis by blast
qed

lemma reaches_purged:
  assumes "fresh h p" and "h_entry h = (\<lambda>_. None)" and "e_cacheable env" and "e_code env p \<noteq> 0"
  shows "\<exists>h'. reaches env p h h' \<and> pc_of h' p = Exited \<and> p_code (h_proc h' p) = e_code env p \<and>
    p_out (h_proc h' p) = full_output env p \<and> h_entry h' = (\<lambda>_. None) \<and> \<not> h_dir h'"
proof -
  obtain h1 where h1: "reaches env p h h1" "pc_of h1 p = RunCached []" "p_out (h_proc h1 p) = full_output env p"
      "h_dir h1" "h_entry h1 = (\<lambda>_. None)(FStart \<mapsto> h_next h, FStdout \<mapsto> p_fd (h_proc h1 p))"
    using reaches_writing [OF assms(1-3)] by blast
  let ?h = "alone env 7 p h1"
  have "pc_of ?h p = Exited \<and> p_code (h_proc ?h p) = e_code env p \<and> p_out (h_proc ?h p) = full_output env p \<and>
    h_entry ?h = (\<lambda>_. None) \<and> \<not> h_dir ?h"
    using h1(2-5) assms(4)
    by (simp add: numeral_eq_Suc hook_step_def hook_ops entries_def after_purge_pc_def fun_eq_iff)
  moreover have "reaches env p h1 ?h" unfolding reaches_def by blast
  with h1(1) have "reaches env p h ?h" by (rule reaches_trans)
  ultimately show ?thesis by blast
qed

lemma reaches_served:
  assumes "fresh h q" and "h_entry h FEnd \<noteq> None" and "h_entry h FStdout = Some i"
  shows "\<exists>h'. reaches env q h h' \<and> pc_of h' q = Exited \<and> p_code (h_proc h' q) = 0 \<and>
    p_out (h_proc h' q) = h_content h i"
proof -
  let ?h = "alone env 2 q h"
  have open_ok: "pc_of ?h q = CopyStdout 0" "p_fd (h_proc ?h q) = i" "h_content ?h = h_content h"
      "p_code (h_proc ?h q) = 0" "p_out (h_proc ?h q) = []"
    using assms by (simp_all add: numeral_eq_Suc hook_step_def hook_ops fresh_def file_exists_def)
  obtain h1 where h1: "reaches env q ?h h1" "pc_of h1 q = MarkServed" "p_code (h_proc h1 q) = 0"
      "p_out (h_proc h1 q) = h_content h i"
    using reaches_copy [OF open_ok(1) refl, of env] open_ok(2-5) by auto
  let ?k = "hook_step env (Go 0) q h1"
  have "pc_of ?k q = Exited \<and> p_code (h_proc ?k q) = 0 \<and> p_out (h_proc ?k q) = h_content h i"
    using h1(2-4) by (simp add: hook_step_def hook_ops split: option.split)
  moreover have "reaches env q h ?h" unfolding reaches_def by blast
  from reaches_trans [OF this] h1(1) have "reaches env q h ?k"
    using reaches_step [OF reaches_refl] reaches_trans by blast
  ultimately show ?thesis by blast
qed

section \<open>Properties\<close>

text \<open>Three processes with the same command, for witnesses.\<close>

definition demo_hook :: hook_env where
  "demo_hook = \<lparr>e_chunks = (\<lambda>_. [''PA'', ''CK'']), e_code = (\<lambda>_. 0), e_cacheable = True, e_line = ''now''\<rparr>"

text \<open>Only the processes that take steps matter.\<close>

lemma hook_step_env: "c p = e_code env p \<Longrightarrow> hook_step (env\<lparr>e_code := c\<rparr>) ch p h = hook_step env ch p h"
  by (cases "p_pc (h_proc h p)") (simp_all add: hook_step_def cong: if_cong split del: if_split split: list.split)

lemma hook_run_env:
  "\<forall>p \<in> fst ` set sched. c p = e_code env p \<Longrightarrow>
     hook_run (env\<lparr>e_code := c\<rparr>) sched h = hook_run env sched h \<and> reliable (env\<lparr>e_code := c\<rparr>) sched h = reliable env sched h"
proof (induction sched arbitrary: h)
  case (Cons s sched)
  then show ?case using hook_step_env [of c "fst s" env] by (cases s) simp
qed simp

text \<open>
  C4: no truncated output. Suppose that looking for the end file, opening the cached output
  and removing it never fail; all other operations may, commands may fail, any process may be
  killed at any point, and the steps of any number of processes for one key may interleave in
  any way. Then a process that exits with 0 has printed the whole output of a command that
  succeeded, run by a process that took part: its own or one that filled the cache.
\<close>

theorem hook_output_complete:
  assumes "reliable env sched empty_cache"
    and "pc_of (hook_run env sched empty_cache) p = Exited"
    and "p_code (h_proc (hook_run env sched empty_cache) p) = 0"
  shows "\<exists>q \<in> fst ` set sched. p_out (h_proc (hook_run env sched empty_cache) p) = concat (e_chunks env q) \<and> e_code env q = 0"
proof -
  define c where "c q = (if q \<in> fst ` set sched then e_code env q else 1)" for q
  let ?env = "env\<lparr>e_code := c\<rparr>"
  have same: "hook_run ?env sched empty_cache = hook_run env sched empty_cache"
    "reliable ?env sched empty_cache = reliable env sched empty_cache"
    using hook_run_env [of sched c env empty_cache] by (simp_all add: c_def)
  then have "proc_ok ?env (hook_run env sched empty_cache) p"
    using hook_inv_run [OF hook_inv_start, of ?env sched] assms(1) by (simp add: hook_inv_def)
  with assms(2,3) have "complete ?env (p_out (h_proc (hook_run env sched empty_cache) p))"
    by (simp add: proc_ok_def Let_def)
  then show ?thesis by (auto simp: complete_def full_output_def c_def split: if_splits)
qed

text \<open>Process 1 is served what process 0 has stored.\<close>

theorem hook_output_complete_witness:
  "\<exists>q \<in> {0, 1}. p_out (h_proc (hook_run demo_hook (replicate 9 (0, Go 5) @ replicate 5 (1, Go 5)) empty_cache) 1) =
     concat (e_chunks demo_hook q) \<and> e_code demo_hook q = 0"
proof -
  let ?sched = "replicate 9 (0, Go 5) @ replicate 5 (1, Go 5)"
  have "reliable demo_hook ?sched empty_cache" and "pc_of (hook_run demo_hook ?sched empty_cache) 1 = Exited"
    and "p_code (h_proc (hook_run demo_hook ?sched empty_cache) 1) = 0"
    by (simp_all add: numeral_eq_Suc demo_hook_def empty_cache_def hook_step_def hook_ops no_fault_at_def file_exists_def
      can_create_def Let_def new_proc_def)
  note ran = hook_output_complete [OF this]
  have parts: "fst ` set ?sched = {0, 1}" by auto
  show ?thesis using ran unfolding parts .
qed

text \<open>
  C11: the file system is a lock. If looking for the end file, opening the cached output and
  removing it never fail, then under all interleavings, kills and other faults at most one
  process holds the lock of a key and writes its cache, and while it does the cache is not
  offered to others. (Without this two processes can be writing: see \<open>purge_race\<close>.)
\<close>

theorem hook_one_writer:
  assumes "reliable env sched empty_cache"
    and "pc_of (hook_run env sched empty_cache) p = RunCached bs"
  shows "h_entry (hook_run env sched empty_cache) FEnd = None \<and>
    (\<forall>q. q \<noteq> p \<longrightarrow> \<not> holds (pc_of (hook_run env sched empty_cache) q))"
proof -
  have "lock_ok (hook_run env sched empty_cache)"
    using hook_inv_run [OF hook_inv_start assms(1)] by (simp add: hook_inv_def)
  moreover have "holds (pc_of (hook_run env sched empty_cache) p)" using assms(2) by simp
  ultimately show ?thesis unfolding lock_ok_def by blast
qed

theorem hook_one_writer_witness:
  "h_entry (hook_run demo_hook (replicate 5 (0, Go 0) @ replicate 3 (1, Go 0)) empty_cache) FEnd = None \<and>
   \<not> holds (pc_of (hook_run demo_hook (replicate 5 (0, Go 0) @ replicate 3 (1, Go 0)) empty_cache) 1)"
proof -
  let ?sched = "replicate 5 (0, Go 0) @ replicate 3 (1, Go 0)"
  have "reliable demo_hook ?sched empty_cache"
    and "pc_of (hook_run demo_hook ?sched empty_cache) 0 = RunCached [''PA'', ''CK'']"
    by (simp_all add: numeral_eq_Suc demo_hook_def empty_cache_def hook_step_def hook_ops no_fault_at_def file_exists_def
      can_create_def Let_def new_proc_def)
  from hook_one_writer [OF this] show ?thesis by simp
qed

text \<open>
  C12: the cache works: a process that runs alone on an empty cache terminates with the
  output and status of its command, and the next process with the same key terminates with
  the same output without running its own command.
\<close>

theorem hook_stores_and_serves:
  assumes "h_entry h = (\<lambda>_. None)" and "fresh h p" and "fresh h q" and "q \<noteq> p"
    and "e_cacheable env" and "e_code env p = 0"
  shows "\<exists>n m h1 h2. hook_run env (replicate n (p, Go 0)) h = h1 \<and> hook_run env (replicate m (q, Go 0)) h1 = h2 \<and>
    pc_of h1 p = Exited \<and> p_out (h_proc h1 p) = concat (e_chunks env p) \<and> p_code (h_proc h1 p) = 0 \<and>
    pc_of h2 q = Exited \<and> p_out (h_proc h2 q) = concat (e_chunks env p) \<and> p_code (h_proc h2 q) = 0"
proof -
  obtain h1 i where h1: "reaches env p h h1" "pc_of h1 p = Exited" "p_code (h_proc h1 p) = 0"
      "p_out (h_proc h1 p) = full_output env p" "h_entry h1 FEnd \<noteq> None" "h_entry h1 FStdout = Some i"
      "h_content h1 i = full_output env p" "h_proc h1 q = h_proc h q"
    using reaches_stored [OF assms(2,1,5,6)] assms(4) by blast
  have "fresh h1 q" using assms(3) h1(8) by (simp add: fresh_def)
  from reaches_served [OF this h1(5,6)] h1(7) obtain h2 where h2: "reaches env q h1 h2" "pc_of h2 q = Exited"
      "p_code (h_proc h2 q) = 0" "p_out (h_proc h2 q) = full_output env p" by metis
  from h1 h2 show ?thesis unfolding reaches_def full_output_def by blast
qed

theorem hook_stores_and_serves_witness:
  "\<exists>n m. p_out (h_proc (hook_run demo_hook (replicate m (1, Go 0)) (hook_run demo_hook (replicate n (0, Go 0)) empty_cache)) 1)
     = ''PACK''"
  using hook_stores_and_serves [of empty_cache 0 1 demo_hook]
  by (auto simp: empty_cache_def fresh_def demo_hook_def)

text \<open>
  A command that fails leaves no cache: its process terminates with the command's
  status, every file is gone and so is the directory.
\<close>

theorem hook_failure_leaves_nothing:
  assumes "h_entry h = (\<lambda>_. None)" and "fresh h p" and "e_cacheable env" and "e_code env p \<noteq> 0"
  shows "\<exists>n h'. hook_run env (replicate n (p, Go 0)) h = h' \<and> pc_of h' p = Exited \<and>
    p_code (h_proc h' p) = e_code env p \<and> p_out (h_proc h' p) = concat (e_chunks env p) \<and>
    h_entry h' = (\<lambda>_. None) \<and> \<not> h_dir h'"
  using reaches_purged [OF assms(2,1,3,4)] unfolding reaches_def full_output_def by blast

theorem hook_failure_leaves_nothing_witness:
  "\<exists>n. h_entry (hook_run (demo_hook\<lparr>e_code := (\<lambda>_. 128)\<rparr>) (replicate n (0, Go 0)) empty_cache) = (\<lambda>_. None)"
  using hook_failure_leaves_nothing [of empty_cache 0 "demo_hook\<lparr>e_code := (\<lambda>_. 128)\<rparr>"]
  by (auto simp: empty_cache_def fresh_def demo_hook_def)

text \<open>
  A writer that is killed blocks its key for ever: nothing removes its start file, so
  no later process, under any interleaving, completes the cache.
\<close>

theorem hook_killed_writer_blocks_key:
  assumes "reliable env sched empty_cache" and "hook_run env sched empty_cache = h"
    and "pc_of h p = RunCached bs" and "reliable env sched' (hook_step env Kill p h)"
  shows "h_entry (hook_run env sched' (hook_step env Kill p h)) FEnd = None \<and>
    (\<forall>q. \<not> holds (pc_of (hook_run env sched' (hook_step env Kill p h)) q))"
proof -
  have inv: "hook_inv env h" using hook_inv_run [OF hook_inv_start assms(1)] assms(2) by simp
  have holds: "holds (pc_of h p)" using assms(3) by simp
  have free: "\<not> holds (pc_of h q)" if "q \<noteq> p" for q
    using inv holds that by (auto simp: hook_inv_def lock_ok_def)
  have "\<not> holds (pc_of (hook_step env Kill p h) q)" for q
    using free [of q] assms(3) by (simp add: hook_step_def goto_def)
  then have "abandoned (hook_step env Kill p h)"
    using hook_inv_parts(4,5) [OF inv holds] assms(3) by (simp add: abandoned_def hook_step_def goto_def)
  from abandoned_run [OF step_kill [OF inv] this assms(4)] show ?thesis by (simp add: abandoned_def)
qed

theorem hook_killed_writer_blocks_key_witness:
  "h_entry (hook_run demo_hook (replicate 20 (1, Go 0)) (hook_step demo_hook Kill 0
     (hook_run demo_hook (replicate 6 (0, Go 0)) empty_cache))) FEnd = None"
  by (rule hook_killed_writer_blocks_key [where bs = "[''CK'']" and sched = "replicate 6 (0, Go 0)", THEN conjunct1])
    (simp_all add: numeral_eq_Suc demo_hook_def empty_cache_def hook_step_def hook_ops no_fault_at_def file_exists_def
      can_create_def Let_def new_proc_def)

text \<open>
  The files of different keys are different files: the directory is made of the key.
\<close>

theorem cache_path_separate:
  assumes "has_prefix dir ''/''" and "no_dotdot dir" and "length b1 = 32" and "length b2 = 32"
    and "hex_encode b1 \<noteq> hex_encode b2"
    and "f \<in> {''start'', ''stdout'', ''end'', ''served''}" and "g \<in> {''start'', ''stdout'', ''end'', ''served''}"
  shows "cache_path dir (hex_encode b1) [f] \<noteq> cache_path dir (hex_encode b2) [g]"
proof
  assume "cache_path dir (hex_encode b1) [f] = cache_path dir (hex_encode b2) [g]"
  then have "take 2 (hex_encode b1) = take 2 (hex_encode b2) \<and> drop 2 (hex_encode b1) = drop 2 (hex_encode b2)"
    using cache_path_elems [OF assms(1,2,3) refl assms(6)] cache_path_elems [OF assms(1,2,4) refl assms(7)] by simp
  with assms(5) show False by (metis append_take_drop_id)
qed

text \<open>
  The key does not tell apart all commands: the arguments are joined by single blanks.
\<close>

theorem key_input_joins_arguments:
  "key_input [''git'', ''pack-objects''] stdin = key_input [''git pack-objects''] stdin"
  by (simp add: key_input_def)

text \<open>
  Without the proviso of \<open>hook_output_complete\<close> a truncated pack can be served: two
  processes that both fail to open the output of a complete cache (processes 1 and 2) both
  purge it. Process 1 starts to fill it again, process 2 removes its lock, process 3 starts
  to fill it, process 1 writes the end file, and process 4 serves what process 3 has
  written so far, with exit code 0.
\<close>

definition purge_race :: "(nat \<times> choice) list" where
  "purge_race = replicate 9 (0, Go 0) @ [(1, Go 0), (2, Go 0), (1, Fault), (2, Fault)] @ replicate 11 (1, Go 0) @
     replicate 4 (2, Go 0) @ replicate 5 (3, Go 0) @ [(3, Go 0)] @ replicate 3 (1, Go 0) @ replicate 6 (4, Go 5)"

theorem hook_purge_race:
  "let h = hook_run demo_hook purge_race empty_cache
   in pc_of h 4 = Exited \<and> p_code (h_proc h 4) = 0 \<and> p_out (h_proc h 4) = ''PA'' \<and>
      (\<forall>q. p_out (h_proc h 4) \<noteq> concat (e_chunks demo_hook q))"
proof -
  have "let h = hook_run demo_hook purge_race empty_cache
    in pc_of h 4 = Exited \<and> p_code (h_proc h 4) = 0 \<and> p_out (h_proc h 4) = ''PA''" by code_simp
  moreover have "concat (e_chunks demo_hook q) = ''PACK''" for q by (simp add: demo_hook_def)
  ultimately show ?thesis by (simp add: Let_def)
qed

end
