(* ===== verification/Protocol.thy ===== *)
theory Protocol
  imports Prelude
begin

text \<open>
  The Git protocol v2 requests: the chunks the scanner of \<open>gitprotocolio\<close> yields,
  \<open>parseAllCommands\<close> (\<open>http_proxy_server.go\<close>), the copies of chunks (\<open>io.go\<close>) and the
  parsers of fetch wants and ls-refs responses (\<open>git_protocol_v2_handler.go\<close>).

  A chunk's argument is a slice. The scanner reuses its buffer from one \<open>Scan\<close> to the
  next, so the parser works over an explicit store: the type parameter of a chunk is
  \<open>addr\<close> where the argument is a slice of the store and \<open>bytes\<close> where it is the
  bytes themselves.
\<close>

section \<open>Chunks, the store and the scanner\<close>

text \<open>
  The fields of \<open>ProtocolV2RequestChunk\<close> and \<open>ProtocolV2ResponseChunk\<close> that the
  sources read; the others, which are only encoded, are the last field. \<open>None\<close> is a
  nil slice.
\<close>

record 'a req_chunk =
  rc_command :: string
  rc_argument :: "'a option"
  rc_end_request :: bool
  rc_other :: string

record 'a resp_chunk =
  rs_response :: "'a option"
  rs_other :: string

type_synonym addr = nat

record store =
  heap :: "addr \<Rightarrow> bytes"
  next_addr :: addr

text \<open>The chunks of a reference advertisement, as the sources build them.\<close>

datatype info_chunk = ProtocolVersion nat | Capabilities "string list" | EndOfRequest

text \<open>
  A body is the bytes that can be read and the error the reading ends with. What the
  library does: how a body scans, the packet encodings, and the \<open>%v\<close> form of a request
  chunk that an error message holds.
\<close>

type_synonym body = "bytes \<times> go_error option"

record wire_lib =
  scan_request :: "body \<Rightarrow> bytes req_chunk list \<times> go_error option"
  encode_info :: "info_chunk \<Rightarrow> bytes"
  encode_req :: "bytes req_chunk \<Rightarrow> bytes"
  encode_resp :: "bytes resp_chunk \<Rightarrow> bytes"
  encode_error :: "string \<Rightarrow> bytes"
  show_req :: "bytes req_chunk \<Rightarrow> string"

definition alloc :: "store \<Rightarrow> bytes \<Rightarrow> addr \<times> store" where
  "alloc h b = (next_addr h, h\<lparr>heap := (heap h)(next_addr h := b), next_addr := Suc (next_addr h)\<rparr>)"

definition load_req :: "store \<Rightarrow> addr req_chunk \<Rightarrow> bytes req_chunk" where
  "load_req h c = \<lparr>rc_command = rc_command c, rc_argument = map_option (heap h) (rc_argument c),
     rc_end_request = rc_end_request c, rc_other = rc_other c\<rparr>"

definition load_resp :: "store \<Rightarrow> addr resp_chunk \<Rightarrow> bytes resp_chunk" where
  "load_resp h c = \<lparr>rs_response = map_option (heap h) (rs_response c), rs_other = rs_other c\<rparr>"

text \<open>\<open>copyRequestChunk\<close> and \<open>copyResponseChunk\<close>: a new slice where there is one.\<close>

definition copy_request_chunk :: "store \<Rightarrow> addr req_chunk \<Rightarrow> addr req_chunk \<times> store" where
  "copy_request_chunk h c =
     (case rc_argument c of
        None \<Rightarrow> (c, h)
      | Some a \<Rightarrow> let (b, h') = alloc h (heap h a) in (c\<lparr>rc_argument := Some b\<rparr>, h'))"

definition copy_response_chunk :: "store \<Rightarrow> addr resp_chunk \<Rightarrow> addr resp_chunk \<times> store" where
  "copy_response_chunk h c =
     (case rs_response c of
        None \<Rightarrow> (c, h)
      | Some a \<Rightarrow> let (b, h') = alloc h (heap h a) in (c\<lparr>rs_response := Some b\<rparr>, h'))"

text \<open>
  The scanner over a request body: the chunks it will still yield, the error it ends
  with (\<open>None\<close>: end of the input), whether it has ended, and its buffer. Which
  chunks a body gives is the library's business, so the chunks are an input here.
\<close>

record scanner =
  sc_pending :: "bytes req_chunk list"
  sc_final :: "go_error option"
  sc_done :: bool
  sc_buf :: addr

text \<open>\<open>Scan\<close> followed by \<open>Chunk\<close>: the next chunk, its argument in the buffer.\<close>

definition scan_chunk :: "scanner \<Rightarrow> store \<Rightarrow> addr req_chunk option \<times> scanner \<times> store" where
  "scan_chunk sc h =
     (case sc_pending sc of
        [] \<Rightarrow> (None, sc\<lparr>sc_done := True\<rparr>, h)
      | v # vs \<Rightarrow>
          (Some \<lparr>rc_command = rc_command v, rc_argument = map_option (\<lambda>_. sc_buf sc) (rc_argument v),
             rc_end_request = rc_end_request v, rc_other = rc_other v\<rparr>,
           sc\<lparr>sc_pending := vs\<rparr>,
           (case rc_argument v of None \<Rightarrow> h | Some b \<Rightarrow> h\<lparr>heap := (heap h)(sc_buf sc := b)\<rparr>)))"

definition scan_err :: "scanner \<Rightarrow> go_error option" where
  "scan_err sc = (if sc_done sc then sc_final sc else None)"

section \<open>parseAllCommands\<close>

text \<open>The inner loop: copy chunks until the end of the request or of the input.\<close>

function read_command :: "scanner \<Rightarrow> store \<Rightarrow> addr req_chunk list \<times> scanner \<times> store" where
  "read_command sc h =
     (case scan_chunk sc h of
        (None, sc', h') \<Rightarrow> ([], sc', h')
      | (Some p, sc', h') \<Rightarrow>
          let (c, h'') = copy_request_chunk h' p in
          if rc_end_request c then ([], sc', h'')
          else let (cs, sc2, h2) = read_command sc' h'' in (c # cs, sc2, h2))"
  by pat_completeness auto
termination
  by (relation "measure (\<lambda>(sc, h). length (sc_pending sc))")
    (auto simp: scan_chunk_def split: list.splits)

declare read_command.simps [simp del]

lemma read_command_pending:
  "read_command sc h = (cs, sc', h') \<Longrightarrow>
     length (sc_pending sc') + length cs \<le> length (sc_pending sc)"
proof (induction sc h arbitrary: cs sc' h' rule: read_command.induct)
  case (1 sc h)
  from 1 show ?case
    by (subst (asm) (2) read_command.simps)
      (fastforce simp: scan_chunk_def Let_def split: list.splits if_splits prod.splits)
qed

lemma read_command_decreases:
  "read_command sc h = (cs, sc', h') \<Longrightarrow> cs \<noteq> [] \<Longrightarrow> length (sc_pending sc') < length (sc_pending sc)"
  using read_command_pending [of sc h cs sc' h'] by (cases cs) auto

definition err_unrecognized :: "wire_lib \<Rightarrow> bytes req_chunk \<Rightarrow> go_error" where
  "err_unrecognized W c = StatusError InvalidArgument (''unrecognized command: '' @ show_req W c)"

definition err_cannot_parse :: "status_lib \<Rightarrow> go_error \<Rightarrow> go_error" where
  "err_cannot_parse L e = StatusError InvalidArgument (''cannot parse the request: '' @ error_text L e)"

definition known_command :: "string \<Rightarrow> bool" where
  "known_command s = (s = ''ls-refs'' \<or> s = ''fetch'')"

function parse_loop ::
  "wire_lib \<Rightarrow> addr req_chunk list list \<Rightarrow> scanner \<Rightarrow> store \<Rightarrow>
     go_error + (addr req_chunk list list \<times> scanner \<times> store)" where
  "parse_loop W commands sc h =
     (case read_command sc h of (chunks, sc', h') \<Rightarrow>
        if chunks = [] \<or> scan_err sc' \<noteq> None then Inr (commands, sc', h')
        else if \<not> known_command (rc_command (hd chunks)) then
          Inl (err_unrecognized W (load_req h' (hd chunks)))
        else parse_loop W (commands @ [chunks]) sc' h')"
  by pat_completeness auto
termination
  by (relation "measure (\<lambda>(W, commands, sc, h). length (sc_pending sc))")
    (auto dest: read_command_decreases [OF sym])

declare parse_loop.simps [simp del]

definition finish_parse ::
  "status_lib \<Rightarrow> go_error + (addr req_chunk list list \<times> scanner \<times> store) \<Rightarrow>
     go_error + bytes req_chunk list list" where
  "finish_parse L r =
     (case r of
        Inl e \<Rightarrow> Inl e
      | Inr (commands, sc', h') \<Rightarrow>
          (case scan_err sc' of
             Some e \<Rightarrow> Inl (err_cannot_parse L e)
           | None \<Rightarrow> Inr (map (map (load_req h')) commands)))"

definition parse_all_commands ::
  "status_lib \<Rightarrow> wire_lib \<Rightarrow> scanner \<Rightarrow> store \<Rightarrow> go_error + bytes req_chunk list list" where
  "parse_all_commands L W sc h = finish_parse L (parse_loop W [] sc h)"

section \<open>Copies of slices\<close>

text \<open>
  \<open>store_ext buf h h'\<close>: from \<open>h\<close> to \<open>h'\<close> slices were allocated and the buffer was
  overwritten, and nothing else changed.
\<close>

definition store_ext :: "addr \<Rightarrow> store \<Rightarrow> store \<Rightarrow> bool" where
  "store_ext buf h h' \<longleftrightarrow>
     next_addr h \<le> next_addr h' \<and> (\<forall>a < next_addr h. a \<noteq> buf \<longrightarrow> heap h' a = heap h a)"

lemma store_ext_refl [simp, intro]: "store_ext buf h h"
  by (simp add: store_ext_def)

lemma store_ext_trans: "store_ext buf h h' \<Longrightarrow> store_ext buf h' h'' \<Longrightarrow> store_ext buf h h''"
  unfolding store_ext_def by (metis order_less_le_trans order_trans)

lemma store_ext_next: "store_ext buf h h' \<Longrightarrow> next_addr h \<le> next_addr h'"
  by (simp add: store_ext_def)

lemma store_ext_overwrite [simp, intro]: "store_ext buf h (h\<lparr>heap := (heap h)(buf := b)\<rparr>)"
  by (simp add: store_ext_def)

text \<open>
  The contract of the two copy functions: the copy reads as the original did, its slice
  is new, and no old slice changes. A reader that keeps only copies is then safe from
  any later use of the scanner's buffer.
\<close>

locale slice_copy =
  fixes copy :: "store \<Rightarrow> 'c \<Rightarrow> 'c \<times> store"
    and load :: "store \<Rightarrow> 'c \<Rightarrow> 'v"
    and slice :: "'c \<Rightarrow> addr option"
  assumes load_local: "(\<And>a. slice c = Some a \<Longrightarrow> heap h a = heap h' a) \<Longrightarrow> load h c = load h' c"
    and copy_load: "copy h c = (c', h') \<Longrightarrow> load h' c' = load h c"
    and copy_slice: "copy h c = (c', h') \<Longrightarrow> slice c' = Some b \<Longrightarrow> next_addr h \<le> b \<and> b < next_addr h'"
    and copy_frame: "copy h c = (c', h') \<Longrightarrow>
      next_addr h \<le> next_addr h' \<and> (\<forall>a < next_addr h. heap h' a = heap h a)"
begin

lemma copy_ext: "copy h c = (c', h') \<Longrightarrow> store_ext buf h h'"
  using copy_frame by (auto simp: store_ext_def)

lemma copy_owned:
  assumes "copy h c = (c', h')" and "buf < next_addr h" and "slice c' = Some b"
  shows "b < next_addr h' \<and> b \<noteq> buf"
  using copy_slice [OF assms(1,3)] assms(2) by auto

lemma load_stable:
  assumes "store_ext buf h h'" and "\<And>b. slice c = Some b \<Longrightarrow> b < next_addr h \<and> b \<noteq> buf"
  shows "load h' c = load h c"
  using assms by (intro load_local) (auto simp: store_ext_def)

lemma copy_survives:
  assumes cp: "copy h c = (c', h')" and buf: "buf < next_addr h" and ext: "store_ext buf h' h''"
  shows "load h'' c' = load h c"
proof -
  have "load h'' c' = load h' c'"
    using ext copy_owned [OF cp buf] by (rule load_stable)
  with copy_load [OF cp] show ?thesis by simp
qed

end

interpretation req_copy: slice_copy copy_request_chunk load_req rc_argument
  by unfold_locales
    (auto simp: copy_request_chunk_def load_req_def alloc_def Let_def split: option.splits
      intro!: option.map_cong0)

interpretation resp_copy: slice_copy copy_response_chunk load_resp rs_response
  by unfold_locales
    (auto simp: copy_response_chunk_def load_resp_def alloc_def Let_def split: option.splits
      intro!: option.map_cong0)

section \<open>The parser against a specification on values\<close>

text \<open>
  The chunks up to the end of the request, then the rest: what one round of the parser
  reads, with no buffer and no store.
\<close>

abbreviation request_part :: "'a req_chunk list \<Rightarrow> 'a req_chunk list" where
  "request_part evs \<equiv> takeWhile (\<lambda>c. \<not> rc_end_request c) evs"

abbreviation request_rest :: "'a req_chunk list \<Rightarrow> 'a req_chunk list" where
  "request_rest evs \<equiv> dropWhile (\<lambda>c. \<not> rc_end_request c) evs"

function parse_values ::
  "status_lib \<Rightarrow> wire_lib \<Rightarrow> go_error option \<Rightarrow> bytes req_chunk list \<Rightarrow>
     go_error + bytes req_chunk list list" where
  "parse_values L W fin evs =
     (let chunks = request_part evs; rest = request_rest evs in
      if rest = [] \<and> (chunks = [] \<or> fin \<noteq> None) then
        (case fin of
           Some e \<Rightarrow> Inl (err_cannot_parse L e)
         | None \<Rightarrow> Inr [])
      else if chunks = [] then Inr []
      else if \<not> known_command (rc_command (hd chunks)) then
        Inl (err_unrecognized W (hd chunks))
      else (case parse_values L W fin (tl rest) of Inl e \<Rightarrow> Inl e | Inr cs \<Rightarrow> Inr (chunks # cs)))"
  by pat_completeness auto
termination
proof (relation "measure (\<lambda>(L, W, fin, evs). length evs)", goal_cases)
  case 1
  then show ?case by simp
next
  case (2 L W fin evs chunks rest)
  then have "evs \<noteq> []" by auto
  then have "0 < length evs" by simp
  with length_dropWhile_le [of "\<lambda>c. \<not> rc_end_request c" evs]
  have "length (tl (request_rest evs)) < length evs"
    by (simp only: length_tl)
  with 2 show ?case by simp
qed

declare parse_values.simps [simp del]

text \<open>A chunk whose argument, where it has one, is a slice of its own.\<close>

definition owned :: "addr \<Rightarrow> store \<Rightarrow> addr req_chunk \<Rightarrow> bool" where
  "owned buf h c \<longleftrightarrow> (\<forall>a. rc_argument c = Some a \<longrightarrow> a < next_addr h \<and> a \<noteq> buf)"

lemma owned_ext: "owned buf h c \<Longrightarrow> store_ext buf h h' \<Longrightarrow> owned buf h' c"
  unfolding owned_def store_ext_def by (metis order_less_le_trans)

lemma load_req_owned: "owned buf h c \<Longrightarrow> store_ext buf h h' \<Longrightarrow> load_req h' c = load_req h c"
  by (rule req_copy.load_stable) (auto simp: owned_def)

lemma load_req_fields [simp]:
  "rc_command (load_req h c) = rc_command c"
  "rc_end_request (load_req h c) = rc_end_request c"
  by (auto simp: load_req_def)

lemma scan_chunk_Some:
  assumes "scan_chunk sc h = (Some p, sc', h')"
  obtains v vs where "sc_pending sc = v # vs" and "sc' = sc\<lparr>sc_pending := vs\<rparr>"
    and "load_req h' p = v" and "store_ext (sc_buf sc) h h'"
    and "rc_end_request p = rc_end_request v"
  using assms
  by (cases "sc_pending sc") (fastforce simp: scan_chunk_def load_req_def split: option.splits)+

lemma scan_chunk_None:
  assumes "scan_chunk sc h = (None, sc', h')"
  shows "sc_pending sc = []" and "sc' = sc\<lparr>sc_done := True\<rparr>" and "h' = h"
  using assms by (auto simp: scan_chunk_def split: list.splits)

lemma copy_request_owned:
  assumes "copy_request_chunk h p = (c, h')" and "buf < next_addr h"
  shows "owned buf h' c" and "load_req h' c = load_req h p" and "store_ext buf h h'"
    and "rc_end_request c = rc_end_request p" and "rc_command c = rc_command p"
proof -
  show "owned buf h' c"
    using req_copy.copy_owned [OF assms] by (simp add: owned_def)
  show ld: "load_req h' c = load_req h p"
    by (rule req_copy.copy_load [OF assms(1)])
  show "store_ext buf h h'"
    by (rule req_copy.copy_ext [OF assms(1)])
  from ld show "rc_end_request c = rc_end_request p" and "rc_command c = rc_command p"
    by (metis load_req_fields)+
qed

text \<open>One round of the parser reads the request part, into slices of its own.\<close>

definition read_post :: "scanner \<Rightarrow> store \<Rightarrow> addr req_chunk list \<times> scanner \<times> store \<Rightarrow> bool" where
  "read_post sc h = (\<lambda>(cs, sc', h').
     map (load_req h') cs = request_part (sc_pending sc) \<and>
     list_all (owned (sc_buf sc) h') cs \<and> store_ext (sc_buf sc) h h' \<and>
     sc' = sc\<lparr>sc_pending := tl (request_rest (sc_pending sc)),
              sc_done := (sc_done sc \<or> request_rest (sc_pending sc) = [])\<rparr>)"

lemma read_command_correct: "sc_buf sc < next_addr h \<Longrightarrow> read_post sc h (read_command sc h)"
proof (induction sc h rule: read_command.induct)
  case (1 sc h)
  obtain q sc1 h1 where q: "scan_chunk sc h = (q, sc1, h1)"
    by (metis prod_cases3)
  show ?case
  proof (cases q)
    case None
    with q have "scan_chunk sc h = (None, sc1, h1)" by simp
    with scan_chunk_None [OF this] q None show ?thesis
      by (subst read_command.simps) (simp add: read_post_def)
  next
    case (Some p)
    obtain c h2 where c: "copy_request_chunk h1 p = (c, h2)" by fastforce
    obtain v vs where v: "sc_pending sc = v # vs" "sc1 = sc\<lparr>sc_pending := vs\<rparr>"
      "load_req h1 p = v" "store_ext (sc_buf sc) h h1" "rc_end_request p = rc_end_request v"
      using scan_chunk_Some q Some by metis
    from v(4) "1.prems" have buf1: "sc_buf sc < next_addr h1"
      by (auto dest: store_ext_next)
    note cp = copy_request_owned [OF c buf1]
    have ext: "store_ext (sc_buf sc) h h2"
      using v(4) cp(3) by (rule store_ext_trans)
    show ?thesis
    proof (cases "rc_end_request c")
      case True
      with q Some c v cp ext show ?thesis
        by (subst read_command.simps) (simp add: read_post_def)
    next
      case False
      obtain cs sc3 h3 where rec: "read_command sc1 h2 = (cs, sc3, h3)"
        by (metis prod_cases3)
      from buf1 cp(3) v(2) have buf2: "sc_buf sc1 < next_addr h2"
        by (auto dest: store_ext_next)
      from "1.IH" [OF q [symmetric] Some refl c [symmetric] refl False buf2]
      have post: "read_post sc1 h2 (cs, sc3, h3)"
        by (simp add: rec)
      from post v(2) have e3: "store_ext (sc_buf sc) h2 h3"
        by (simp add: read_post_def)
      have "load_req h3 c = v" and "owned (sc_buf sc) h3 c"
        using load_req_owned [OF cp(1) e3] owned_ext [OF cp(1) e3] cp(2) v(3) by simp_all
      moreover have "store_ext (sc_buf sc) h h3"
        using ext e3 by (rule store_ext_trans)
      moreover have "read_command sc h = (c # cs, sc3, h3)"
        by (subst read_command.simps) (simp add: q Some c False rec)
      moreover have "\<not> rc_end_request v"
        using False cp(4) v(5) by simp
      ultimately show ?thesis
        using post v(1,2) by (simp add: read_post_def)
    qed
  qed
qed

lemma load_owned_commands:
  assumes "list_all (list_all (owned buf h)) commands" and "store_ext buf h h'"
  shows "map (map (load_req h')) commands = map (map (load_req h)) commands"
    and "list_all (list_all (owned buf h')) commands"
  using assms by (auto simp: list_all_iff intro: load_req_owned owned_ext)

lemma parse_loop_correct:
  assumes "sc_buf sc < next_addr h" and "list_all (list_all (owned (sc_buf sc) h)) commands"
    and "sc_done sc \<Longrightarrow> sc_pending sc = [] \<and> sc_final sc = None"
  shows "finish_parse L (parse_loop W commands sc h) =
    (case parse_values L W (sc_final sc) (sc_pending sc) of
       Inl e \<Rightarrow> Inl e | Inr cs \<Rightarrow> Inr (map (map (load_req h)) commands @ cs))"
  using assms
proof (induction W commands sc h rule: parse_loop.induct)
  case (1 W commands sc h)
  let ?evs = "sc_pending sc" and ?fin = "sc_final sc"
  obtain chunks sc' h' where rd: "read_command sc h = (chunks, sc', h')"
    by (metis prod_cases3)
  with read_command_correct [OF "1.prems"(1)]
  have chunks: "map (load_req h') chunks = request_part ?evs"
    and own: "list_all (owned (sc_buf sc) h') chunks" and ext: "store_ext (sc_buf sc) h h'"
    and sc': "sc' = sc\<lparr>sc_pending := tl (request_rest ?evs),
                 sc_done := (sc_done sc \<or> request_rest ?evs = [])\<rparr>"
    by (simp_all add: read_post_def)
  have err: "scan_err sc' = (if request_rest ?evs = [] then ?fin else None)"
    using "1.prems"(3) by (auto simp: sc' scan_err_def)
  have nil: "chunks = [] \<longleftrightarrow> request_part ?evs = []"
    using chunks by (metis map_is_Nil_conv)
  note cmds = load_owned_commands [OF "1.prems"(2) ext]
  show ?case
  proof (cases "chunks = [] \<or> scan_err sc' \<noteq> None")
    case True
    then show ?thesis
      by (subst parse_loop.simps, subst parse_values.simps)
        (auto simp: rd finish_parse_def Let_def err nil cmds split: option.splits if_splits)
  next
    case go: False
    have hd_load: "load_req h' (hd chunks) = hd (request_part ?evs)"
      using go chunks by (metis list.map_sel(1))
    then have hd_cmd: "rc_command (hd chunks) = rc_command (hd (request_part ?evs))"
      by (metis load_req_fields(1))
    have live: "\<not> (request_rest ?evs = [] \<and> (request_part ?evs = [] \<or> ?fin \<noteq> None))"
      using go err nil by (auto split: if_splits)
    show ?thesis
    proof (cases "known_command (rc_command (hd chunks))")
      case False
      with go live show ?thesis
        by (subst parse_loop.simps, subst parse_values.simps)
          (auto simp: rd finish_parse_def Let_def nil hd_load hd_cmd)
    next
      case True
      have "finish_parse L (parse_loop W (commands @ [chunks]) sc' h') =
        (case parse_values L W (sc_final sc') (sc_pending sc') of
           Inl e \<Rightarrow> Inl e | Inr cs \<Rightarrow> Inr (map (map (load_req h')) (commands @ [chunks]) @ cs))"
      proof (rule "1.IH" [OF rd [symmetric] refl])
        show "\<not> (chunks = [] \<or> scan_err sc' \<noteq> None)" by (rule go)
        show "\<not> \<not> known_command (rc_command (hd chunks))" using True by simp
        show "sc_buf sc' < next_addr h'"
          using "1.prems"(1) store_ext_next [OF ext] by (simp add: sc')
        show "list_all (list_all (owned (sc_buf sc') h')) (commands @ [chunks])"
          using cmds(2) own by (simp add: sc')
        show "sc_done sc' \<Longrightarrow> sc_pending sc' = [] \<and> sc_final sc' = None"
          using "1.prems"(3) go err
          by (auto simp: sc' scan_err_def simp del: dropWhile_eq_Nil_conv split: if_splits)
      qed
      with go live True show ?thesis
        by (subst parse_loop.simps, subst parse_values.simps)
          (auto simp: rd Let_def nil hd_cmd sc' chunks cmds(1) split: sum.splits)
    qed
  qed
qed

lemma parse_all_values:
  assumes "sc_buf sc < next_addr h" and "\<not> sc_done sc"
  shows "parse_all_commands L W sc h = parse_values L W (sc_final sc) (sc_pending sc)"
  using parse_loop_correct [of sc h "[]" L W] assms
  by (simp add: parse_all_commands_def split: sum.splits)

text \<open>A request body that is a sequence of commands, each closed by a flush.\<close>

definition flush_chunk :: "'a req_chunk" where
  "flush_chunk = \<lparr>rc_command = [], rc_argument = None, rc_end_request = True, rc_other = []\<rparr>"

definition request_stream :: "'a req_chunk list list \<Rightarrow> 'a req_chunk list" where
  "request_stream cmds = concat (map (\<lambda>c. c @ [flush_chunk]) cmds)"

definition command_ok :: "'a req_chunk list \<Rightarrow> bool" where
  "command_ok c = (c \<noteq> [] \<and> known_command (rc_command (hd c)) \<and> list_all (\<lambda>x. \<not> rc_end_request x) c)"

lemma request_part_append_flush:
  "list_all (\<lambda>x. \<not> rc_end_request x) c \<Longrightarrow>
     request_part (c @ flush_chunk # r) = c \<and> request_rest (c @ flush_chunk # r) = flush_chunk # r"
  by (induction c) (auto simp: flush_chunk_def)

lemma request_stream_simps [simp]:
  "request_stream [] = []"
  "request_stream (c # cs) = c @ flush_chunk # request_stream cs"
  by (simp_all add: request_stream_def)

lemma parse_values_ok:
  assumes "command_ok c"
  shows "parse_values L W fin (c @ flush_chunk # r) =
    (case parse_values L W fin r of Inl e \<Rightarrow> Inl e | Inr cs \<Rightarrow> Inr (c # cs))"
  using assms request_part_append_flush [of c r]
  by (subst parse_values.simps) (auto simp: command_ok_def Let_def)

lemma parse_values_stream:
  "list_all command_ok cmds \<Longrightarrow>
     parse_values L W fin (request_stream cmds @ r) =
       (case parse_values L W fin r of Inl e \<Rightarrow> Inl e | Inr cs \<Rightarrow> Inr (cmds @ cs))"
  by (induction cmds) (auto simp: parse_values_ok split: sum.splits)

lemma parse_values_nil:
  "parse_values L W fin [] =
     (case fin of Some e \<Rightarrow> Inl (err_cannot_parse L e)
      | None \<Rightarrow> Inr [])"
  by (subst parse_values.simps) (simp split: option.splits)

lemma parse_values_commands:
  "parse_values L W fin evs = Inr cmds \<Longrightarrow> list_all command_ok cmds"
proof (induction L W fin evs arbitrary: cmds rule: parse_values.induct)
  case (1 L W fin evs)
  let ?c = "request_part evs"
  have plain: "list_all (\<lambda>x. \<not> rc_end_request x) ?c"
    by (auto simp: list_all_iff dest: set_takeWhileD)
  show ?case
  proof (cases "?c \<noteq> [] \<and> known_command (rc_command (hd ?c)) \<and> \<not> (request_rest evs = [] \<and> fin \<noteq> None)")
    case True
    with "1.prems" obtain cs where
      "parse_values L W fin (tl (request_rest evs)) = Inr cs" and "cmds = ?c # cs"
      by (subst (asm) parse_values.simps) (auto simp: Let_def split: sum.splits if_splits)
    with True "1.IH" [OF refl refl] plain show ?thesis
      by (auto simp: command_ok_def)
  next
    case False
    with "1.prems" show ?thesis
      by (subst (asm) parse_values.simps) (auto simp: Let_def split: option.splits if_splits)
  qed
qed

section \<open>Wants and references\<close>

text \<open>
  \<open>git.Oid\<close> is an array of bytes; \<open>git.NewOid\<close>, which parses one, is the argument
  \<open>new_oid\<close> (\<open>None\<close>: an error).
\<close>

datatype oid = Oid "8 word list"

definition err_components :: "code \<Rightarrow> string \<Rightarrow> nat \<Rightarrow> go_error" where
  "err_components c what n =
     StatusError c (''cannot parse the '' @ what @ '': got '' @ show_nat n @ '' component, want at least 2'')"

definition err_invalid_hash :: "code \<Rightarrow> string \<Rightarrow> go_error" where
  "err_invalid_hash c s =
     StatusError c (''cannot parse the upstream ls-refs response: got invalid hash '' @ s)"

text \<open>\<open>parseFetchWants\<close>: the loop over the chunks, with the hashes and references so far.\<close>

fun fetch_wants_loop ::
  "(string \<Rightarrow> oid option) \<Rightarrow> oid list \<Rightarrow> string list \<Rightarrow> bytes req_chunk list \<Rightarrow>
     go_error + (oid list \<times> string list)" where
  "fetch_wants_loop new_oid hashes refs [] = Inr (hashes, refs)"
| "fetch_wants_loop new_oid hashes refs (ch # chunks) =
     (case rc_argument ch of
        None \<Rightarrow> fetch_wants_loop new_oid hashes refs chunks
      | Some s \<Rightarrow>
          if has_prefix s ''want '' then
            let ss = split_on CHR '' '' s in
            if length ss < 2 then Inl (err_components InvalidArgument ''fetch request'' (length ss))
            else (case new_oid (trim_space (ss ! 1)) of
                    None \<Rightarrow> Inl (err_invalid_hash InvalidArgument (trim_space (ss ! 1)))
                  | Some hash \<Rightarrow> fetch_wants_loop new_oid (hashes @ [hash]) refs chunks)
          else if has_prefix s ''want-ref '' then
            let ss = split_on CHR '' '' s in
            if length ss < 2 then Inl (err_components InvalidArgument ''fetch request'' (length ss))
            else fetch_wants_loop new_oid hashes (refs @ [trim_space (ss ! 1)]) chunks
          else fetch_wants_loop new_oid hashes refs chunks)"

definition parse_fetch_wants ::
  "(string \<Rightarrow> oid option) \<Rightarrow> bytes req_chunk list \<Rightarrow> go_error + (oid list \<times> string list)" where
  "parse_fetch_wants new_oid chunks = fetch_wants_loop new_oid [] [] chunks"

text \<open>\<open>parseLsRefsResponse\<close>, with the map built so far.\<close>

fun ls_refs_loop ::
  "(string \<Rightarrow> oid option) \<Rightarrow> (string \<rightharpoonup> oid) \<Rightarrow> bytes resp_chunk list \<Rightarrow> go_error + (string \<rightharpoonup> oid)" where
  "ls_refs_loop new_oid m [] = Inr m"
| "ls_refs_loop new_oid m (ch # chunks) =
     (case rs_response ch of
        None \<Rightarrow> ls_refs_loop new_oid m chunks
      | Some s \<Rightarrow>
          let ss = split_on CHR '' '' s in
          if length ss < 2 then Inl (err_components Internal ''upstream ls-refs response'' (length ss))
          else (case new_oid (ss ! 0) of
                  None \<Rightarrow> Inl (err_invalid_hash Internal (ss ! 0))
                | Some hash \<Rightarrow> ls_refs_loop new_oid (m(trim_space (ss ! 1) \<mapsto> hash)) chunks))"

definition parse_ls_refs_response ::
  "(string \<Rightarrow> oid option) \<Rightarrow> bytes resp_chunk list \<Rightarrow> go_error + (string \<rightharpoonup> oid)" where
  "parse_ls_refs_response new_oid chunks = ls_refs_loop new_oid Map.empty chunks"

text \<open>\<open>generateV2RequestMetricTags\<close>.\<close>

definition metric_tags :: "(string \<Rightarrow> string) \<Rightarrow> string \<Rightarrow> 'a req_chunk list \<Rightarrow> string list" where
  "metric_tags ul upstream chunks =
     (let command = (case chunks of [] \<Rightarrow> ''unknown'' | c # _ \<Rightarrow> rc_command c) in
      [''repo:'' @ upstream,
       ''command:'' @ to_lower ul (map (\<lambda>c. if c = CHR '' '' then CHR ''_'' else c) command)])"

subsection \<open>The parsers on rendered requests\<close>

text \<open>The argument lines a Git client sends: wants by hash, by name, and others.\<close>

datatype fetch_arg = WantHash oid | WantRef string | OtherArg bytes | NoArg

fun render_arg :: "(oid \<Rightarrow> string) \<Rightarrow> fetch_arg \<Rightarrow> bytes option" where
  "render_arg oid_string (WantHash h) = Some (''want '' @ oid_string h @ newline)"
| "render_arg oid_string (WantRef r) = Some (''want-ref '' @ r @ newline)"
| "render_arg oid_string (OtherArg b) = Some b"
| "render_arg oid_string NoArg = None"

fun arg_ok :: "(string \<Rightarrow> oid option) \<Rightarrow> (oid \<Rightarrow> string) \<Rightarrow> fetch_arg \<Rightarrow> bool" where
  "arg_ok new_oid oid_string (WantHash h) =
     (graphic (oid_string h) \<and> new_oid (oid_string h) = Some h)"
| "arg_ok new_oid oid_string (WantRef r) = graphic r"
| "arg_ok new_oid oid_string (OtherArg b) = (\<not> has_prefix b ''want '' \<and> \<not> has_prefix b ''want-ref '')"
| "arg_ok new_oid oid_string NoArg = True"

definition wanted_hashes :: "fetch_arg list \<Rightarrow> oid list" where
  "wanted_hashes args = List.map_filter (\<lambda>a. case a of WantHash h \<Rightarrow> Some h | _ \<Rightarrow> None) args"

definition wanted_refs :: "fetch_arg list \<Rightarrow> string list" where
  "wanted_refs args = List.map_filter (\<lambda>a. case a of WantRef r \<Rightarrow> Some r | _ \<Rightarrow> None) args"

lemma wanted_simps [simp]:
  "wanted_hashes [] = []" "wanted_refs [] = []"
  "wanted_hashes (WantHash h # as) = h # wanted_hashes as"
  "wanted_hashes (WantRef r # as) = wanted_hashes as"
  "wanted_hashes (OtherArg b # as) = wanted_hashes as"
  "wanted_hashes (NoArg # as) = wanted_hashes as"
  "wanted_refs (WantHash h # as) = wanted_refs as"
  "wanted_refs (WantRef r # as) = r # wanted_refs as"
  "wanted_refs (OtherArg b # as) = wanted_refs as"
  "wanted_refs (NoArg # as) = wanted_refs as"
  by (simp_all add: wanted_hashes_def wanted_refs_def List.map_filter_def)

lemma split_word_line:
  assumes "CHR '' '' \<notin> set w" and "graphic s"
  shows "split_on CHR '' '' (w @ CHR '' '' # s @ newline) = [w, s @ newline]"
  using assms graphic_no_space [OF assms(2)]
  by (simp add: split_on_append split_on_no_sep)

lemma split_want_line:
  "graphic s \<Longrightarrow> split_on CHR '' '' (''want '' @ s @ newline) = [''want'', s @ newline]"
  "graphic s \<Longrightarrow> split_on CHR '' '' (''want-ref '' @ s @ newline) = [''want-ref'', s @ newline]"
  using split_word_line [of "''want''" s] split_word_line [of "''want-ref''" s] by simp_all

lemma want_prefixes [simp]:
  "has_prefix (''want '' @ s) ''want ''" "\<not> has_prefix (''want-ref '' @ s) ''want ''"
  "has_prefix (''want-ref '' @ s) ''want-ref ''"
  by (simp_all add: has_prefix_def)

lemma fetch_wants_loop_rendered:
  assumes "list_all (arg_ok new_oid oid_string) args"
    and "map rc_argument chunks = map (render_arg oid_string) args"
  shows "fetch_wants_loop new_oid hashes refs chunks =
    Inr (hashes @ wanted_hashes args, refs @ wanted_refs args)"
  using assms
proof (induction args arbitrary: chunks hashes refs)
  case Nil
  then show ?case by simp
next
  case (Cons a args)
  then obtain ch chs where ch: "chunks = ch # chs" "rc_argument ch = render_arg oid_string a"
    "map rc_argument chs = map (render_arg oid_string) args" by auto
  note IH = Cons.IH [OF _ ch(3)]
  show ?case
  proof (cases a)
    case (WantHash h)
    with Cons.prems ch IH show ?thesis
      by (simp add: split_want_line trim_space_line del: append.simps)
  next
    case (WantRef r)
    with Cons.prems ch IH show ?thesis
      by (simp add: split_want_line trim_space_line del: append.simps)
  next
    case (OtherArg b)
    with Cons.prems ch IH show ?thesis by simp
  next
    case NoArg
    with Cons.prems ch IH show ?thesis by simp
  qed
qed

text \<open>When the fetch parser fails: exactly on a want line whose hash does not parse.\<close>

definition bad_want :: "(string \<Rightarrow> oid option) \<Rightarrow> bytes req_chunk \<Rightarrow> bool" where
  "bad_want new_oid ch =
     (case rc_argument ch of
        None \<Rightarrow> False
      | Some s \<Rightarrow> has_prefix s ''want '' \<and> new_oid (trim_space (split_on CHR '' '' s ! 1)) = None)"

lemma want_components:
  "has_prefix s ''want '' \<or> has_prefix s ''want-ref '' \<Longrightarrow> 2 \<le> length (split_on CHR '' '' s)"
  by (rule split_on_two) (auto simp: has_prefix_iff)

lemma fetch_wants_loop_error:
  "(\<exists>e. fetch_wants_loop new_oid hashes refs chunks = Inl e) \<longleftrightarrow> list_ex (bad_want new_oid) chunks"
proof (induction chunks arbitrary: hashes refs)
  case Nil
  then show ?case by simp
next
  case (Cons ch chs)
  show ?case
  proof (cases "rc_argument ch")
    case None
    with Cons show ?thesis by (simp add: bad_want_def)
  next
    case (Some s)
    with Cons want_components [of s] show ?thesis
      by (auto simp: bad_want_def Let_def split: option.splits)
  qed
qed

text \<open>An ls-refs response: one line per reference, an object id, a space and the name.\<close>

definition render_ref :: "(oid \<Rightarrow> string) \<Rightarrow> string \<times> oid \<Rightarrow> bytes" where
  "render_ref oid_string rf = oid_string (snd rf) @ CHR '' '' # fst rf @ newline"

lemma ls_refs_loop_rendered:
  assumes "list_all (\<lambda>(r, h). graphic r \<and> graphic (oid_string h) \<and> new_oid (oid_string h) = Some h) rfs"
    and "map rs_response chunks = map (Some \<circ> render_ref oid_string) rfs"
  shows "ls_refs_loop new_oid m chunks = Inr (m ++ map_of (rev rfs))"
  using assms
proof (induction rfs arbitrary: chunks m)
  case Nil
  then show ?case by simp
next
  case (Cons rf rfs)
  then obtain ch chs where ch: "chunks = ch # chs" "rs_response ch = Some (render_ref oid_string rf)"
    "map rs_response chs = map (Some \<circ> render_ref oid_string) rfs" by auto
  obtain r h where rf: "rf = (r, h)" by force
  from Cons.prems(1) have ok: "graphic r" "graphic (oid_string h)" "new_oid (oid_string h) = Some h"
    by (simp_all add: rf)
  from ch Cons.IH [OF _ ch(3)] Cons.prems(1) split_word_line [OF graphic_no_space [OF ok(2)] ok(1)]
  show ?case
    by (simp add: rf render_ref_def ok trim_space_line map_add_upd_left map_of_append
        del: append.simps)
qed

section \<open>Concrete instances, for witnesses\<close>

definition plain_wire :: wire_lib where
  "plain_wire = \<lparr>scan_request = (\<lambda>(b, e). (if b = [] then [] else request_stream
       [[\<lparr>rc_command = b, rc_argument = None, rc_end_request = False, rc_other = []\<rparr>]], e)),
     encode_info = (\<lambda>_. ''I''), encode_req = (\<lambda>c. rc_command c), encode_resp = (\<lambda>c. rs_other c),
     encode_error = (\<lambda>m. ''ERR '' @ m), show_req = rc_command\<rparr>"

definition demo_oid_string :: "oid \<Rightarrow> string" where
  "demo_oid_string h = (if h = Oid [255] then ''ff'' else ''00'')"

definition demo_new_oid :: "string \<Rightarrow> oid option" where
  "demo_new_oid s = (if s = ''ff'' then Some (Oid [255]) else if s = ''00'' then Some (Oid [0]) else None)"

definition chunk_of :: "string \<Rightarrow> 'a option \<Rightarrow> 'a req_chunk" where
  "chunk_of cmd arg = \<lparr>rc_command = cmd, rc_argument = arg, rc_end_request = False, rc_other = []\<rparr>"

definition demo_fetch :: "bytes req_chunk list" where
  "demo_fetch = [chunk_of ''fetch'' None, chunk_of [] (Some (''want '' @ ''ff'' @ newline))]"

definition demo_store :: store where
  "demo_store = \<lparr>heap = (\<lambda>_. []), next_addr = 1\<rparr>"

definition demo_scanner :: "bytes req_chunk list \<Rightarrow> scanner" where
  "demo_scanner evs = \<lparr>sc_pending = evs, sc_final = None, sc_done = False, sc_buf = 0\<rparr>"

lemma demo_fetch_ok: "command_ok demo_fetch"
  by (simp add: command_ok_def demo_fetch_def chunk_of_def known_command_def)

lemmas demo_scan_simps = demo_scanner_def demo_store_def

section \<open>Properties\<close>

text \<open>
  C6: parsing a request body is right although the scanner reuses its buffer: whatever
  the chunks and the error the scanner ends with, \<open>parseAllCommands\<close>, which keeps copies
  made in the store, returns what the specification on plain values computes.
\<close>

theorem parse_all_refines:
  assumes "sc_buf sc < next_addr h" and "\<not> sc_done sc"
  shows "parse_all_commands L W sc h = parse_values L W (sc_final sc) (sc_pending sc)"
  using assms by (rule parse_all_values)

theorem parse_all_refines_witness:
  "parse_all_commands plain_status plain_wire (demo_scanner (request_stream [demo_fetch])) demo_store =
     parse_values plain_status plain_wire None (request_stream [demo_fetch])"
  using parse_all_refines [of "demo_scanner (request_stream [demo_fetch])" demo_store]
  by (simp add: demo_scan_simps)

text \<open>
  C7: round trip. A body that is a sequence of ls-refs and fetch commands, each closed by
  a flush packet, is parsed into exactly those commands, in order, with their arguments.
\<close>

theorem parse_all_roundtrip:
  assumes "sc_buf sc < next_addr h" and "\<not> sc_done sc" and "sc_final sc = None"
    and "list_all command_ok cmds" and "sc_pending sc = request_stream cmds"
  shows "parse_all_commands L W sc h = Inr cmds"
  using parse_all_values [OF assms(1,2)] parse_values_stream [OF assms(4), of L W None "[]"] assms(3,5)
  by (simp add: parse_values_nil)

theorem parse_all_roundtrip_witness:
  "parse_all_commands plain_status plain_wire (demo_scanner (request_stream [demo_fetch, demo_fetch]))
     demo_store = Inr [demo_fetch, demo_fetch]"
  using parse_all_roundtrip [of "demo_scanner (request_stream [demo_fetch, demo_fetch])" demo_store
      "[demo_fetch, demo_fetch]"] demo_fetch_ok
  by (simp add: demo_scan_simps)

text \<open>
  C40: every command the parser returns is not empty and begins with ls-refs or fetch, so
  the handler's \<open>command[0]\<close> is in range and its default case is not reached.
\<close>

theorem parse_all_commands_ok:
  assumes "sc_buf sc < next_addr h" and "\<not> sc_done sc"
    and "parse_all_commands L W sc h = Inr cmds" and "c \<in> set cmds"
  shows "c \<noteq> [] \<and> known_command (rc_command (hd c)) \<and> list_all (\<lambda>x. \<not> rc_end_request x) c"
  using parse_all_values [OF assms(1,2)] parse_values_commands assms(3,4)
  by (fastforce simp: command_ok_def list_all_iff)

theorem parse_all_commands_ok_witness:
  "demo_fetch \<noteq> [] \<and> known_command (rc_command (hd demo_fetch)) \<and>
     list_all (\<lambda>x. \<not> rc_end_request x) demo_fetch"
proof (rule parse_all_commands_ok)
  show "parse_all_commands plain_status plain_wire (demo_scanner (request_stream [demo_fetch])) demo_store
      = Inr [demo_fetch]"
    using parse_values_stream [of "[demo_fetch]" plain_status plain_wire None "[]"] demo_fetch_ok
    by (subst parse_all_values) (simp_all add: demo_scan_simps parse_values_nil)
qed (simp_all add: demo_scan_simps)

text \<open>
  C37: one unrecognized command anywhere in the body makes the whole request fail with
  InvalidArgument, also when the commands before it were valid.
\<close>

theorem parse_all_rejects_unknown:
  assumes "sc_buf sc < next_addr h" and "\<not> sc_done sc"
    and "list_all command_ok cmds" and "bad \<noteq> []" and "list_all (\<lambda>x. \<not> rc_end_request x) bad"
    and "\<not> known_command (rc_command (hd bad))"
    and "sc_pending sc = request_stream cmds @ bad @ flush_chunk # rest"
  shows "parse_all_commands L W sc h = Inl (err_unrecognized W (hd bad))"
proof -
  have "parse_values L W (sc_final sc) (bad @ flush_chunk # rest) = Inl (err_unrecognized W (hd bad))"
    using assms(4,6) request_part_append_flush [OF assms(5), of rest]
    by (subst parse_values.simps) (simp add: Let_def)
  with parse_values_stream [OF assms(3), of L W "sc_final sc"] show ?thesis
    by (simp add: parse_all_values [OF assms(1,2)] assms(7))
qed

theorem parse_all_rejects_unknown_witness:
  "parse_all_commands plain_status plain_wire
     (demo_scanner (request_stream [demo_fetch] @ [chunk_of ''push'' None] @ [flush_chunk])) demo_store =
   Inl (StatusError InvalidArgument ''unrecognized command: push'')"
  using parse_all_rejects_unknown
    [of "demo_scanner (request_stream [demo_fetch] @ [chunk_of ''push'' None] @ [flush_chunk])"
      demo_store "[demo_fetch]" "[chunk_of ''push'' None]" "[]" plain_status plain_wire] demo_fetch_ok
  by (simp add: demo_scan_simps chunk_of_def known_command_def err_unrecognized_def plain_wire_def)

text \<open>
  Round trip. From the argument lines of a fetch command the parser gets exactly the
  wanted object ids and the wanted reference names, each in the client's order.
\<close>

theorem fetch_wants_roundtrip:
  assumes "list_all (arg_ok new_oid oid_string) args"
    and "map rc_argument chunks = map (render_arg oid_string) args"
  shows "parse_fetch_wants new_oid chunks = Inr (wanted_hashes args, wanted_refs args)"
  using fetch_wants_loop_rendered [OF assms] by (simp add: parse_fetch_wants_def)

theorem fetch_wants_roundtrip_witness:
  "parse_fetch_wants demo_new_oid demo_fetch = Inr ([Oid [255]], [])"
  using fetch_wants_roundtrip [of demo_new_oid demo_oid_string "[NoArg, WantHash (Oid [255])]" demo_fetch]
  by (simp add: demo_fetch_def chunk_of_def demo_new_oid_def demo_oid_string_def)

text \<open>
  The fetch parser fails exactly when some want line holds a hash that does not parse;
  its check for too few components never fires.
\<close>

theorem fetch_wants_error:
  "(\<exists>e. parse_fetch_wants new_oid chunks = Inl e) \<longleftrightarrow>
     (\<exists>ch \<in> set chunks. bad_want new_oid ch)"
  using fetch_wants_loop_error [of new_oid "[]" "[]" chunks]
  by (simp add: parse_fetch_wants_def list_ex_iff)

text \<open>
  Round trip. Parsing the lines of an ls-refs response gives the map of the advertised
  references, the last line winning where a name occurs twice.
\<close>

theorem ls_refs_roundtrip:
  assumes "list_all (\<lambda>(r, h). graphic r \<and> graphic (oid_string h) \<and> new_oid (oid_string h) = Some h) rfs"
    and "map rs_response chunks = map (Some \<circ> render_ref oid_string) rfs"
  shows "parse_ls_refs_response new_oid chunks = Inr (map_of (rev rfs))"
  using ls_refs_loop_rendered [OF assms] by (simp add: parse_ls_refs_response_def)

theorem ls_refs_roundtrip_witness:
  "parse_ls_refs_response demo_new_oid
     [\<lparr>rs_response = Some (''ff'' @ '' refs/heads/main'' @ newline), rs_other = []\<rparr>] =
   Inr [''refs/heads/main'' \<mapsto> Oid [255]]"
  using ls_refs_roundtrip [of demo_oid_string demo_new_oid "[(''refs/heads/main'', Oid [255])]"
      "[\<lparr>rs_response = Some (''ff'' @ '' refs/heads/main'' @ newline), rs_other = []\<rparr>]"]
  by (simp add: demo_new_oid_def demo_oid_string_def render_ref_def)

end
