(* ===== verification/Reporting.thy ===== *)
theory Reporting
  imports Protocol
begin

text \<open>
  Responses, error reports and accounting: the code table of \<open>grpc.go\<close>, the packet writers of
  \<open>io.go\<close>, and the reporters and monitoring wrappers of \<open>reporting.go\<close>. The response
  writer of \<open>net/http\<close> is modelled by what it sends, over a connection that may stop
  accepting bytes.
\<close>

section \<open>HTTPStatusFromGrpcCode and http.StatusText\<close>

definition http_status_from_code :: "code \<Rightarrow> int" where
  "http_status_from_code c = (case c of
      OK \<Rightarrow> 200
    | Canceled \<Rightarrow> 408
    | Unknown \<Rightarrow> 500
    | InvalidArgument \<Rightarrow> 400
    | DeadlineExceeded \<Rightarrow> 504
    | NotFound \<Rightarrow> 404
    | AlreadyExists \<Rightarrow> 409
    | PermissionDenied \<Rightarrow> 403
    | Unauthenticated \<Rightarrow> 401
    | ResourceExhausted \<Rightarrow> 429
    | FailedPrecondition \<Rightarrow> 400
    | Aborted \<Rightarrow> 409
    | OutOfRange \<Rightarrow> 400
    | Unimplemented \<Rightarrow> 501
    | Internal \<Rightarrow> 500
    | Unavailable \<Rightarrow> 503
    | DataLoss \<Rightarrow> 500
    | OtherCode _ \<Rightarrow> 500)"

definition http_status_text :: "int \<Rightarrow> string" where
  "http_status_text n =
     (if n = 200 then ''OK'' else if n = 400 then ''Bad Request''
      else if n = 401 then ''Unauthorized'' else if n = 403 then ''Forbidden''
      else if n = 404 then ''Not Found'' else if n = 408 then ''Request Timeout''
      else if n = 409 then ''Conflict'' else if n = 429 then ''Too Many Requests''
      else if n = 500 then ''Internal Server Error'' else if n = 501 then ''Not Implemented''
      else if n = 503 then ''Service Unavailable'' else if n = 504 then ''Gateway Timeout'' else [])"

definition server_error_codes :: "code \<Rightarrow> bool" where
  "server_error_codes c \<longleftrightarrow> c \<in> {DataLoss, DeadlineExceeded, Internal, Unavailable, Unknown}"

section \<open>The response writer of net/http\<close>

text \<open>
  The headers set so far, the status line and the headers that were sent with it, the
  body, and how many more bytes the connection takes (\<open>None\<close>: any number).
\<close>

type_synonym headers = "(string \<times> string) list"

record resp_writer =
  rw_header :: headers
  rw_sent :: "(int \<times> headers) option"
  rw_body :: bytes
  rw_capacity :: "nat option"

definition err_client_gone :: go_error where
  "err_client_gone = PlainError ''write: broken pipe''"

definition header_add :: "string \<Rightarrow> string \<Rightarrow> resp_writer \<Rightarrow> resp_writer" where
  "header_add k v w = w\<lparr>rw_header := rw_header w @ [(k, v)]\<rparr>"

definition header_set :: "string \<Rightarrow> string \<Rightarrow> resp_writer \<Rightarrow> resp_writer" where
  "header_set k v w = w\<lparr>rw_header := filter (\<lambda>(k', _). k' \<noteq> k) (rw_header w) @ [(k, v)]\<rparr>"

definition rw_write_header :: "int \<Rightarrow> resp_writer \<Rightarrow> resp_writer" where
  "rw_write_header st w =
     (case rw_sent w of None \<Rightarrow> w\<lparr>rw_sent := Some (st, rw_header w)\<rparr> | Some _ \<Rightarrow> w)"

definition rw_write :: "bytes \<Rightarrow> resp_writer \<Rightarrow> nat \<times> go_error option \<times> resp_writer" where
  "rw_write bs w =
     (let w1 = rw_write_header 200 w in
      case rw_capacity w1 of
        None \<Rightarrow> (length bs, None, w1\<lparr>rw_body := rw_body w1 @ bs\<rparr>)
      | Some k \<Rightarrow>
          let sent = take k bs in
          (length sent, if length bs \<le> k then None else Some err_client_gone,
           w1\<lparr>rw_body := rw_body w1 @ sent, rw_capacity := Some (k - length sent)\<rparr>))"

section \<open>monitoringWriter and monitoringReader\<close>

record mon_writer =
  mw_status :: int
  mw_w :: resp_writer
  mw_flusher :: bool
  mw_bytes :: "64 word"

definition mon_flush :: "mon_writer \<Rightarrow> mon_writer" where
  "mon_flush w = (if mw_flusher w then w\<lparr>mw_w := rw_write_header 200 (mw_w w)\<rparr> else w)"

definition mon_write :: "bytes \<Rightarrow> mon_writer \<Rightarrow> nat \<times> go_error option \<times> mon_writer" where
  "mon_write bs w =
     (let w1 = (if mw_status w = 0 then w\<lparr>mw_status := 200\<rparr> else w);
          (n, err, inner) = rw_write bs (mw_w w1);
          w2 = w1\<lparr>mw_w := inner, mw_bytes := mw_bytes w1 + of_nat (length bs)\<rparr>
      in (n, err, mon_flush w2))"

definition mon_write_header :: "int \<Rightarrow> mon_writer \<Rightarrow> mon_writer" where
  "mon_write_header st w = w\<lparr>mw_status := st, mw_w := rw_write_header st (mw_w w)\<rparr>"

definition mon_header_add :: "string \<Rightarrow> string \<Rightarrow> mon_writer \<Rightarrow> mon_writer" where
  "mon_header_add k v w = w\<lparr>mw_w := header_add k v (mw_w w)\<rparr>"

definition mon_header_set :: "string \<Rightarrow> string \<Rightarrow> mon_writer \<Rightarrow> mon_writer" where
  "mon_header_set k v w = w\<lparr>mw_w := header_set k v (mw_w w)\<rparr>"

text \<open>
  The wrapped request body: any \<open>io.ReadCloser\<close> (the argument \<open>read\<close>: at most so many
  bytes, and an error), with the bytes read so far.
\<close>

record 'r mon_reader =
  mr_inner :: 'r
  mr_bytes :: "64 word"

definition mon_read ::
  "('r \<Rightarrow> nat \<Rightarrow> bytes \<times> go_error option \<times> 'r) \<Rightarrow> 'r mon_reader \<Rightarrow> nat \<Rightarrow>
     bytes \<times> go_error option \<times> 'r mon_reader" where
  "mon_read read r len =
     (let (bs, err, inner) = read (mr_inner r) len in
      (bs, err, r\<lparr>mr_inner := inner, mr_bytes := mr_bytes r + of_nat (length bs)\<rparr>))"

text \<open>\<open>monitoringReader.Close\<close> calls itself, not the wrapped reader; \<open>None\<close>: no return.\<close>

partial_function (option) mon_close :: "'r mon_reader \<Rightarrow> (go_error option \<times> 'r mon_reader) option" where
  "mon_close r = mon_close r"

text \<open>\<open>logHTTPRequest\<close>: the wrapped writer, and what the deferred closure logs.\<close>

definition monitor_writer :: "resp_writer \<Rightarrow> bool \<Rightarrow> mon_writer" where
  "monitor_writer w flusher = \<lparr>mw_status = 0, mw_w = w, mw_flusher = flusher, mw_bytes = 0\<rparr>"

definition monitor_reader :: "'r \<Rightarrow> 'r mon_reader" where
  "monitor_reader r = \<lparr>mr_inner = r, mr_bytes = 0\<rparr>"

definition log_closer ::
  "bool \<Rightarrow> 'r mon_reader \<Rightarrow> mon_writer \<Rightarrow> (int \<times> 64 word \<times> 64 word) option" where
  "log_closer has_logger r w =
     (if \<not> has_logger then None else Some (mw_status w, mr_bytes r, mw_bytes w))"

section \<open>Writing packets\<close>

text \<open>\<open>writePacket\<close> and \<open>writeResp\<close> for any \<open>io.Writer\<close>.\<close>

type_synonym 'w io_write = "bytes \<Rightarrow> 'w \<Rightarrow> nat \<times> go_error option \<times> 'w"

definition write_packet :: "'w io_write \<Rightarrow> bytes \<Rightarrow> 'w \<Rightarrow> go_error option \<times> 'w" where
  "write_packet wr pkt w = (case wr pkt w of (_, err, w') \<Rightarrow> (err, w'))"

fun write_resp ::
  "wire_lib \<Rightarrow> 'w io_write \<Rightarrow> bytes resp_chunk list \<Rightarrow> 'w \<Rightarrow> go_error option \<times> 'w" where
  "write_resp W wr [] w = (None, w)"
| "write_resp W wr (c # cs) w =
     (case write_packet wr (encode_resp W c) w of
        (Some e, w') \<Rightarrow> (Some e, w')
      | (None, w') \<Rightarrow> write_resp W wr cs w')"

definition write_error ::
  "status_lib \<Rightarrow> wire_lib \<Rightarrow> 'w io_write \<Rightarrow> go_error \<Rightarrow> 'w \<Rightarrow> go_error option \<times> 'w" where
  "write_error L W wr e w = write_packet wr (encode_error W (error_text L e)) w"

section \<open>The error reporters\<close>

text \<open>
  The tags of a request context, by \<open>CommandTypeKey\<close> and \<open>CommandCacheStateKey\<close>.
\<close>

record cmd_tags =
  tg_type :: "string option"
  tg_cache :: "string option"

text \<open>
  What a reporter can reach: the response writer, the inbound command count (the tags of
  the context it is recorded in, and the status code), the calls of
  \<open>config.ErrorReporter\<close> and the log lines.
\<close>

record sink =
  sk_w :: mon_writer
  sk_stats :: "(cmd_tags \<times> code) list"
  sk_reported :: "go_error option list"
  sk_logged :: "go_error option list"

text \<open>\<open>has_rep\<close>: whether the configuration has an \<open>ErrorReporter\<close>.\<close>

definition report_server_error :: "bool \<Rightarrow> code \<Rightarrow> go_error option \<Rightarrow> sink \<Rightarrow> sink" where
  "report_server_error has_rep c e s =
     (if \<not> server_error_codes c then s
      else if has_rep then s\<lparr>sk_reported := sk_reported s @ [e]\<rparr>
      else s\<lparr>sk_logged := sk_logged s @ [e]\<rparr>)"

text \<open>\<open>http.Error\<close>.\<close>

definition http_error :: "string \<Rightarrow> int \<Rightarrow> mon_writer \<Rightarrow> mon_writer" where
  "http_error msg st w =
     (let w1 = mon_header_set ''Content-Type'' ''text/plain; charset=utf-8'' w;
          w2 = mon_header_set ''X-Content-Type-Options'' ''nosniff'' w1;
          (_, _, w3) = mon_write (msg @ newline) (mon_write_header st w2)
      in w3)"

definition http_report_error ::
  "status_lib \<Rightarrow> bool \<Rightarrow> cmd_tags \<Rightarrow> go_error option \<Rightarrow> sink \<Rightarrow> sink" where
  "http_report_error L has_rep tags e s =
     (let (c, message) = status_or_internal L e;
          s1 = s\<lparr>sk_stats := sk_stats s @ [(tags, c)]\<rparr>;
          w1 = (if c = Unauthenticated
                then mon_header_add ''WWW-Authenticate'' ''Basic realm=goblet''
                       (mon_header_add ''WWW-Authenticate'' ''Bearer'' (sk_w s1))
                else sk_w s1);
          st = http_status_from_code c;
          message' = (if message = [] then http_status_text st else message)
      in report_server_error has_rep c e (s1\<lparr>sk_w := http_error message' st w1\<rparr>))"

definition git_report_error ::
  "status_lib \<Rightarrow> wire_lib \<Rightarrow> bool \<Rightarrow> cmd_tags \<Rightarrow> go_error option \<Rightarrow> sink \<Rightarrow> sink" where
  "git_report_error L W has_rep tags e s =
     (let (c, _) = status_or_internal L e;
          s1 = s\<lparr>sk_stats := sk_stats s @ [(tags, c)]\<rparr>;
          s2 = (case e of
                  None \<Rightarrow> s1
                | Some err \<Rightarrow> s1\<lparr>sk_w := snd (write_error L W mon_write err (sk_w s1))\<rparr>)
      in report_server_error has_rep c e s2)"

section \<open>The writer interface\<close>

text \<open>
  What the packet writers rely on: a write without an error appends all the bytes, one
  with an error appends some beginning of them.
\<close>

locale byte_writer =
  fixes wr :: "'w io_write" and content :: "'w \<Rightarrow> bytes"
  assumes write_ok: "wr bs w = (n, None, w') \<Longrightarrow> content w' = content w @ bs"
    and write_part: "wr bs w = (n, err, w') \<Longrightarrow> \<exists>k. content w' = content w @ take k bs"
begin

lemma write_packet_ok: "write_packet wr p w = (None, w') \<Longrightarrow> content w' = content w @ p"
  by (auto simp: write_packet_def dest: write_ok split: prod.splits)

lemma write_packet_prefix: "prefix (content w) (content (snd (write_packet wr p w)))"
proof -
  obtain n err w' where "wr p w = (n, err, w')" by (metis prod_cases3)
  with write_part show ?thesis by (fastforce simp: write_packet_def)
qed

lemma write_resp_ok:
  "write_resp W wr cs w = (None, w') \<Longrightarrow> content w' = content w @ concat (map (encode_resp W) cs)"
proof (induction cs arbitrary: w)
  case (Cons c cs)
  then obtain w1 where "write_packet wr (encode_resp W c) w = (None, w1)"
    and "write_resp W wr cs w1 = (None, w')"
    by (auto split: prod.splits option.splits)
  with Cons.IH write_packet_ok show ?case by fastforce
qed simp

lemma write_resp_prefix:
  "\<exists>k. content (snd (write_resp W wr cs w)) = content w @ take k (concat (map (encode_resp W) cs))"
proof (induction cs arbitrary: w)
  case (Cons c cs)
  obtain n err w1 where w1: "wr (encode_resp W c) w = (n, err, w1)" by (metis prod_cases3)
  show ?case
  proof (cases err)
    case None
    with w1 write_ok have "content w1 = content w @ encode_resp W c" by blast
    moreover obtain k where "content (snd (write_resp W wr cs w1)) =
        content w1 @ take k (concat (map (encode_resp W) cs))"
      using Cons.IH by blast
    ultimately show ?thesis
      using w1 None
      by (intro exI [of _ "length (encode_resp W c) + k"]) (simp add: write_packet_def)
  next
    case (Some e)
    from write_part [OF w1] obtain k where "content w1 = content w @ take k (encode_resp W c)" by blast
    with w1 Some show ?thesis
      by (intro exI [of _ "min k (length (encode_resp W c))"])
        (simp add: write_packet_def min_def split: prod.splits)
  qed
qed simp

end

abbreviation mon_body :: "mon_writer \<Rightarrow> bytes" where
  "mon_body w \<equiv> rw_body (mw_w w)"

abbreviation sink_body :: "sink \<Rightarrow> bytes" where
  "sink_body s \<equiv> mon_body (sk_w s)"

lemma rw_write_header_fields [simp]:
  "rw_body (rw_write_header st w) = rw_body w"
  "rw_header (rw_write_header st w) = rw_header w"
  "rw_capacity (rw_write_header st w) = rw_capacity w"
  by (simp_all add: rw_write_header_def split: option.splits)

lemma rw_write_header_sent:
  "rw_sent (rw_write_header st w) = (case rw_sent w of None \<Rightarrow> Some (st, rw_header w) | Some x \<Rightarrow> Some x)"
  by (simp add: rw_write_header_def split: option.splits)

lemma mon_flush_fields [simp]:
  "mon_body (mon_flush w) = mon_body w" "mw_status (mon_flush w) = mw_status w"
  "mw_bytes (mon_flush w) = mw_bytes w" "mw_flusher (mon_flush w) = mw_flusher w"
  "rw_capacity (mw_w (mon_flush w)) = rw_capacity (mw_w w)"
  by (simp_all add: mon_flush_def)

lemma mon_write_body:
  assumes "mon_write bs w = (n, err, w')"
  shows "mon_body w' = mon_body w @ take n bs" and "n \<le> length bs"
    and "err = None \<longleftrightarrow> n = length bs"
  using assms
  by (auto simp: mon_write_def rw_write_def Let_def split: option.splits prod.splits if_splits)

lemma mon_write_unlimited:
  assumes "rw_capacity (mw_w w) = None"
  shows "\<exists>w'. mon_write bs w = (length bs, None, w') \<and> rw_capacity (mw_w w') = None"
  using assms by (auto simp: mon_write_def rw_write_def Let_def)

interpretation mon_io: byte_writer mon_write "\<lambda>w. rw_body (mw_w w)"
proof unfold_locales
  fix bs w n err w'
  show "mon_write bs w = (n, None, w') \<Longrightarrow> mon_body w' = mon_body w @ bs"
    using mon_write_body [of bs w n None w'] by simp
  show "mon_write bs w = (n, err, w') \<Longrightarrow> \<exists>k. mon_body w' = mon_body w @ take k bs"
    using mon_write_body(1) by blast
qed

section \<open>The reporter interface\<close>

text \<open>
  \<open>gitProtocolErrorReporter\<close>, the interface the command handler is given: a report
  records one status code and only appends to the response; a report without an error
  writes nothing.
\<close>

locale status_reporter =
  fixes report :: "cmd_tags \<Rightarrow> go_error option \<Rightarrow> 's \<Rightarrow> 's"
    and stats :: "'s \<Rightarrow> (cmd_tags \<times> code) list"
    and body :: "'s \<Rightarrow> bytes"
    and code_of :: "go_error option \<Rightarrow> code"
  assumes report_stats: "stats (report tags e s) = stats s @ [(tags, code_of e)]"
    and report_appends: "prefix (body s) (body (report tags e s))"

locale git_reporter = status_reporter +
  assumes report_nil: "body (report tags None s) = body s"

lemma report_server_error_fields [simp]:
  "sk_w (report_server_error has_rep c e s) = sk_w s"
  "sk_stats (report_server_error has_rep c e s) = sk_stats s"
  by (simp_all add: report_server_error_def)

lemma report_server_error_calls:
  "sk_reported (report_server_error has_rep c e s) =
     sk_reported s @ (if server_error_codes c \<and> has_rep then [e] else [])"
  "sk_logged (report_server_error has_rep c e s) =
     sk_logged s @ (if server_error_codes c \<and> \<not> has_rep then [e] else [])"
  by (simp_all add: report_server_error_def)

lemma mon_header_fields [simp]:
  "mon_body (mon_header_add k v w) = mon_body w" "mon_body (mon_header_set k v w) = mon_body w"
  "mon_body (mon_write_header st w) = mon_body w"
  "rw_sent (mw_w (mon_header_add k v w)) = rw_sent (mw_w w)"
  "rw_sent (mw_w (mon_header_set k v w)) = rw_sent (mw_w w)"
  "rw_capacity (mw_w (mon_header_add k v w)) = rw_capacity (mw_w w)"
  "rw_capacity (mw_w (mon_header_set k v w)) = rw_capacity (mw_w w)"
  "rw_capacity (mw_w (mon_write_header st w)) = rw_capacity (mw_w w)"
  "mw_status (mon_write_header st w) = st"
  by (simp_all add: mon_header_add_def mon_header_set_def mon_write_header_def
      header_add_def header_set_def)

lemma http_error_prefix: "prefix (mon_body w) (mon_body (http_error msg st w))"
proof -
  let ?w = "mon_write_header st (mon_header_set ''X-Content-Type-Options'' ''nosniff''
     (mon_header_set ''Content-Type'' ''text/plain; charset=utf-8'' w))"
  obtain n err w' where w': "mon_write (msg @ newline) ?w = (n, err, w')" by (metis prod_cases3)
  then have "mon_body w' = mon_body w @ take n (msg @ newline)"
    using mon_write_body(1) by force
  with w' show ?thesis by (simp add: http_error_def Let_def)
qed

interpretation git_rep: git_reporter "git_report_error L W has_rep" sk_stats
    "\<lambda>s. rw_body (mw_w (sk_w s))" "\<lambda>e. fst (status_or_internal L e)" for L W has_rep
  by unfold_locales
    (auto simp: git_report_error_def write_error_def Let_def mon_io.write_packet_prefix
      split: prod.splits option.splits)

interpretation http_rep: status_reporter "http_report_error L has_rep" sk_stats
    "\<lambda>s. rw_body (mw_w (sk_w s))" "\<lambda>e. fst (status_or_internal L e)" for L has_rep
proof unfold_locales
  fix tags e s
  show "sk_stats (http_report_error L has_rep tags e s) = sk_stats s @ [(tags, fst (status_or_internal L e))]"
    by (simp add: http_report_error_def Let_def split: prod.splits)
  show "prefix (sink_body s) (sink_body (http_report_error L has_rep tags e s))"
    using http_error_prefix [of "sk_w s"] http_error_prefix [of "mon_header_add _ _ (mon_header_add _ _ (sk_w s))"]
    by (simp add: http_report_error_def Let_def split: prod.splits)
qed

lemma http_report_facts:
  assumes "status_or_internal L e = (c, m)" and "rw_sent (mw_w (sk_w s)) = None"
    and "rw_capacity (mw_w (sk_w s)) = None" and "sink_body s = []"
    and "s' = http_report_error L has_rep tags e s"
  shows "(\<exists>hs. rw_sent (mw_w (sk_w s')) = Some (http_status_from_code c, hs)) \<and>
    mw_status (sk_w s') = http_status_from_code c \<and>
    sink_body s' = (if m = [] then http_status_text (http_status_from_code c) else m) @ newline \<and>
    sk_stats s' = sk_stats s @ [(tags, c)] \<and>
    sk_reported s' = sk_reported s @ (if server_error_codes c \<and> has_rep then [e] else [])"
proof -
  have pos: "http_status_from_code c \<noteq> 0"
    by (cases c) (simp_all add: http_status_from_code_def)
  have err: "(\<exists>hs. rw_sent (mw_w (http_error msg st w)) = Some (st, hs)) \<and>
      mw_status (http_error msg st w) = st \<and> mon_body (http_error msg st w) = mon_body w @ msg @ newline"
    if "rw_sent (mw_w w) = None" and "rw_capacity (mw_w w) = None" and "st \<noteq> 0" for msg st w
    using that
    by (simp add: http_error_def mon_write_def mon_write_header_def rw_write_def rw_write_header_sent
        mon_flush_def mon_header_set_def header_set_def Let_def)
  show ?thesis
    unfolding assms(5) using assms(1-4) err [OF _ _ pos]
    by (simp add: http_report_error_def Let_def report_server_error_calls)
qed

section \<open>What the request log says\<close>

datatype mon_op = WriteHeaderOp int | WriteOp bytes

fun mon_run :: "mon_op list \<Rightarrow> mon_writer \<Rightarrow> mon_writer" where
  "mon_run [] w = w"
| "mon_run (WriteHeaderOp st # ops) w = mon_run ops (mon_write_header st w)"
| "mon_run (WriteOp bs # ops) w = mon_run ops (snd (snd (mon_write bs w)))"

text \<open>The status the monitor remembers is the one on the wire, if one was sent.\<close>

definition status_agrees :: "mon_writer \<Rightarrow> bool" where
  "status_agrees w =
     (case rw_sent (mw_w w) of None \<Rightarrow> mw_status w = 0 | Some (st, _) \<Rightarrow> mw_status w = st \<and> st \<noteq> 0)"

lemma mon_write_agrees: "status_agrees w \<Longrightarrow> status_agrees (snd (snd (mon_write bs w)))"
  by (auto simp: status_agrees_def mon_write_def rw_write_def rw_write_header_def mon_flush_def Let_def
      split: option.splits)

lemma mon_write_header_agrees:
  "rw_sent (mw_w w) = None \<Longrightarrow> st \<noteq> 0 \<Longrightarrow> status_agrees (mon_write_header st w)"
  by (simp add: status_agrees_def mon_write_header_def rw_write_header_def)

lemma mon_run_writes_agree: "status_agrees w \<Longrightarrow> status_agrees (mon_run (map WriteOp bss) w)"
  by (induction bss arbitrary: w) (auto simp: mon_write_agrees)

lemma mon_write_counts: "mw_bytes (snd (snd (mon_write bs w))) = mw_bytes w + of_nat (length bs)"
  by (simp add: mon_write_def Let_def split: prod.splits)

lemma mon_run_body:
  assumes "rw_capacity (mw_w w) = None"
  shows "mw_bytes (mon_run ops w) + of_nat (length (mon_body w)) =
    mw_bytes w + of_nat (length (mon_body (mon_run ops w)))"
  using assms
proof (induction ops w rule: mon_run.induct)
  case (2 st ops w)
  then show ?case by (simp add: mon_write_header_def)
next
  case (3 bs ops w)
  then obtain w' where w': "mon_write bs w = (length bs, None, w')" "rw_capacity (mw_w w') = None"
    using mon_write_unlimited by blast
  with 3 mon_write_counts [of bs w] mon_io.write_ok [OF w'(1)] show ?case
    by (simp add: algebra_simps)
qed simp

section \<open>Properties\<close>

text \<open>
  The HTTP status of every gRPC code. Only OK gives 200 and everything else an error
  status; the codes reported as server errors give a 5xx, and every other 5xx is
  Unimplemented or a code the table does not know, which is then not reported.
\<close>

theorem http_status_classes:
  "(http_status_from_code c = 200 \<longleftrightarrow> c = OK) \<and>
   (c \<noteq> OK \<longrightarrow> 400 \<le> http_status_from_code c \<and> http_status_from_code c \<le> 504) \<and>
   (500 \<le> http_status_from_code c \<longleftrightarrow>
      server_error_codes c \<or> c = Unimplemented \<or> (\<exists>n. c = OtherCode n))"
  by (cases c) (simp_all add: http_status_from_code_def server_error_codes_def)

theorem http_status_classes_witness:
  "400 \<le> http_status_from_code NotFound \<and> http_status_from_code NotFound \<le> 504"
  using http_status_classes [of NotFound] by simp

text \<open>
  An error reported before anything was sent reaches the client as the mapped status
  line with the message as body, is counted once under its code, and is handed to the
  configured \<open>ErrorReporter\<close> exactly when the code is a server error.
\<close>

theorem http_report_fresh:
  assumes "status_or_internal L e = (c, m)" and "rw_sent (mw_w (sk_w s)) = None"
    and "rw_capacity (mw_w (sk_w s)) = None" and "sink_body s = []"
    and "s' = http_report_error L has_rep tags e s"
  shows "(\<exists>hs. rw_sent (mw_w (sk_w s')) = Some (http_status_from_code c, hs)) \<and>
    mw_status (sk_w s') = http_status_from_code c \<and>
    sink_body s' = (if m = [] then http_status_text (http_status_from_code c) else m) @ newline \<and>
    sk_stats s' = sk_stats s @ [(tags, c)] \<and>
    sk_reported s' = sk_reported s @ (if server_error_codes c \<and> has_rep then [e] else [])"
  by (rule http_report_facts [OF assms])

definition no_tags :: cmd_tags where
  "no_tags = \<lparr>tg_type = None, tg_cache = None\<rparr>"

definition fresh_sink :: "nat option \<Rightarrow> sink" where
  "fresh_sink cap = \<lparr>sk_w = monitor_writer \<lparr>rw_header = [], rw_sent = None, rw_body = [], rw_capacity = cap\<rparr> True,
     sk_stats = [], sk_reported = [], sk_logged = []\<rparr>"

lemma fresh_sink_simps [simp]:
  "rw_sent (mw_w (sk_w (fresh_sink cap))) = None" "rw_capacity (mw_w (sk_w (fresh_sink cap))) = cap"
  "sink_body (fresh_sink cap) = []" "sk_stats (fresh_sink cap) = []" "sk_reported (fresh_sink cap) = []"
  by (simp_all add: fresh_sink_def monitor_writer_def)

theorem http_report_fresh_witness:
  "mw_status (sk_w (http_report_error plain_status True no_tags
     (Some (StatusError PermissionDenied ''access denied'')) (fresh_sink None))) = 403"
  using http_report_fresh [of plain_status "Some (StatusError PermissionDenied ''access denied'')"
      PermissionDenied "''access denied''" "fresh_sink None" _ True no_tags]
    status_or_internal_simps(2) [OF plain_status_law]
  by (simp add: http_status_from_code_def)

text \<open>
  A report by the git reporter records one code; without an error it leaves the
  response alone, with one it appends exactly one error packet with the error's text when
  the connection still takes bytes, and only a beginning of it otherwise.
\<close>

theorem git_report_effect:
  assumes "s' = git_report_error L W has_rep tags e s"
  shows "sk_stats s' = sk_stats s @ [(tags, fst (status_or_internal L e))] \<and>
    (e = None \<longrightarrow> sk_w s' = sk_w s) \<and>
    (\<forall>err. e = Some err \<longrightarrow>
       (\<exists>k. sink_body s' = sink_body s @ take k (encode_error W (error_text L err))) \<and>
       (rw_capacity (mw_w (sk_w s)) = None \<longrightarrow>
          sink_body s' = sink_body s @ encode_error W (error_text L err)))"
proof (cases e)
  case None
  then show ?thesis
    using assms by (simp add: git_report_error_def Let_def split: prod.splits)
next
  case (Some err)
  obtain n er w' where w': "mon_write (encode_error W (error_text L err)) (sk_w s) = (n, er, w')"
    by (metis prod_cases3)
  with Some assms have "sk_w s' = w'" and "sk_stats s' = sk_stats s @ [(tags, fst (status_or_internal L e))]"
    by (simp_all add: git_report_error_def write_error_def write_packet_def Let_def split: prod.splits)
  with Some w' mon_io.write_part [OF w'] mon_write_unlimited [of "sk_w s" "encode_error W (error_text L err)"]
  show ?thesis
    by (auto dest: mon_io.write_ok)
qed

theorem git_report_effect_witness:
  "sink_body (git_report_error plain_status plain_wire True no_tags (Some (PlainError ''boom'')) (fresh_sink None))
     = ''ERR boom''"
  using git_report_effect [OF refl, of plain_status plain_wire True no_tags "Some (PlainError ''boom'')" "fresh_sink None"]
  by (simp add: plain_wire_def error_text_def)

text \<open>
  The request log is right about the status: when the status line comes first, as the
  handlers send it, the status the monitor logs is the one that went over the wire.
\<close>

theorem logged_status_is_sent:
  assumes "rw_sent w = None" and "st \<noteq> Some 0"
  shows "status_agrees (mon_run ((case st of None \<Rightarrow> [] | Some n \<Rightarrow> [WriteHeaderOp n]) @ map WriteOp bss)
    (monitor_writer w flusher))"
proof -
  have "status_agrees (monitor_writer w flusher)"
    using assms by (simp add: status_agrees_def monitor_writer_def)
  moreover have "status_agrees (mon_write_header n (monitor_writer w flusher))" if "n \<noteq> 0" for n
    using assms that by (intro mon_write_header_agrees) (simp_all add: monitor_writer_def)
  ultimately show ?thesis
    using assms(2) by (auto intro: mon_run_writes_agree split: option.splits)
qed

theorem logged_status_is_sent_witness:
  "status_agrees (mon_run [WriteHeaderOp 403, WriteOp ''denied''] (sk_w (fresh_sink None)))"
  using logged_status_is_sent [of "\<lparr>rw_header = [], rw_sent = None, rw_body = [], rw_capacity = None\<rparr>"
      "Some 403" "[''denied'']" True]
  by (simp add: fresh_sink_def)

text \<open>
  The byte count in the log is the length of the response body modulo 2 to the 64, for
  any sequence of writes on a connection that accepts them all.
\<close>

theorem logged_bytes_are_sent:
  assumes "rw_capacity w = None" and "rw_body w = []"
  shows "mw_bytes (mon_run ops (monitor_writer w flusher)) =
    of_nat (length (mon_body (mon_run ops (monitor_writer w flusher))))"
  using mon_run_body [of "monitor_writer w flusher" ops] assms by (simp add: monitor_writer_def)

theorem logged_bytes_are_sent_witness:
  "mw_bytes (mon_run [WriteOp ''abc''] (sk_w (fresh_sink None))) =
     of_nat (length (mon_body (mon_run [WriteOp ''abc''] (sk_w (fresh_sink None)))))"
  using logged_bytes_are_sent [of "\<lparr>rw_header = [], rw_sent = None, rw_body = [], rw_capacity = None\<rparr>"
      "[WriteOp ''abc'']" True]
  by (simp add: fresh_sink_def)

text \<open>
  The count adds what the handler asked to write, not what the connection accepted: on a
  connection that takes one byte, three are logged.
\<close>

theorem logged_bytes_overcount:
  "mw_bytes (snd (snd (mon_write ''abc'' (sk_w (fresh_sink (Some 1)))))) = 3 \<and>
   length (mon_body (snd (snd (mon_write ''abc'' (sk_w (fresh_sink (Some 1))))))) = 1"
  by (simp add: mon_write_def rw_write_def rw_write_header_def mon_flush_def fresh_sink_def
      monitor_writer_def Let_def)

text \<open>
  Closing the monitored request body never returns: \<open>monitoringReader.Close\<close> calls
  itself instead of the wrapped reader.
\<close>

theorem mon_close_never_returns: "mon_close r = None"
proof (rule ccontr)
  assume "mon_close r \<noteq> None"
  then obtain y where y: "mon_close r = Some y" by blast
  show False
    by (rule mon_close.raw_induct [where P = "\<lambda>r y. False", OF _ y])
qed

end
