(* ===== verification/Repo.thy ===== *)
theory Repo
  imports Reporting
begin

text \<open>
  The managed repository of \<open>managed_repository.go\<close>: what it asks of the upstream, of the
  git binary and of libgit2, and what it keeps. The three are outside the repository:
  they are the fields of \<open>git_lib\<close>, functions over an arbitrary type of disk contents,
  which every operation takes as an argument. The mutex of the repository serialises
  \<open>fetchUpstream\<close>, \<open>runGC\<close> and \<open>RecoverFromBundle\<close>; here each is one step.
\<close>

section \<open>The environment\<close>

record git_cmd =
  gc_dir :: string
  gc_args :: "string list"
  gc_env :: "string list"
  gc_stdin :: bytes

text \<open>What a process prints, in order.\<close>

datatype git_output = Stdout bytes | Stderr bytes

text \<open>
  An answer of the upstream to a POST: no request could be made, it could not be sent, or
  a response with its status, its content type, its body and how the body scans.
\<close>

datatype upstream_reply =
    BadRequest go_error
  | SendError go_error
  | Reply int string bytes "bytes resp_chunk list" "go_error option"

datatype stat_result = Exists | NotExist | StatFailed go_error

record ('d, 'r) git_lib =
  fs_stat :: "'d \<Rightarrow> string \<Rightarrow> stat_result"
  fs_mkdir_all :: "string \<Rightarrow> 'd \<Rightarrow> go_error option \<times> 'd"
  open_repository :: "'d \<Rightarrow> string \<Rightarrow> go_error option"
  open_odb :: "'d \<Rightarrow> string \<Rightarrow> go_error option"
  odb_exists :: "'d \<Rightarrow> string \<Rightarrow> oid \<Rightarrow> bool"
  ref_name_valid :: "string \<Rightarrow> bool"
  ref_lookup :: "'d \<Rightarrow> string \<Rightarrow> string \<Rightarrow> 'r option"
  ref_resolve :: "'d \<Rightarrow> 'r \<Rightarrow> 'r option"
  ref_target :: "'r \<Rightarrow> oid option"
  oid_text :: "oid \<Rightarrow> string"
  run_git_binary :: "git_cmd \<Rightarrow> 'd \<Rightarrow> git_output list \<times> go_error option \<times> 'd"
  post_upstream :: "string \<Rightarrow> bytes \<Rightarrow> upstream_reply"

text \<open>The fields of \<open>ServerConfig\<close> the repository reads.\<close>

record server_config =
  cfg_root :: string
  cfg_pack_objects_hook :: string
  cfg_pack_objects_cache :: string
  cfg_error_reporter :: bool
  cfg_request_logger :: bool
  cfg_operation_logger :: bool

record managed_repo =
  r_path :: string
  r_upstream :: string

text \<open>What the operations of a repository change.\<close>

datatype operation_event = OpStarted string | OpOutput bytes | OpDone "go_error option"

datatype stat_event =
    OutboundCommand string code
  | StaleGauge duration
  | FetchDistribution duration
  | ConcurrencyGauge "32 word"
  | RequestDistribution "string list"
  | OperationTime "string list"
  | OperationCount "string list"
  | UpstreamFetchWaited cmd_tags

text \<open>
  The state of the process: the disk, the managed repositories by local path with the
  ones whose \<open>once\<close> has run, the Unix time of their last update (\<open>lastUpdateUnix\<close>), the
  operation log, the statistics, and the counter of running local fetches.
\<close>

record 'd world =
  w_disk :: 'd
  w_repos :: "string \<rightharpoonup> managed_repo"
  w_once :: "string \<Rightarrow> bool"
  w_last_update :: "string \<Rightarrow> int"
  w_ops :: "operation_event list"
  w_stats :: "stat_event list"
  w_counter :: "32 word"

definition err_wrap :: "status_lib \<Rightarrow> string \<Rightarrow> go_error \<Rightarrow> go_error" where
  "err_wrap L msg e = PlainError (msg @ error_text L e)"

section \<open>Statistics and operations\<close>

text \<open>
  \<open>logStats\<close>; \<open>logElapsed\<close>, of whose names all are ASCII; the counter of operations. A timing
  is recorded with its tags, without the time that went by, and the line that is logged
  when it was long is left out.
\<close>

definition record_stat :: "stat_event \<Rightarrow> 'd world \<Rightarrow> 'd world" where
  "record_stat ev w = w\<lparr>w_stats := w_stats w @ [ev]\<rparr>"

definition log_stats :: "status_lib \<Rightarrow> string \<Rightarrow> go_error option \<Rightarrow> 'd world \<Rightarrow> 'd world" where
  "log_stats L command e w =
     (let c = (case from_error L e of None \<Rightarrow> Unavailable | Some (c, _) \<Rightarrow> c)
      in w\<lparr>w_stats := w_stats w @ [OutboundCommand command c]\<rparr>)"

definition log_elapsed :: "string \<Rightarrow> string \<Rightarrow> 'd world \<Rightarrow> 'd world" where
  "log_elapsed operation local_disk_path w =
     (let tags = [''dir:'' @ local_disk_path,
                  ''op:'' @ map lower_byte (map (\<lambda>c. if c = CHR '' '' then CHR ''_'' else c) operation)]
      in record_stat (OperationTime tags) w)"

definition count_operation :: "string \<Rightarrow> string list \<Rightarrow> 'd world \<Rightarrow> 'd world" where
  "count_operation local_disk_path tags w = record_stat (OperationCount ((''dir:'' @ local_disk_path) # tags)) w"

text \<open>
  \<open>startOperation\<close>, \<open>Done\<close> and \<open>operationWriter.Write\<close>. \<open>op\<close> says whether the operation
  is one of the configured logger; \<open>noopOperation\<close> does nothing.
\<close>

definition op_event :: "bool \<Rightarrow> operation_event \<Rightarrow> 'd world \<Rightarrow> 'd world" where
  "op_event op ev w = (if op then w\<lparr>w_ops := w_ops w @ [ev]\<rparr> else w)"

definition start_operation :: "server_config \<Rightarrow> string \<Rightarrow> 'd world \<Rightarrow> bool \<times> 'd world" where
  "start_operation cfg name w = (cfg_operation_logger cfg, op_event (cfg_operation_logger cfg) (OpStarted name) w)"

definition operation_write :: "bool \<Rightarrow> bytes \<Rightarrow> 'd world \<Rightarrow> nat \<times> go_error option \<times> 'd world" where
  "operation_write op b w = (length b, None, op_event op (OpOutput b) w)"

text \<open>
  \<open>runGit\<close>: an empty environment, both outputs to the operation.
\<close>

definition git_in :: "string \<Rightarrow> string list \<Rightarrow> git_cmd" where
  "git_in dir args = \<lparr>gc_dir = dir, gc_args = args, gc_env = [], gc_stdin = []\<rparr>"

definition op_output :: "bool \<Rightarrow> bytes list \<Rightarrow> 'd world \<Rightarrow> 'd world" where
  "op_output op out w = fold (\<lambda>b w. snd (snd (operation_write op b w))) out w"

definition output_bytes :: "git_output \<Rightarrow> bytes" where
  "output_bytes o' = (case o' of Stdout b \<Rightarrow> b | Stderr b \<Rightarrow> b)"

definition stdout_of :: "git_output list \<Rightarrow> bytes list" where
  "stdout_of out = List.map_filter (\<lambda>o'. case o' of Stdout b \<Rightarrow> Some b | Stderr b \<Rightarrow> None) out"

definition stderr_of :: "git_output list \<Rightarrow> bytes list" where
  "stderr_of out = List.map_filter (\<lambda>o'. case o' of Stdout b \<Rightarrow> None | Stderr b \<Rightarrow> Some b) out"

definition run_git ::
  "status_lib \<Rightarrow> ('d, 'r) git_lib \<Rightarrow> bool \<Rightarrow> string \<Rightarrow> string list \<Rightarrow> 'd world \<Rightarrow>
     go_error option \<times> 'd world" where
  "run_git L G op dir args w =
     (let (out, err, d) = run_git_binary G (git_in dir args) (w_disk w)
      in (map_option (err_wrap L ''failed to run a git command: '') err,
          op_output op (map output_bytes out) (w\<lparr>w_disk := d\<rparr>)))"

text \<open>
  \<open>cmd.Run\<close> with the standard output copied to a writer: the copy stops at the first
  failed write, and the error is that of the process, else that of the copy.
\<close>

fun copy_out :: "'w io_write \<Rightarrow> bytes list \<Rightarrow> 'w \<Rightarrow> go_error option \<times> 'w" where
  "copy_out wr [] s = (None, s)"
| "copy_out wr (b # bs) s =
     (case write_packet wr b s of (Some e, s') \<Rightarrow> (Some e, s') | (None, s') \<Rightarrow> copy_out wr bs s')"

definition run_to_writer ::
  "('d, 'r) git_lib \<Rightarrow> 'w io_write \<Rightarrow> git_cmd \<Rightarrow> 'w \<Rightarrow> 'd \<Rightarrow> go_error option \<times> 'w \<times> git_output list \<times> 'd" where
  "run_to_writer G wr cmd out d =
     (let (bs, err, d') = run_git_binary G cmd d;
          (werr, out') = copy_out wr (stdout_of bs) out
      in (case err of Some e \<Rightarrow> Some e | None \<Rightarrow> werr, out', bs, d'))"

definition run_git_with_stdout ::
  "status_lib \<Rightarrow> ('d, 'r) git_lib \<Rightarrow> bool \<Rightarrow> 'w io_write \<Rightarrow> 'w \<Rightarrow> string \<Rightarrow> string list \<Rightarrow> 'd world \<Rightarrow>
     go_error option \<times> 'w \<times> 'd world" where
  "run_git_with_stdout L G op wr out dir args w =
     (let (err, out', bs, d) = run_to_writer G wr (git_in dir args) out (w_disk w)
      in (map_option (err_wrap L ''failed to run a git command: '') err, out',
          op_output op (stderr_of bs) (w\<lparr>w_disk := d\<rparr>)))"

section \<open>Asking the upstream for its references\<close>

text \<open>\<open>newGitRequest\<close>.\<close>

definition new_git_request :: "wire_lib \<Rightarrow> bytes req_chunk list \<Rightarrow> bytes" where
  "new_git_request W command = concat (map (encode_req W) command)"

text \<open>
  The loop that collects the response chunks, each a copy out of the scanner's buffer.
\<close>

fun collect_chunks ::
  "addr \<Rightarrow> bytes resp_chunk list \<Rightarrow> addr resp_chunk list \<Rightarrow> store \<Rightarrow> addr resp_chunk list \<times> store" where
  "collect_chunks buf [] chunks h = (chunks, h)"
| "collect_chunks buf (v # vs) chunks h =
     (let h1 = (case rs_response v of None \<Rightarrow> h | Some b \<Rightarrow> h\<lparr>heap := (heap h)(buf := b)\<rparr>);
          p = \<lparr>rs_response = map_option (\<lambda>_. buf) (rs_response v), rs_other = rs_other v\<rparr>;
          (c, h2) = copy_response_chunk h1 p
      in collect_chunks buf vs (chunks @ [c]) h2)"

text \<open>\<open>ioutil.ReadAll\<close>: the bytes that are left, and a drained body.\<close>

definition read_all :: "bytes \<Rightarrow> bytes \<times> bytes" where
  "read_all body = (body, [])"

definition ls_refs_upstream ::
  "status_lib \<Rightarrow> wire_lib \<Rightarrow> ('d, 'r) git_lib \<Rightarrow> managed_repo \<Rightarrow> store \<Rightarrow> bytes req_chunk list \<Rightarrow>
     'd world \<Rightarrow> (go_error + bytes resp_chunk list) \<times> 'd world" where
  "ls_refs_upstream L W G r h command w =
     (case post_upstream G (r_upstream r @ ''/git-upload-pack'') (new_git_request W command) of
        BadRequest e \<Rightarrow>
          (Inl (StatusError Internal (''cannot construct a request object: '' @ error_text L e)), w)
      | SendError e \<Rightarrow>
          (Inl (StatusError Internal (''cannot send a request to the upstream: '' @ error_text L e)),
           log_elapsed ''lsRefsUpstream'' (r_path r) (log_stats L ''ls-refs'' (Some e) w))
      | Reply st ctype body chunks serr \<Rightarrow>
          let w' = log_elapsed ''lsRefsUpstream'' (r_path r) (log_stats L ''ls-refs'' None w) in
          if st \<noteq> 200 then
            let (err_message, body1) =
                  (if has_prefix ctype ''text/plain'' then read_all body else ([], body));
                (err_data, body2) = read_all body1;
                err_message = err_data
            in (Inl (PlainError (''got a non-OK response from the upstream: '' @ show_int st @ '' '' @
                  err_message)), w')
          else
            let (refs, h') = collect_chunks (next_addr h) chunks []
                  (h\<lparr>next_addr := Suc (next_addr h)\<rparr>)
            in (case serr of
                  Some e \<Rightarrow> (Inl (err_wrap L ''cannot parse the upstream response: '' e), w')
                | None \<Rightarrow> (Inr (map (load_resp h') refs), w')))"

section \<open>Fetching from the upstream\<close>

text \<open>The arguments \<open>fetchUpstreamInternal\<close> gives to git.\<close>

definition fetch_args :: "('d, 'r) git_lib \<Rightarrow> string \<Rightarrow> oid list \<Rightarrow> string list" where
  "fetch_args G remote wants =
     [''fetch''] @
     (if remote = ''all'' then [''--all'']
      else [''--force'', ''--prune'', ''--no-tags'', remote, ''+refs/heads/*:refs/remotes/origin/*''] @
        (if 1 \<le> length wants then [oid_text G (wants ! 0)] else []))"

definition fetch_upstream_internal ::
  "status_lib \<Rightarrow> ('d, 'r) git_lib \<Rightarrow> server_config \<Rightarrow> managed_repo \<Rightarrow> string \<Rightarrow> oid list \<Rightarrow> 'd world \<Rightarrow>
     go_error option \<times> 'd world" where
  "fetch_upstream_internal L G cfg r remote wants w =
     (let (op, w1) = start_operation cfg ''FetchUpstream'' w;
          (err, w2) = run_git L G op (r_path r) (fetch_args G remote wants) w1
      in (err, op_event op (OpDone err) w2))"

text \<open>\<open>LastUpdateTime\<close>.\<close>

definition last_update_time :: "managed_repo \<Rightarrow> 'd world \<Rightarrow> time" where
  "last_update_time r w = of_unix (w_last_update w (r_path r))"

text \<open>
  \<open>fetchUpstream\<close>; the two instants are those at which the lock is held and at which the
  fetches are over.
\<close>

definition fetch_upstream ::
  "status_lib \<Rightarrow> ('d, 'r) git_lib \<Rightarrow> server_config \<Rightarrow> managed_repo \<Rightarrow> time \<Rightarrow> time \<Rightarrow> oid list \<Rightarrow>
     'd world \<Rightarrow> go_error option \<times> 'd world" where
  "fetch_upstream L G cfg r start_time end_time wants w =
     (let w1 = log_stats L ''fetchBlocked'' None w;
          staled = start_time - last_update_time r w1;
          w2 = (if staled < hour * 24 * 365 then w1\<lparr>w_stats := w_stats w1 @ [StaleGauge staled]\<rparr> else w1);
          (err, w3) = fetch_upstream_internal L G cfg r ''all'' wants w2;
          (err, w4) = fetch_upstream_internal L G cfg r ''origin'' wants w3;
          w5 = w4\<lparr>w_stats := w_stats w4 @ [FetchDistribution (end_time - start_time)]\<rparr>;
          w6 = log_stats L ''fetch'' err w5;
          w7 = (if err = None then w6\<lparr>w_last_update := (w_last_update w6)(r_path r := unix_of start_time)\<rparr> else w6)
      in (err, log_elapsed ''fetchUpstream'' (r_path r) w7))"

text \<open>\<open>runGC\<close>, \<open>RecoverFromBundle\<close> and \<open>WriteBundle\<close>.\<close>

definition run_gc ::
  "status_lib \<Rightarrow> ('d, 'r) git_lib \<Rightarrow> server_config \<Rightarrow> managed_repo \<Rightarrow> 'd world \<Rightarrow> go_error option \<times> 'd world" where
  "run_gc L G cfg r w =
     (let (op, w1) = start_operation cfg ''gitGC'' w;
          (err, w2) = run_git L G op (r_path r) [''gc'', ''--prune='' @ [CHR 0x27] @ ''15.minutes.ago'' @ [CHR 0x27]] w1
      in (err, op_event op (OpDone err) w2))"

definition recover_from_bundle ::
  "status_lib \<Rightarrow> ('d, 'r) git_lib \<Rightarrow> server_config \<Rightarrow> managed_repo \<Rightarrow> string \<Rightarrow> 'd world \<Rightarrow>
     go_error option \<times> 'd world" where
  "recover_from_bundle L G cfg r bundle_path w =
     (let (op, w1) = start_operation cfg ''ReadBundle'' w;
          (err, w2) = run_git L G op (r_path r)
            [''fetch'', ''--progress'', ''-f'', bundle_path, ''refs/*:refs/*''] w1
      in (err, op_event op (OpDone err) w2))"

definition write_bundle ::
  "status_lib \<Rightarrow> ('d, 'r) git_lib \<Rightarrow> server_config \<Rightarrow> managed_repo \<Rightarrow> 'w io_write \<Rightarrow> 'w \<Rightarrow> 'd world \<Rightarrow>
     go_error option \<times> 'w \<times> 'd world" where
  "write_bundle L G cfg r wr out w =
     (let (op, w1) = start_operation cfg ''CreateBundle'' w;
          (err, out', w2) = run_git_with_stdout L G op wr out (r_path r)
            [''bundle'', ''create'', ''-'', ''--all''] w1
      in (err, out', op_event op (OpDone err) w2))"

section \<open>What the local repository has\<close>

text \<open>\<open>lookupReference\<close>; \<open>repo\<close> is the path of the open repository.\<close>

definition lookup_reference ::
  "('d, 'r) git_lib \<Rightarrow> 'd \<Rightarrow> string \<Rightarrow> string \<Rightarrow> bool \<Rightarrow> go_error + 'r" where
  "lookup_reference G d repo ref_name resolve =
     (if \<not> ref_name_valid G ref_name then Inl ErrReferenceInvalid
      else case ref_lookup G d repo ref_name of
             None \<Rightarrow> Inl ErrReferenceNotFound
           | Some ref \<Rightarrow>
               if resolve then (case ref_resolve G d ref of
                                  None \<Rightarrow> Inl ErrReferenceNotFound
                                | Some ref' \<Rightarrow> Inr ref')
               else Inr ref)"

text \<open>
  \<open>hasAllWants\<close> without its deferred statistics: every hash in the object database, then
  every reference.
\<close>

fun hashes_present :: "('d, 'r) git_lib \<Rightarrow> 'd \<Rightarrow> string \<Rightarrow> oid list \<Rightarrow> bool" where
  "hashes_present G d path [] = True"
| "hashes_present G d path (h # hs) = (if \<not> odb_exists G d path h then False else hashes_present G d path hs)"

fun refs_present ::
  "status_lib \<Rightarrow> ('d, 'r) git_lib \<Rightarrow> 'd \<Rightarrow> string \<Rightarrow> string list \<Rightarrow> go_error + bool" where
  "refs_present L G d path [] = Inr True"
| "refs_present L G d path (r # rs) =
     (case lookup_reference G d path r True of
        Inl ErrReferenceNotFound \<Rightarrow> Inr False
      | Inl e \<Rightarrow> Inl (err_wrap L ''error while looking up a reference for want check: '' e)
      | Inr _ \<Rightarrow> refs_present L G d path rs)"

definition wants_check ::
  "status_lib \<Rightarrow> ('d, 'r) git_lib \<Rightarrow> 'd \<Rightarrow> string \<Rightarrow> oid list \<Rightarrow> string list \<Rightarrow> go_error + bool" where
  "wants_check L G d path hashes refs =
     (case open_repository G d path of
        Some e \<Rightarrow> Inl (err_wrap L ''cannot open the local cached repository: '' e)
      | None \<Rightarrow>
          (case open_odb G d path of
             Some e \<Rightarrow> Inl (err_wrap L ''cannot open odb: '' e)
           | None \<Rightarrow>
               if \<not> hashes_present G d path hashes then Inr False
               else refs_present L G d path refs))"

text \<open>
  What \<open>hasAllWants\<close> and \<open>hasAnyUpdate\<close> defer, the last first. The deferred \<open>logStats\<close> gets the
  error as it is when it is deferred, which is nil.
\<close>

definition log_check :: "status_lib \<Rightarrow> string \<Rightarrow> managed_repo \<Rightarrow> 'd world \<Rightarrow> 'd world" where
  "log_check L name r w = log_stats L name None (log_elapsed name (r_path r) w)"

definition has_all_wants ::
  "status_lib \<Rightarrow> ('d, 'r) git_lib \<Rightarrow> managed_repo \<Rightarrow> oid list \<Rightarrow> string list \<Rightarrow> 'd world \<Rightarrow>
     (go_error + bool) \<times> 'd world" where
  "has_all_wants L G r hashes refs w =
     (wants_check L G (w_disk w) (r_path r) hashes refs, log_check L ''hasAllWants'' r w)"

text \<open>
  \<open>hasAnyUpdate\<close>: the loop over the map, in the order the runtime picks (a list of its
  entries). The outer \<open>None\<close> is the panic of \<open>*ref.Target()\<close> on a reference that has none.
\<close>

fun updates_loop ::
  "status_lib \<Rightarrow> ('d, 'r) git_lib \<Rightarrow> 'd \<Rightarrow> string \<Rightarrow> (string \<times> oid) list \<Rightarrow> (go_error + bool) option" where
  "updates_loop L G d path [] = Some (Inr False)"
| "updates_loop L G d path ((ref_name, expected) # rest) =
     (case lookup_reference G d path ref_name True of
        Inl ErrReferenceNotFound \<Rightarrow> Some (Inr True)
      | Inl e \<Rightarrow> Some (Inl (err_wrap L ''cannot open the reference: '' e))
      | Inr ref \<Rightarrow>
          (case ref_target G ref of
             None \<Rightarrow> None
           | Some target \<Rightarrow>
               if target \<noteq> expected then
                 (if odb_exists G d path expected then updates_loop L G d path rest
                  else Some (Inr True))
               else updates_loop L G d path rest))"

definition has_any_update ::
  "status_lib \<Rightarrow> ('d, 'r) git_lib \<Rightarrow> managed_repo \<Rightarrow> (string \<times> oid) list \<Rightarrow> 'd world \<Rightarrow>
     (go_error + bool) option \<times> 'd world" where
  "has_any_update L G r refs w =
     (let w' = log_check L ''hasAnyUpdate'' r w in
      case open_repository G (w_disk w) (r_path r) of
        Some e \<Rightarrow> (Some (Inl (err_wrap L ''cannot open the local cached repository: '' e)), w')
      | None \<Rightarrow>
          (case open_odb G (w_disk w) (r_path r) of
             Some e \<Rightarrow> (Some (Inl (err_wrap L ''cannot open odb: '' e)), w')
           | None \<Rightarrow> (updates_loop L G (w_disk w) (r_path r) refs, w')))"

section \<open>Serving a fetch\<close>

text \<open>The command line, environment and input \<open>serveFetchLocal\<close> runs git with.\<close>

definition serve_cmd ::
  "wire_lib \<Rightarrow> server_config \<Rightarrow> managed_repo \<Rightarrow> bytes req_chunk list \<Rightarrow> string \<Rightarrow> git_cmd" where
  "serve_cmd W cfg r command ci_source =
     (let hook = (cfg_pack_objects_hook cfg \<noteq> []);
          args = (if hook then [''-c'', ''uploadpack.packObjectsHook='' @ cfg_pack_objects_hook cfg] else []);
          env = [''GIT_PROTOCOL=version=2''] @
            (if hook then [''POH_CACHE_DIR='' @ cfg_pack_objects_cache cfg, ''POH_STDIN_MAX='' @ show_int 1500,
                           ''POH_CI_SOURCE='' @ ci_source] else [])
      in \<lparr>gc_dir = r_path r, gc_args = args @ [''upload-pack'', ''--stateless-rpc'', r_path r],
          gc_env = env, gc_stdin = new_git_request W command\<rparr>)"

definition serve_fetch_local ::
  "wire_lib \<Rightarrow> ('d, 'r) git_lib \<Rightarrow> server_config \<Rightarrow> managed_repo \<Rightarrow> 'w io_write \<Rightarrow>
     bytes req_chunk list \<Rightarrow> string \<Rightarrow> 'w \<Rightarrow> 'd world \<Rightarrow> go_error option \<times> 'w \<times> 'd world" where
  "serve_fetch_local W G cfg r wr command ci_source out w =
     (let w1 = w\<lparr>w_counter := w_counter w + 1\<rparr>;
          (err, out', _, d) = run_to_writer G wr (serve_cmd W cfg r command ci_source) out (w_disk w1);
          w2 = w1\<lparr>w_disk := d\<rparr>;
          w3 = w2\<lparr>w_stats := w_stats w2 @ [ConcurrencyGauge (w_counter w2)]\<rparr>;
          w4 = w3\<lparr>w_counter := w_counter w3 - 1\<rparr>
      in (err, out', log_elapsed ''serveFetchLocal'' (r_path r) w4))"

section \<open>What each operation changes\<close>

lemma log_stats_fields [effect_simps, simp]:
  "w_disk (log_stats L c e w) = w_disk w" "w_last_update (log_stats L c e w) = w_last_update w"
  "w_repos (log_stats L c e w) = w_repos w" "w_once (log_stats L c e w) = w_once w"
  "w_ops (log_stats L c e w) = w_ops w" "w_counter (log_stats L c e w) = w_counter w"
  by (simp_all add: log_stats_def Let_def)

lemma record_stat_fields [effect_simps, simp]:
  "w_disk (record_stat ev w) = w_disk w" "w_last_update (record_stat ev w) = w_last_update w"
  "w_repos (record_stat ev w) = w_repos w" "w_once (record_stat ev w) = w_once w"
  "w_ops (record_stat ev w) = w_ops w" "w_counter (record_stat ev w) = w_counter w"
  "w_stats (record_stat ev w) = w_stats w @ [ev]"
  by (simp_all add: record_stat_def)

lemma log_elapsed_fields [effect_simps, simp]:
  "w_disk (log_elapsed op p w) = w_disk w" "w_last_update (log_elapsed op p w) = w_last_update w"
  "w_repos (log_elapsed op p w) = w_repos w" "w_once (log_elapsed op p w) = w_once w"
  "w_ops (log_elapsed op p w) = w_ops w" "w_counter (log_elapsed op p w) = w_counter w"
  by (simp_all add: log_elapsed_def Let_def)

lemma count_operation_fields [effect_simps, simp]:
  "w_disk (count_operation p tags w) = w_disk w" "w_last_update (count_operation p tags w) = w_last_update w"
  "w_repos (count_operation p tags w) = w_repos w" "w_once (count_operation p tags w) = w_once w"
  "w_ops (count_operation p tags w) = w_ops w" "w_counter (count_operation p tags w) = w_counter w"
  by (simp_all add: count_operation_def)

lemma log_check_fields [effect_simps, simp]:
  "w_disk (log_check L name r w) = w_disk w" "w_last_update (log_check L name r w) = w_last_update w"
  "w_repos (log_check L name r w) = w_repos w" "w_once (log_check L name r w) = w_once w"
  "w_ops (log_check L name r w) = w_ops w" "w_counter (log_check L name r w) = w_counter w"
  by (simp_all add: log_check_def)

lemma log_stats_nil: "status_law L \<Longrightarrow> w_stats (log_stats L c None w) = w_stats w @ [OutboundCommand c OK]"
  by (simp add: log_stats_def status_law_def)

lemma op_event_fields [effect_simps, simp]:
  "w_disk (op_event op ev w) = w_disk w" "w_last_update (op_event op ev w) = w_last_update w"
  "w_repos (op_event op ev w) = w_repos w" "w_once (op_event op ev w) = w_once w"
  "w_stats (op_event op ev w) = w_stats w" "w_counter (op_event op ev w) = w_counter w"
  "w_ops (op_event op ev w) = w_ops w @ (if op then [ev] else [])"
  by (simp_all add: op_event_def)

lemma op_output_Cons:
  "op_output op (b # bs) w = op_output op bs (op_event op (OpOutput b) w)"
  by (simp add: op_output_def operation_write_def)

lemma op_output_fields [effect_simps, simp]:
  "w_disk (op_output op out w) = w_disk w" "w_last_update (op_output op out w) = w_last_update w"
  "w_repos (op_output op out w) = w_repos w" "w_once (op_output op out w) = w_once w"
  "w_stats (op_output op out w) = w_stats w" "w_counter (op_output op out w) = w_counter w"
  by (induction out arbitrary: w) (simp_all add: op_output_Cons, simp_all add: op_output_def)

lemma op_output_ops: "w_ops (op_output op out w) = w_ops w @ (if op then map OpOutput out else [])"
  by (induction out arbitrary: w) (simp_all add: op_output_Cons, simp add: op_output_def)

text \<open>The disk after a git command, and the error it gives.\<close>

definition git_disk :: "('d, 'r) git_lib \<Rightarrow> git_cmd \<Rightarrow> 'd \<Rightarrow> 'd" where
  "git_disk G cmd d = snd (snd (run_git_binary G cmd d))"

definition git_error :: "('d, 'r) git_lib \<Rightarrow> git_cmd \<Rightarrow> 'd \<Rightarrow> go_error option" where
  "git_error G cmd d = fst (snd (run_git_binary G cmd d))"

lemma run_git_error:
  "fst (run_git L G op dir args w) =
     map_option (err_wrap L ''failed to run a git command: '') (git_error G (git_in dir args) (w_disk w))"
  by (simp add: run_git_def git_error_def split: prod.splits)

lemma run_git_fields [effect_simps, simp]:
  "w_disk (snd (run_git L G op dir args w)) = git_disk G (git_in dir args) (w_disk w)"
  "w_last_update (snd (run_git L G op dir args w)) = w_last_update w"
  "w_repos (snd (run_git L G op dir args w)) = w_repos w"
  "w_once (snd (run_git L G op dir args w)) = w_once w"
  "w_stats (snd (run_git L G op dir args w)) = w_stats w"
  "w_counter (snd (run_git L G op dir args w)) = w_counter w"
  by (simp_all add: run_git_def git_disk_def split: prod.splits)

abbreviation fetch_cmd :: "('d, 'r) git_lib \<Rightarrow> managed_repo \<Rightarrow> string \<Rightarrow> oid list \<Rightarrow> git_cmd" where
  "fetch_cmd G r remote wants \<equiv> git_in (r_path r) (fetch_args G remote wants)"

lemma fetch_internal_fields [effect_simps, simp]:
  "fst (fetch_upstream_internal L G cfg r remote wants w) =
     map_option (err_wrap L ''failed to run a git command: '') (git_error G (fetch_cmd G r remote wants) (w_disk w))"
  "w_disk (snd (fetch_upstream_internal L G cfg r remote wants w)) =
     git_disk G (fetch_cmd G r remote wants) (w_disk w)"
  "w_last_update (snd (fetch_upstream_internal L G cfg r remote wants w)) = w_last_update w"
  "w_repos (snd (fetch_upstream_internal L G cfg r remote wants w)) = w_repos w"
  "w_once (snd (fetch_upstream_internal L G cfg r remote wants w)) = w_once w"
  "w_stats (snd (fetch_upstream_internal L G cfg r remote wants w)) = w_stats w"
  "w_counter (snd (fetch_upstream_internal L G cfg r remote wants w)) = w_counter w"
  using run_git_error [of L G _ "r_path r" "fetch_args G remote wants"]
    run_git_fields [of L G _ "r_path r" "fetch_args G remote wants"]
  by (simp_all add: fetch_upstream_internal_def start_operation_def Let_def split_beta)

text \<open>The disk after both fetches, and the error of the second.\<close>

definition fetched_disk :: "('d, 'r) git_lib \<Rightarrow> managed_repo \<Rightarrow> oid list \<Rightarrow> 'd \<Rightarrow> 'd" where
  "fetched_disk G r wants d =
     git_disk G (fetch_cmd G r ''origin'' wants) (git_disk G (fetch_cmd G r ''all'' wants) d)"

lemma fetch_upstream_fields [effect_simps, simp]:
  "fst (fetch_upstream L G cfg r t t' wants w) =
     map_option (err_wrap L ''failed to run a git command: '')
       (git_error G (fetch_cmd G r ''origin'' wants) (git_disk G (fetch_cmd G r ''all'' wants) (w_disk w)))"
  "w_disk (snd (fetch_upstream L G cfg r t t' wants w)) = fetched_disk G r wants (w_disk w)"
  "w_repos (snd (fetch_upstream L G cfg r t t' wants w)) = w_repos w"
  "w_once (snd (fetch_upstream L G cfg r t t' wants w)) = w_once w"
  "w_counter (snd (fetch_upstream L G cfg r t t' wants w)) = w_counter w"
  by (simp_all add: fetch_upstream_def fetched_disk_def Let_def split_beta)

lemma fetch_upstream_last:
  "w_last_update (snd (fetch_upstream L G cfg r t t' wants w)) =
     (if fst (fetch_upstream L G cfg r t t' wants w) = None
      then (w_last_update w)(r_path r := unix_of t) else w_last_update w)"
  by (simp add: fetch_upstream_def Let_def split_beta)

section \<open>Collected chunks\<close>

definition resp_owned :: "addr \<Rightarrow> store \<Rightarrow> addr resp_chunk \<Rightarrow> bool" where
  "resp_owned buf h c \<longleftrightarrow> (\<forall>a. rs_response c = Some a \<longrightarrow> a < next_addr h \<and> a \<noteq> buf)"

lemma load_resp_owned: "resp_owned buf h c \<Longrightarrow> store_ext buf h h' \<Longrightarrow> load_resp h' c = load_resp h c"
  by (rule resp_copy.load_stable) (auto simp: resp_owned_def)

lemma resp_owned_ext: "resp_owned buf h c \<Longrightarrow> store_ext buf h h' \<Longrightarrow> resp_owned buf h' c"
  unfolding resp_owned_def store_ext_def by (metis order_less_le_trans)

lemma collect_chunks_correct:
  assumes "buf < next_addr h" and "list_all (resp_owned buf h) chunks"
    and "collect_chunks buf vs chunks h = (cs, h')"
  shows "map (load_resp h') cs = map (load_resp h) chunks @ vs"
  using assms
proof (induction vs arbitrary: chunks h)
  case Nil
  then show ?case by simp
next
  case (Cons v vs)
  define h1 where "h1 = (case rs_response v of None \<Rightarrow> h | Some b \<Rightarrow> h\<lparr>heap := (heap h)(buf := b)\<rparr>)"
  define p where "p = \<lparr>rs_response = map_option (\<lambda>_. buf) (rs_response v), rs_other = rs_other v\<rparr>"
  obtain c h2 where c: "copy_response_chunk h1 p = (c, h2)" by fastforce
  have e1: "store_ext buf h h1" and buf1: "buf < next_addr h1" and p: "load_resp h1 p = v"
    using Cons.prems(1) by (auto simp: h1_def p_def load_resp_def split: option.splits)
  from resp_copy.copy_ext [OF c] e1 have e2: "store_ext buf h h2"
    by (rule store_ext_trans [rotated])
  have "resp_owned buf h2 c"
    using resp_copy.copy_owned [OF c buf1] by (simp add: resp_owned_def)
  then have own: "list_all (resp_owned buf h2) (chunks @ [c])"
    using Cons.prems(2) e2 by (auto simp: list_all_iff intro: resp_owned_ext)
  have "collect_chunks buf vs (chunks @ [c]) h2 = (cs, h')"
    using Cons.prems(3) c by (simp add: h1_def [symmetric] p_def [symmetric] Let_def)
  from Cons.IH [OF _ own this] buf1 store_ext_next [OF resp_copy.copy_ext [OF c, of buf]]
  have "map (load_resp h') cs = map (load_resp h2) (chunks @ [c]) @ vs" by simp
  moreover have "map (load_resp h2) chunks = map (load_resp h) chunks"
    using Cons.prems(2) e2 by (auto simp: list_all_iff intro: load_resp_owned)
  moreover have "load_resp h2 c = v"
    using resp_copy.copy_load [OF c] p by simp
  ultimately show ?case by simp
qed

lemma collected_values:
  assumes "collect_chunks (next_addr h) vs [] (h\<lparr>next_addr := Suc (next_addr h)\<rparr>) = (cs, h')"
  shows "map (load_resp h') cs = vs"
  using collect_chunks_correct [OF _ _ assms] by simp

section \<open>Local checks\<close>

lemma hashes_present_iff: "hashes_present G d path hs \<longleftrightarrow> (\<forall>h \<in> set hs. odb_exists G d path h)"
  by (induction hs) auto

definition ref_found :: "('d, 'r) git_lib \<Rightarrow> 'd \<Rightarrow> string \<Rightarrow> string \<Rightarrow> bool" where
  "ref_found G d path r = (case ref_lookup G d path r of None \<Rightarrow> False | Some ref \<Rightarrow> ref_resolve G d ref \<noteq> None)"

lemma lookup_reference_found:
  "ref_name_valid G r \<Longrightarrow>
     (\<exists>ref. lookup_reference G d path r True = Inr ref) \<longleftrightarrow> ref_found G d path r"
  "ref_name_valid G r \<Longrightarrow> \<not> ref_found G d path r \<Longrightarrow>
     lookup_reference G d path r True = Inl ErrReferenceNotFound"
  "\<not> ref_name_valid G r \<Longrightarrow> lookup_reference G d path r b = Inl ErrReferenceInvalid"
  by (auto simp: lookup_reference_def ref_found_def split: option.splits)

lemma refs_present_True:
  "refs_present L G d path rs = Inr True \<longleftrightarrow> (\<forall>r \<in> set rs. ref_name_valid G r \<and> ref_found G d path r)"
proof (induction rs)
  case (Cons r rs)
  then show ?case
    using lookup_reference_found [of G r d path]
    by (cases "ref_name_valid G r"; cases "ref_found G d path r") auto
qed simp

lemma wants_check_True:
  "wants_check L G d path hs rs = Inr True \<longleftrightarrow>
     open_repository G d path = None \<and> open_odb G d path = None \<and>
     (\<forall>h \<in> set hs. odb_exists G d path h) \<and> (\<forall>r \<in> set rs. ref_name_valid G r \<and> ref_found G d path r)"
  by (simp add: wants_check_def hashes_present_iff refs_present_True split: option.splits)

text \<open>What \<open>hasAnyUpdate\<close> looks for in one entry of the map.\<close>

definition entry_new :: "('d, 'r) git_lib \<Rightarrow> 'd \<Rightarrow> string \<Rightarrow> string \<times> oid \<Rightarrow> bool" where
  "entry_new G d path = (\<lambda>(r, h).
     (case lookup_reference G d path r True of
        Inl _ \<Rightarrow> True
      | Inr ref \<Rightarrow> ref_target G ref \<noteq> Some h \<and> \<not> odb_exists G d path h))"

definition entry_readable :: "('d, 'r) git_lib \<Rightarrow> 'd \<Rightarrow> string \<Rightarrow> string \<times> oid \<Rightarrow> bool" where
  "entry_readable G d path = (\<lambda>(r, h). ref_name_valid G r \<and>
     (\<forall>ref. lookup_reference G d path r True = Inr ref \<longrightarrow> ref_target G ref \<noteq> None))"

lemma updates_loop_readable:
  "list_all (entry_readable G d path) refs \<Longrightarrow>
     updates_loop L G d path refs = Some (Inr (list_ex (entry_new G d path) refs))"
proof (induction refs)
  case (Cons rh refs)
  obtain r h where rh: "rh = (r, h)" by force
  show ?case
  proof (cases "ref_found G d path r")
    case True
    with Cons rh lookup_reference_found(1) [of G r d path] show ?thesis
      by (auto simp: entry_readable_def entry_new_def)
  next
    case False
    with Cons rh lookup_reference_found(2) [of G r d path] show ?thesis
      by (auto simp: entry_readable_def entry_new_def)
  qed
qed simp

section \<open>Operations in the log, output to a writer\<close>

text \<open>An operation is logged as its start, its output and its end with the returned error.\<close>

definition op_bracketed :: "server_config \<Rightarrow> string \<Rightarrow> go_error option \<Rightarrow> 'd world \<Rightarrow> 'd world \<Rightarrow> bool" where
  "op_bracketed cfg name err w w' \<longleftrightarrow>
     (\<exists>outs. w_ops w' = w_ops w @
        (if cfg_operation_logger cfg then [OpStarted name] @ map OpOutput outs @ [OpDone err] else []))"

lemma run_git_ops:
  "\<exists>outs. w_ops (snd (run_git L G op dir args w)) = w_ops w @ (if op then map OpOutput outs else [])"
  by (auto simp: run_git_def op_output_ops simp del: map_map split: prod.splits)

lemma bracketed_run_git:
  assumes "start_operation cfg name w = (op, w1)" and "run_git L G op dir args w1 = (err, w2)"
  shows "op_bracketed cfg name err w (op_event op (OpDone err) w2)"
  using run_git_ops [of L G op dir args w1] assms
  by (auto simp: op_bracketed_def start_operation_def)

context byte_writer
begin

lemma copy_out_ok: "copy_out wr bs s = (None, s') \<Longrightarrow> content s' = content s @ concat bs"
proof (induction bs arbitrary: s)
  case (Cons b bs)
  then obtain s1 where "write_packet wr b s = (None, s1)" and "copy_out wr bs s1 = (None, s')"
    by (auto split: prod.splits option.splits)
  with Cons.IH write_packet_ok show ?case by fastforce
qed simp

lemma copy_out_prefix: "prefix (content s) (content (snd (copy_out wr bs s)))"
proof (induction bs arbitrary: s)
  case (Cons b bs)
  obtain e s1 where s1: "write_packet wr b s = (e, s1)" by fastforce
  with write_packet_prefix have "prefix (content s) (content s1)" by (metis snd_conv)
  with s1 Cons.IH [of s1] show ?case
    by (auto split: option.splits intro: prefix_order.order_trans)
qed simp

lemma run_to_writer_ok:
  assumes "run_to_writer G wr cmd s d = (None, s', out, d')"
  shows "content s' = content s @ concat (stdout_of out)"
  using assms copy_out_ok by (fastforce simp: run_to_writer_def split: prod.splits option.splits)

lemma run_to_writer_prefix:
  "prefix (content s) (content (fst (snd (run_to_writer G wr cmd s d))))"
  using copy_out_prefix by (simp add: run_to_writer_def split: prod.splits) (metis snd_conv)

lemma serve_fetch_prefix:
  "prefix (content s) (content (fst (snd (serve_fetch_local W G cfg r wr command ci s w))))"
  using run_to_writer_prefix [of s G "serve_cmd W cfg r command ci" "w_disk w"]
  by (simp add: serve_fetch_local_def Let_def split_beta)

end

lemma ls_refs_upstream_collected:
  assumes "post_upstream G (r_upstream r @ ''/git-upload-pack'') (new_git_request W command) =
    Reply 200 ctype body chunks None"
  shows "ls_refs_upstream L W G r h command w =
    (Inr chunks, log_elapsed ''lsRefsUpstream'' (r_path r) (log_stats L ''ls-refs'' None w))"
  using assms collected_values
  by (simp add: ls_refs_upstream_def Let_def split: prod.splits)

section \<open>A concrete git, for witnesses\<close>

text \<open>
  Disks are object ids and references; fetching all remotes fails, fetching origin brings
  one object, and upload-pack prints a pack.
\<close>

definition demo_git :: "upstream_reply \<Rightarrow> (oid list \<times> (string \<times> oid) list, oid) git_lib" where
  "demo_git reply = \<lparr>fs_stat = (\<lambda>_ _. NotExist), fs_mkdir_all = (\<lambda>_ d. (None, d)), open_repository = (\<lambda>_ _. None), open_odb = (\<lambda>_ _. None),
     odb_exists = (\<lambda>d _ h. h \<in> set (fst d)), ref_name_valid = (\<lambda>r. r \<noteq> []),
     ref_lookup = (\<lambda>d _ r. map_of (snd d) r), ref_resolve = (\<lambda>_ r. Some r), ref_target = Some,
     oid_text = demo_oid_string,
     run_git_binary = (\<lambda>cmd d.
       if ''upload-pack'' \<in> set (gc_args cmd) then ([Stdout ''PACK''], None, d)
       else if ''origin'' \<in> set (gc_args cmd) then ([Stdout ''ok''], None, (Oid [255] # fst d, snd d))
       else ([Stderr ''fatal''], Some (PlainError ''exit status 1''), d)),
     post_upstream = (\<lambda>_ _. reply)\<rparr>"

definition demo_config :: server_config where
  "demo_config = \<lparr>cfg_root = ''/cache'', cfg_pack_objects_hook = [], cfg_pack_objects_cache = [],
     cfg_error_reporter = True, cfg_request_logger = True, cfg_operation_logger = True\<rparr>"

definition demo_repo :: managed_repo where
  "demo_repo = \<lparr>r_path = ''/cache/github.com/o/r'', r_upstream = ''https://github.com/o/r''\<rparr>"

definition demo_world :: "(oid list \<times> (string \<times> oid) list) world" where
  "demo_world = \<lparr>w_disk = ([Oid [0]], [(''refs/heads/main'', Oid [0])]), w_repos = Map.empty,
     w_once = (\<lambda>_. False), w_last_update = (\<lambda>_. 7),
     w_ops = [], w_stats = [], w_counter = 0\<rparr>"

definition demo_reply :: upstream_reply where
  "demo_reply = Reply 200 ''application/x-git'' [] [\<lparr>rs_response = Some ''ff refs/heads/main'', rs_other = ''L''\<rparr>] None"

lemmas demo_git_simps = demo_git_def demo_config_def demo_repo_def demo_world_def demo_reply_def

section \<open>Properties\<close>

text \<open>
  A fetch can be served locally exactly when the repository opens, every wanted object
  is in its database, and every wanted reference has a valid name, exists and resolves.
\<close>

theorem has_all_wants_iff:
  "fst (has_all_wants L G r hashes refs w) = Inr True \<longleftrightarrow>
     open_repository G (w_disk w) (r_path r) = None \<and> open_odb G (w_disk w) (r_path r) = None \<and>
     (\<forall>h \<in> set hashes. odb_exists G (w_disk w) (r_path r) h) \<and>
     (\<forall>n \<in> set refs. ref_name_valid G n \<and> ref_found G (w_disk w) (r_path r) n)"
  by (simp add: has_all_wants_def wants_check_True)

theorem has_all_wants_iff_witness:
  "fst (has_all_wants plain_status (demo_git demo_reply) demo_repo [Oid [0]] [''refs/heads/main''] demo_world)
     = Inr True"
  using has_all_wants_iff [of plain_status "demo_git demo_reply" demo_repo "[Oid [0]]" "[''refs/heads/main'']" demo_world]
  by (simp add: demo_git_simps ref_found_def)

text \<open>
  The answer of \<open>hasAnyUpdate\<close> does not depend on the order in which Go iterates over
  the map, as long as every name is valid and every reference found has a target.
\<close>

theorem has_any_update_order:
  assumes "open_repository G (w_disk w) (r_path r) = None" and "open_odb G (w_disk w) (r_path r) = None"
    and "list_all (entry_readable G (w_disk w) (r_path r)) refs" and "set refs' = set refs"
  shows "fst (has_any_update L G r refs' w) = fst (has_any_update L G r refs w) \<and>
    fst (has_any_update L G r refs w) =
      Some (Inr (\<exists>e \<in> set refs. entry_new G (w_disk w) (r_path r) e))"
proof -
  have "list_all (entry_readable G (w_disk w) (r_path r)) refs'"
    using assms(3,4) by (simp add: list_all_iff)
  note both = updates_loop_readable [OF this] updates_loop_readable [OF assms(3)]
  with assms show ?thesis
    by (simp add: has_any_update_def Let_def list_ex_iff both)
qed

theorem has_any_update_order_witness:
  "fst (has_any_update plain_status (demo_git demo_reply) demo_repo [(''refs/heads/main'', Oid [255])] demo_world)
     = Some (Inr True)"
  using has_any_update_order [of "demo_git demo_reply" demo_world demo_repo "[(''refs/heads/main'', Oid [255])]"
      "[(''refs/heads/main'', Oid [255])]" plain_status]
  by (simp add: demo_git_simps entry_readable_def entry_new_def lookup_reference_def)

text \<open>
  C9: \<open>fetchUpstream\<close> runs both fetches, whatever the first returns; its result is that
  of the fetch from origin alone, and the time of the last update becomes the start of
  this fetch exactly when that one succeeds.
\<close>

theorem fetch_upstream_outcome:
  assumes "fetch_upstream L G cfg r start_time end_time wants w = (err, w')"
  shows "w_disk w' = fetched_disk G r wants (w_disk w) \<and>
    (err = None \<longleftrightarrow>
       git_error G (fetch_cmd G r ''origin'' wants) (git_disk G (fetch_cmd G r ''all'' wants) (w_disk w)) = None) \<and>
    w_last_update w' = (if err = None then (w_last_update w)(r_path r := unix_of start_time) else w_last_update w)"
  using fetch_upstream_fields [of L G cfg r start_time end_time wants w] fetch_upstream_last [of L G cfg r start_time end_time wants w]
    assms by simp

theorem fetch_upstream_outcome_witness:
  "w_last_update (snd (fetch_upstream plain_status (demo_git demo_reply) demo_config demo_repo (90 * second)
     (91 * second) [] demo_world)) (r_path demo_repo) = 90"
  using fetch_upstream_outcome [OF prod.collapse [symmetric], of plain_status "demo_git demo_reply" demo_config demo_repo
      "90 * second" "91 * second" "[]" demo_world]
  by (simp add: demo_git_simps git_error_def git_disk_def git_in_def fetch_args_def time_defs)

text \<open>A failure of the first fetch is lost: the result is nil and the update time moves.\<close>

theorem fetch_all_error_lost:
  "git_error (demo_git demo_reply) (fetch_cmd (demo_git demo_reply) demo_repo ''all'' []) (w_disk demo_world) \<noteq> None \<and>
   fst (fetch_upstream plain_status (demo_git demo_reply) demo_config demo_repo 0 1 [] demo_world) = None"
  by (simp add: demo_git_simps git_error_def git_disk_def git_in_def fetch_args_def)

text \<open>
  At most one wanted object is named in the command line of a fetch, and none when
  fetching from all remotes, however many objects the client wants.
\<close>

theorem fetch_args_first_want:
  "fetch_args G ''all'' wants = [''fetch'', ''--all''] \<and>
   fetch_args G ''origin'' wants =
     [''fetch'', ''--force'', ''--prune'', ''--no-tags'', ''origin'', ''+refs/heads/*:refs/remotes/origin/*''] @
       map (oid_text G) (take 1 wants)"
  by (cases wants) (simp_all add: fetch_args_def)

text \<open>
  The reference chunks of a successful answer reach the caller unchanged and in order,
  although the scanner reuses its buffer; nothing is written to disk.
\<close>

theorem ls_refs_upstream_ok:
  assumes "post_upstream G (r_upstream r @ ''/git-upload-pack'') (new_git_request W command) =
    Reply 200 ctype body chunks None"
  shows "ls_refs_upstream L W G r h command w =
    (Inr chunks, log_elapsed ''lsRefsUpstream'' (r_path r) (log_stats L ''ls-refs'' None w))"
  by (rule ls_refs_upstream_collected [OF assms])

theorem ls_refs_upstream_ok_witness:
  "fst (ls_refs_upstream plain_status plain_wire (demo_git demo_reply) demo_repo demo_store demo_fetch demo_world)
     = Inr [\<lparr>rs_response = Some ''ff refs/heads/main'', rs_other = ''L''\<rparr>]"
  using ls_refs_upstream_ok [of "demo_git demo_reply" demo_repo plain_wire demo_fetch "''application/x-git''" "[]"
      "[\<lparr>rs_response = Some ''ff refs/heads/main'', rs_other = ''L''\<rparr>]"]
  by (simp add: demo_git_def demo_reply_def)

text \<open>
  On any other status the caller gets an error with the status and, only when the body
  is not plain text, the body: the message of a plain text answer is read once and then
  overwritten by a second read of the drained body.
\<close>

theorem ls_refs_upstream_refused:
  assumes "post_upstream G (r_upstream r @ ''/git-upload-pack'') (new_git_request W command) =
    Reply st ctype body chunks serr" and "st \<noteq> 200"
  shows "fst (ls_refs_upstream L W G r h command w) =
    Inl (PlainError (''got a non-OK response from the upstream: '' @ show_int st @ '' '' @
      (if has_prefix ctype ''text/plain'' then [] else body)))"
  using assms by (simp add: ls_refs_upstream_def read_all_def Let_def)

theorem ls_refs_upstream_refused_witness:
  "fst (ls_refs_upstream plain_status plain_wire (demo_git (Reply 403 ''text/plain'' ''no access'' [] None)) demo_repo
     demo_store demo_fetch demo_world) =
   Inl (PlainError (''got a non-OK response from the upstream: '' @ show_int 403 @ '' ''))"
  using ls_refs_upstream_refused [of "demo_git (Reply 403 ''text/plain'' ''no access'' [] None)" demo_repo plain_wire
      demo_fetch 403 "''text/plain''" "''no access''" "[]" None]
  by (simp add: demo_git_def has_prefix_def)

text \<open>
  C39: serving a fetch leaves the concurrency counter as it was, also at the wrap-around of
  32 bits; when it succeeds the response has grown by exactly what upload-pack printed.
\<close>

theorem serve_fetch_local_effect:
  assumes "serve_fetch_local W G cfg r mon_write command ci_source out w = (err, out', w')"
  shows "w_counter w' = w_counter w \<and> w_last_update w' = w_last_update w \<and>
    (err = None \<longrightarrow> mon_body out' = mon_body out @
       concat (stdout_of (fst (run_git_binary G (serve_cmd W cfg r command ci_source) (w_disk w)))))"
proof -
  obtain e o2 outp d where run: "run_to_writer G mon_write (serve_cmd W cfg r command ci_source) out (w_disk w) =
      (e, o2, outp, d)" by (metis prod_cases4)
  then have "outp = fst (run_git_binary G (serve_cmd W cfg r command ci_source) (w_disk w))"
    by (auto simp: run_to_writer_def split: prod.splits)
  with assms run mon_io.run_to_writer_ok [of G "serve_cmd W cfg r command ci_source" out "w_disk w"] show ?thesis
    by (auto simp: serve_fetch_local_def Let_def)
qed

theorem serve_fetch_local_effect_witness:
  "\<exists>out' w'. serve_fetch_local plain_wire (demo_git demo_reply) demo_config demo_repo mon_write demo_fetch ''ci''
     (sk_w (fresh_sink None)) demo_world = (None, out', w') \<and> mon_body out' = ''PACK'' \<and> w_counter w' = 0"
proof -
  obtain err out' w' where run: "serve_fetch_local plain_wire (demo_git demo_reply) demo_config demo_repo mon_write
      demo_fetch ''ci'' (sk_w (fresh_sink None)) demo_world = (err, out', w')" by (metis prod_cases3)
  have "err = None"
    using run by (auto simp: serve_fetch_local_def run_to_writer_def serve_cmd_def demo_git_simps stdout_of_def
        List.map_filter_def write_packet_def mon_write_def rw_write_def fresh_sink_def monitor_writer_def
        rw_write_header_def Let_def split: prod.splits)
  with serve_fetch_local_effect [OF run] run show ?thesis
    by (simp add: serve_cmd_def demo_git_simps stdout_of_def List.map_filter_def)
qed

text \<open>
  The operation log is well bracketed: a fetch, a collection and a recovery from a
  bundle each log their start, what git printed, and their end with the error they return;
  without a logger they log nothing.
\<close>

theorem operations_bracketed:
  "(\<forall>remote wants. op_bracketed cfg ''FetchUpstream'' (fst (fetch_upstream_internal L G cfg r remote wants w)) w
      (snd (fetch_upstream_internal L G cfg r remote wants w))) \<and>
   op_bracketed cfg ''gitGC'' (fst (run_gc L G cfg r w)) w (snd (run_gc L G cfg r w)) \<and>
   (\<forall>b. op_bracketed cfg ''ReadBundle'' (fst (recover_from_bundle L G cfg r b w)) w
      (snd (recover_from_bundle L G cfg r b w)))"
  by (auto simp: fetch_upstream_internal_def run_gc_def recover_from_bundle_def Let_def
      split: prod.splits intro: bracketed_run_git)

text \<open>
  The statistics of \<open>hasAllWants\<close> say OK whatever it returns, because the error is read
  when the call is deferred.
\<close>

theorem has_all_wants_stat:
  assumes "status_law L"
  shows "w_stats (snd (has_all_wants L G r hashes refs w)) =
    w_stats w @ [OperationTime [''dir:'' @ r_path r, ''op:hasallwants''], OutboundCommand ''hasAllWants'' OK]"
proof -
  have "map lower_byte (map (\<lambda>c. if c = CHR '' '' then CHR ''_'' else c) ''hasAllWants'') = ''hasallwants''"
    by code_simp
  then show ?thesis
    by (simp add: has_all_wants_def log_check_def log_elapsed_def Let_def log_stats_nil [OF assms] del: list.map)
qed

end
