(* ===== verification/Opening.thy ===== *)
theory Opening
  imports Repo Canon
begin

text \<open>
  Opening a managed repository (\<open>getManagedRepo\<close> and \<open>openManagedRepository\<close> of
  \<open>managed_repository.go\<close>): the registry of repositories by local path, and the one-time
  initialisation of the bare repository on disk. The interleavings of concurrent
  openings are the subject of the theory Registry.
\<close>

section \<open>The registry\<close>

text \<open>\<open>log.Fatalf\<close> ends the process.\<close>

datatype 'a process = Exits | Returns 'a

definition get_managed_repo :: "string \<Rightarrow> url \<Rightarrow> 'd world \<Rightarrow> managed_repo \<times> 'd world" where
  "get_managed_repo path u w =
     (case w_repos w path of
        Some m \<Rightarrow> (m, w)
      | None \<Rightarrow>
          let m = \<lparr>r_path = path, r_upstream = url_string u\<rparr>
          in (m, w\<lparr>w_repos := (w_repos w)(path \<mapsto> m)\<rparr>))"

section \<open>Initialisation\<close>

text \<open>\<open>strings.Builder\<close> as a writer.\<close>

definition builder_write :: "bytes io_write" where
  "builder_write b s = (length b, None, s @ b)"

definition init_commands :: "string \<Rightarrow> string \<Rightarrow> string list list" where
  "init_commands user_agent upstream =
     [[''init'', ''--bare''],
      [''config'', ''protocol.version'', ''2''],
      [''config'', ''uploadpack.allowfilter'', ''1''],
      [''config'', ''uploadpack.allowrefinwant'', ''1''],
      [''config'', ''repack.writebitmaps'', ''1''],
      [''config'', ''http.userAgent'', user_agent],
      [''config'', ''http.version'', ''HTTP/2''],
      [''remote'', ''add'', ''--mirror=fetch'', ''origin'', upstream]]"

definition user_agent_of :: "bytes \<Rightarrow> string" where
  "user_agent_of out = ''git/'' @ trim_prefix (trim_space out) ''git version '' @ '' goblet/1.0''"

text \<open>
  The body of \<open>m.once.Do\<close>. The errors of the git commands are not looked at. \<open>u\<close> is the
  URL of this opening.
\<close>

definition init_repository ::
  "status_lib \<Rightarrow> ('d, 'r) git_lib \<Rightarrow> string \<Rightarrow> url \<Rightarrow> 'd world \<Rightarrow> 'd world process" where
  "init_repository L G path u w =
     (case fs_stat G (w_disk w) path of
        StatFailed _ \<Rightarrow> Exits
      | Exists \<Rightarrow> Returns w
      | NotExist \<Rightarrow>
          (case fs_mkdir_all G path (w_disk w) of
             (Some _, _) \<Rightarrow> Exits
           | (None, d) \<Rightarrow>
               let (_, version, w1) =
                     run_git_with_stdout L G False builder_write [] path [''--version''] (w\<lparr>w_disk := d\<rparr>)
               in Returns (fold (\<lambda>args w. snd (run_git L G False path args w))
                    (init_commands (user_agent_of version) (url_string u)) w1)))"

definition once_do ::
  "string \<Rightarrow> ('d world \<Rightarrow> 'd world process) \<Rightarrow> 'd world \<Rightarrow> 'd world process" where
  "once_do path f w =
     (if w_once w path then Returns w
      else (case f w of
              Exits \<Rightarrow> Exits
            | Returns w' \<Rightarrow> Returns (w'\<lparr>w_once := (w_once w')(path := True)\<rparr>)))"

definition open_managed_repository ::
  "status_lib \<Rightarrow> ('d, 'r) git_lib \<Rightarrow> server_config \<Rightarrow> canonicalizer \<Rightarrow> url \<Rightarrow> 'd world \<Rightarrow>
     ((go_error + managed_repo) \<times> 'd world) process" where
  "open_managed_repository L G cfg canon u w =
     (case canon u of
        Inl e \<Rightarrow> Returns (Inl e, w)
      | Inr v \<Rightarrow>
          let path = local_disk_path (cfg_root cfg) v;
              (m, w1) = get_managed_repo path v w
          in (case once_do path (init_repository L G path v) w1 of
                Exits \<Rightarrow> Exits
              | Returns w2 \<Rightarrow> Returns (Inr m, w2)))"

section \<open>Lemmas\<close>

interpretation builder: byte_writer builder_write "\<lambda>s. s"
proof unfold_locales
  fix bs w n err w'
  show "builder_write bs w = (n, None, w') \<Longrightarrow> w' = w @ bs"
    by (simp add: builder_write_def)
  show "builder_write bs w = (n, err, w') \<Longrightarrow> \<exists>k. w' = w @ take k bs"
    by (intro exI [of _ "length bs"]) (simp add: builder_write_def)
qed

lemma run_git_with_stdout_fields [effect_simps, simp]:
  "w_disk (snd (snd (run_git_with_stdout L G op wr out dir args w))) = git_disk G (git_in dir args) (w_disk w)"
  "w_repos (snd (snd (run_git_with_stdout L G op wr out dir args w))) = w_repos w"
  "w_once (snd (snd (run_git_with_stdout L G op wr out dir args w))) = w_once w"
  "w_last_update (snd (snd (run_git_with_stdout L G op wr out dir args w))) = w_last_update w"
  by (simp_all add: run_git_with_stdout_def run_to_writer_def git_disk_def split_beta)

lemma init_fold_fields:
  "w_disk (fold (\<lambda>args w. snd (run_git L G op dir args w)) cmds w) =
     fold (git_disk G) (map (git_in dir) cmds) (w_disk w)"
  "w_repos (fold (\<lambda>args w. snd (run_git L G op dir args w)) cmds w) = w_repos w"
  "w_once (fold (\<lambda>args w. snd (run_git L G op dir args w)) cmds w) = w_once w"
  "w_last_update (fold (\<lambda>args w. snd (run_git L G op dir args w)) cmds w) = w_last_update w"
  by (induction cmds arbitrary: w) simp_all

lemma init_repository_fields:
  assumes "init_repository L G path u w = Returns w'"
  shows "w_repos w' = w_repos w" and "w_once w' = w_once w" and "w_last_update w' = w_last_update w"
  using assms
  by (auto simp: init_repository_def init_fold_fields Let_def split_beta
      split: stat_result.splits option.splits)

lemma open_canonical:
  assumes "canon u = Inr v" and "get_managed_repo (local_disk_path (cfg_root cfg) v) v w = (m, w1)"
    and "once_do (local_disk_path (cfg_root cfg) v) (init_repository L G (local_disk_path (cfg_root cfg) v) v) w1 =
      Returns w2"
  shows "open_managed_repository L G cfg canon u w = Returns (Inr m, w2)"
  using assms by (simp add: open_managed_repository_def)

text \<open>The registry is consistent: a repository is stored under its own path.\<close>

definition registry_ok :: "'d world \<Rightarrow> bool" where
  "registry_ok w \<longleftrightarrow> (\<forall>path m. w_repos w path = Some m \<longrightarrow> r_path m = path)"

lemma get_managed_repo_ok:
  assumes "get_managed_repo path u w = (m, w')" and "registry_ok w"
  shows "registry_ok w'" and "r_path m = path" and "w_repos w' path = Some m"
    and "w_once w' = w_once w" and "w_disk w' = w_disk w" and "w_last_update w' = w_last_update w"
    and "\<And>p. p \<noteq> path \<Longrightarrow> w_repos w' p = w_repos w p"
  using assms by (auto simp: get_managed_repo_def registry_ok_def Let_def split: option.splits if_splits)

lemma once_do_fields:
  assumes "once_do path (init_repository L G path u) w = Returns w'"
  shows "w_repos w' = w_repos w" and "w_once w' = (w_once w)(path := True)" and "w_last_update w' = w_last_update w"
  using assms init_repository_fields [of L G path u w]
  by (auto simp: once_do_def fun_eq_iff split: if_splits process.splits)

section \<open>Properties\<close>

text \<open>
  Opening keeps the registry consistent and gives a repository whose directory is the
  one of its canonical URL; a second opening of any URL with the same directory gives the
  same repository and changes nothing, so the initialisation runs once.
\<close>

theorem open_idempotent:
  assumes "registry_ok w" and "open_managed_repository L G cfg canon u w = Returns (Inr m, w1)"
    and "canon u = Inr v" and "canon u' = Inr v'"
    and "local_disk_path (cfg_root cfg) v' = local_disk_path (cfg_root cfg) v"
  shows "registry_ok w1 \<and> r_path m = local_disk_path (cfg_root cfg) v \<and>
    open_managed_repository L G cfg canon u' w1 = Returns (Inr m, w1)"
proof -
  let ?path = "local_disk_path (cfg_root cfg) v"
  obtain w0 where get: "get_managed_repo ?path v w = (m, w0)"
    and once: "once_do ?path (init_repository L G ?path v) w0 = Returns w1"
    using assms(2,3) by (auto simp: open_managed_repository_def Let_def split: prod.splits process.splits)
  note ok = get_managed_repo_ok [OF get assms(1)]
  have "w_repos w1 ?path = Some m" and "w_once w1 ?path"
    using once_do_fields [OF once] ok by simp_all
  moreover have "registry_ok w1"
    using once_do_fields(1) [OF once] ok(1) by (simp add: registry_ok_def)
  ultimately show ?thesis
    using assms(4,5) ok(2) by (simp add: open_managed_repository_def get_managed_repo_def once_do_def)
qed

text \<open>The world after opening one repository of the concrete git.\<close>

definition opened_world :: "(oid list \<times> (string \<times> oid) list) world" where
  "opened_world =
     (case open_managed_repository plain_status (demo_git demo_reply) demo_config (github_url_canonicalizer id)
        (https_url ''github.com'' ''/o/r'') demo_world of Returns (_, w) \<Rightarrow> w | Exits \<Rightarrow> demo_world)"

lemma demo_canon:
  "github_url_canonicalizer id (https_url ''github.com'' ''/o/r'') = Inr (https_url ''github.com'' ''/o/r'')"
  by code_simp

lemma demo_open:
  "\<exists>m. open_managed_repository plain_status (demo_git demo_reply) demo_config (github_url_canonicalizer id)
     (https_url ''github.com'' ''/o/r'') demo_world = Returns (Inr m, opened_world)"
proof -
  have "fs_stat (demo_git demo_reply) d p = NotExist" and "fs_mkdir_all (demo_git demo_reply) p d = (None, d)" for d p
    by (simp_all add: demo_git_def)
  then have "\<exists>w'. once_do p (init_repository plain_status (demo_git demo_reply) p u) w = Returns w'" for p u w
    by (auto simp: once_do_def init_repository_def Let_def split_beta)
  moreover obtain m w0 where "get_managed_repo (local_disk_path (cfg_root demo_config) (https_url ''github.com'' ''/o/r''))
      (https_url ''github.com'' ''/o/r'') demo_world = (m, w0)" by fastforce
  ultimately obtain w' where "open_managed_repository plain_status (demo_git demo_reply) demo_config
      (github_url_canonicalizer id) (https_url ''github.com'' ''/o/r'') demo_world = Returns (Inr m, w')"
    by (metis (no_types, lifting) open_canonical demo_canon)
  then show ?thesis by (simp add: opened_world_def)
qed

theorem open_idempotent_witness:
  "\<exists>m. open_managed_repository plain_status (demo_git demo_reply) demo_config (github_url_canonicalizer id)
     (https_url ''github.com'' ''/o/r'') opened_world = Returns (Inr m, opened_world)"
proof -
  obtain m where m: "open_managed_repository plain_status (demo_git demo_reply) demo_config
      (github_url_canonicalizer id) (https_url ''github.com'' ''/o/r'') demo_world = Returns (Inr m, opened_world)"
    using demo_open by blast
  have "registry_ok demo_world" by (simp add: registry_ok_def demo_world_def)
  from open_idempotent [OF this m demo_canon demo_canon refl] show ?thesis by blast
qed

text \<open>
  Opening a repository whose directory does not exist creates it and runs, in this
  directory and in this order, \<open>git --version\<close>, \<open>git init --bare\<close>, the configuration and the
  registration of the upstream URL, and nothing else.
\<close>

theorem open_fresh_commands:
  assumes "canon u = Inr v" and "local_disk_path (cfg_root cfg) v = path" and "\<not> w_once w path"
    and "fs_stat G (w_disk w) path = NotExist" and "fs_mkdir_all G path (w_disk w) = (None, d)"
    and "w_repos w path = None"
  shows "\<exists>w' agent. open_managed_repository L G cfg canon u w =
      Returns (Inr \<lparr>r_path = path, r_upstream = url_string v\<rparr>, w') \<and>
    w_disk w' = fold (git_disk G)
      (map (git_in path) ([''--version''] # init_commands agent (url_string v))) d"
  using assms
  by (simp add: open_managed_repository_def get_managed_repo_def once_do_def init_repository_def Let_def
      split_beta init_fold_fields) blast

theorem open_fresh_commands_witness:
  "\<exists>m w' agent. open_managed_repository plain_status (demo_git demo_reply) demo_config
      (github_url_canonicalizer id) (https_url ''github.com'' ''/o/r'') demo_world = Returns (Inr m, w') \<and>
    w_disk w' = fold (git_disk (demo_git demo_reply))
      (map (git_in ''/cache/github.com/o/r'') ([''--version''] # init_commands agent ''https://github.com/o/r''))
      (w_disk demo_world)"
proof -
  have "local_disk_path (cfg_root demo_config) (https_url ''github.com'' ''/o/r'') = ''/cache/github.com/o/r''"
    and "url_string (https_url ''github.com'' ''/o/r'') = ''https://github.com/o/r''"
    by code_simp+
  then show ?thesis
    using open_fresh_commands [where canon = "github_url_canonicalizer id"
        and u = "https_url ''github.com'' ''/o/r''", OF demo_canon,
        of demo_config "''/cache/github.com/o/r''" demo_world "demo_git demo_reply" "w_disk demo_world" plain_status]
    by (auto simp: demo_git_def demo_world_def)
qed

end
