(* ===== verification/Handler.thy ===== *)
theory Handler
  imports Opening
begin

text \<open>
  The command handler \<open>handleV2Command\<close> (\<open>git_protocol_v2_handler.go\<close>). It is given the
  reporter and the response writer as the Go code is given the interface values, so both
  are arguments here; the theory Server passes the ones of \<open>reporting.go\<close>.
\<close>

section \<open>Tags\<close>

text \<open>
  \<open>tag.New\<close> with one mutator: an error, or the context with the tag. The tag library is an
  argument; \<open>tag_law\<close> is its documented behaviour on a value it accepts.
\<close>

datatype tag_key = CommandTypeKey | CommandCacheStateKey
datatype tag_op = TagInsert tag_key string | TagUpsert tag_key string | TagUpdate tag_key string

type_synonym tag_lib = "tag_op \<Rightarrow> cmd_tags \<Rightarrow> go_error option \<times> cmd_tags"

definition set_tag :: "tag_key \<Rightarrow> string \<Rightarrow> cmd_tags \<Rightarrow> cmd_tags" where
  "set_tag k v t =
     (case k of CommandTypeKey \<Rightarrow> t\<lparr>tg_type := Some v\<rparr> | CommandCacheStateKey \<Rightarrow> t\<lparr>tg_cache := Some v\<rparr>)"

definition get_tag :: "tag_key \<Rightarrow> cmd_tags \<Rightarrow> string option" where
  "get_tag k t = (case k of CommandTypeKey \<Rightarrow> tg_type t | CommandCacheStateKey \<Rightarrow> tg_cache t)"

text \<open>Insert keeps a value that is there, update needs one, upsert does not care.\<close>

definition tag_law :: "(string \<Rightarrow> bool) \<Rightarrow> tag_lib \<Rightarrow> bool" where
  "tag_law accepted T \<longleftrightarrow> (\<forall>k v t. accepted v \<longrightarrow>
     T (TagUpsert k v) t = (None, set_tag k v t) \<and>
     T (TagUpdate k v) t = (None, if get_tag k t = None then t else set_tag k v t) \<and>
     T (TagInsert k v) t = (None, if get_tag k t = None then set_tag k v t else t))"

section \<open>handleV2Command\<close>

text \<open>
  What a run depends on beyond its arguments: what other requests and background tasks
  do to the world while this one waits (at point 0 for the worker of the fetch pool, at 1
  for the lock of the repository, at 2 before the check after the fetch, at 3 for the
  worker of the serving pool), the error of the context if the client has gone when it is
  looked at, the instants around an upstream fetch, and the store.
\<close>

record 'd run_env =
  env_at :: "nat \<Rightarrow> 'd world \<Rightarrow> 'd world"
  ctx_err :: "go_error option"
  fetch_start :: time
  fetch_end :: time
  env_store :: store

text \<open>The libraries and the configuration, which no operation changes.\<close>

record ('d, 'r) libs =
  lib_status :: status_lib
  lib_wire :: wire_lib
  lib_git :: "('d, 'r) git_lib"
  lib_tag :: tag_lib
  lib_new_oid :: "string \<Rightarrow> oid option"
  lib_lower :: "string \<Rightarrow> string"

type_synonym 's reporter = "cmd_tags \<Rightarrow> go_error option \<Rightarrow> 's \<Rightarrow> 's"

text \<open>The task given to the fetch pool: check again, fetch if something is still missing.\<close>

definition fetch_task ::
  "('d, 'r) libs \<Rightarrow> server_config \<Rightarrow> 'd run_env \<Rightarrow> managed_repo \<Rightarrow> oid list \<Rightarrow> string list \<Rightarrow>
     'd world \<Rightarrow> 'd world" where
  "fetch_task X cfg E r hashes refs w =
     (let w0 = log_elapsed ''FetchUpstream queuing'' (r_path r) (env_at E 0 w);
          (check, w1) = has_all_wants (lib_status X) (lib_git X) r hashes refs w0
      in case check of
           Inr False \<Rightarrow>
             let w2 = count_operation (r_path r) [''op:ondemand_fetch'', ''triggered_by:hasallwants''] w1
             in snd (fetch_upstream (lib_status X) (lib_git X) cfg r (fetch_start E) (fetch_end E)
                  hashes (env_at E 1 w2))
         | _ \<Rightarrow> w1)"

text \<open>The last part of a fetch: the task of the serving pool, and the report.\<close>

definition serve_task ::
  "('d, 'r) libs \<Rightarrow> server_config \<Rightarrow> 'd run_env \<Rightarrow> 's reporter \<Rightarrow> 's io_write \<Rightarrow> managed_repo \<Rightarrow>
     bytes req_chunk list \<Rightarrow> string \<Rightarrow> cmd_tags \<Rightarrow> 's \<Rightarrow> 'd world \<Rightarrow> bool \<times> 's \<times> 'd world" where
  "serve_task X cfg E report wr r command ci_source tags s w =
     (let w0 = log_elapsed ''ServeFetchLocal queuing'' (r_path r) (env_at E 3 w);
          (err, s', w') = serve_fetch_local (lib_wire X) (lib_git X) cfg r wr command ci_source s w0
      in (err = None, report tags err s', w'))"

definition handle_fetch ::
  "('d, 'r) libs \<Rightarrow> server_config \<Rightarrow> 'd run_env \<Rightarrow> 's reporter \<Rightarrow> 's io_write \<Rightarrow> managed_repo \<Rightarrow>
     bytes req_chunk list \<Rightarrow> string \<Rightarrow> cmd_tags \<Rightarrow> 's \<Rightarrow> 'd world \<Rightarrow> bool \<times> 's \<times> 'd world" where
  "handle_fetch X cfg E report wr r command ci_source tags s w =
     (case parse_fetch_wants (lib_new_oid X) command of
        Inl e \<Rightarrow> (False, report tags (Some e) s, w)
      | Inr (hashes, refs) \<Rightarrow>
          let (check, w1) = has_all_wants (lib_status X) (lib_git X) r hashes refs w in
          (case check of
             Inl e \<Rightarrow> (False, report tags (Some e) s, w1)
           | Inr True \<Rightarrow> serve_task X cfg E report wr r command ci_source tags s w1
           | Inr False \<Rightarrow>
               (case lib_tag X (TagUpdate CommandCacheStateKey ''queried-upsteam'') tags of
                  (Some e, tags') \<Rightarrow> (False, report tags' (Some e) s, w1)
                | (None, tags') \<Rightarrow>
                    let w2 = env_at E 2 (fetch_task X cfg E r hashes refs w1) in
                    (case ctx_err E of
                       Some e \<Rightarrow> (False, report tags' (Some e) s, w2)
                     | None \<Rightarrow>
                         let (check', w3) = has_all_wants (lib_status X) (lib_git X) r hashes refs w2 in
                         (case check' of
                            Inl e \<Rightarrow> (False, report tags' (Some e) s, w3)
                          | Inr False \<Rightarrow> (False, report tags' None s, w3)
                          | Inr True \<Rightarrow> serve_task X cfg E report wr r command ci_source tags' s
                              (record_stat (UpstreamFetchWaited tags') w3))))))"

definition handle_ls_refs ::
  "('d, 'r) libs \<Rightarrow> 'd run_env \<Rightarrow> 's reporter \<Rightarrow> 's io_write \<Rightarrow> managed_repo \<Rightarrow>
     bytes req_chunk list \<Rightarrow> cmd_tags \<Rightarrow> 's \<Rightarrow> 'd world \<Rightarrow> bool \<times> 's \<times> 'd world" where
  "handle_ls_refs X E report wr r command tags s w =
     (case lib_tag X (TagUpdate CommandCacheStateKey ''queried-upstream'') tags of
        (Some e, tags') \<Rightarrow> (False, report tags' (Some e) s, w)
      | (None, tags') \<Rightarrow>
          (case ls_refs_upstream (lib_status X) (lib_wire X) (lib_git X) r (env_store E) command w of
             (Inl e, w') \<Rightarrow> (False, report tags' (Some e) s, w')
           | (Inr resp, w') \<Rightarrow> (True, report tags' None (snd (write_resp (lib_wire X) wr resp s)), w')))"

text \<open>\<open>None\<close>: the panic of \<open>command[0]\<close> on an empty command.\<close>

definition handle_v2_command ::
  "('d, 'r) libs \<Rightarrow> server_config \<Rightarrow> 'd run_env \<Rightarrow> 's reporter \<Rightarrow> 's io_write \<Rightarrow> managed_repo \<Rightarrow>
     bytes req_chunk list \<Rightarrow> string \<Rightarrow> cmd_tags \<Rightarrow> 's \<Rightarrow> 'd world \<Rightarrow> (bool \<times> 's \<times> 'd world) option" where
  "handle_v2_command X cfg E report wr r command ci_source tags s w =
     (case command of
        [] \<Rightarrow> None
      | c # _ \<Rightarrow>
          (case lib_tag X (TagUpsert CommandTypeKey (rc_command c)) tags of
             (Some e, tags1) \<Rightarrow> Some (False, report tags1 (Some e) s, w)
           | (None, tags1) \<Rightarrow>
               (case lib_tag X (TagUpsert CommandCacheStateKey ''locally-served'') tags1 of
                  (Some e, tags2) \<Rightarrow> Some (False, report tags2 (Some e) s, w)
                | (None, tags2) \<Rightarrow>
                    Some (if rc_command c = ''ls-refs'' then
                            handle_ls_refs X E report wr r command tags2 s w
                          else if rc_command c = ''fetch'' then
                            handle_fetch X cfg E report wr r command ci_source tags2 s w
                          else (False, report tags2
                                  (Some (StatusError InvalidArgument ''unknown command'')) s, w)))))"

section \<open>One report per command\<close>

text \<open>
  The reporter and the writer of a request act on one output: writing leaves the
  recorded codes alone. What follows holds for every such output.
\<close>

definition one_more ::
  "bool \<Rightarrow> (cmd_tags \<times> code) list \<Rightarrow> (cmd_tags \<times> code) list \<Rightarrow> (go_error option \<Rightarrow> code) \<Rightarrow> bool" where
  "one_more ok xs ys code_of \<longleftrightarrow> (\<exists>tags e. ys = xs @ [(tags, code_of e)] \<and> (ok \<longrightarrow> e = None))"

locale command_output = git_reporter report stats body code_of + byte_writer wr body
  for report :: "'s reporter" and stats :: "'s \<Rightarrow> (cmd_tags \<times> code) list" and body :: "'s \<Rightarrow> bytes"
    and code_of :: "go_error option \<Rightarrow> code" and wr :: "'s io_write" +
  assumes write_stats: "stats (snd (snd (wr b s))) = stats s"
begin

lemma write_packet_stats: "stats (snd (write_packet wr b s)) = stats s"
  using write_stats by (simp add: write_packet_def split: prod.splits) (metis snd_conv)

lemma write_resp_stats: "stats (snd (write_resp W wr cs s)) = stats s"
proof (induction cs arbitrary: s)
  case (Cons c cs)
  then show ?case
    using write_packet_stats [of "encode_resp W c" s] by (auto split: prod.splits option.splits)
qed simp

lemma copy_out_stats: "stats (snd (copy_out wr bs s)) = stats s"
proof (induction bs arbitrary: s)
  case (Cons b bs)
  then show ?case
    using write_packet_stats [of b s] by (auto split: prod.splits option.splits)
qed simp

lemma serve_fetch_stats:
  "stats (fst (snd (serve_fetch_local W G cfg r wr command ci s w))) = stats s"
  using copy_out_stats by (simp add: serve_fetch_local_def run_to_writer_def Let_def split_beta)

abbreviation (input) reported_once :: "'s \<Rightarrow> bool \<times> 's \<times> 'd world \<Rightarrow> bool" where
  "reported_once s res \<equiv> one_more (fst res) (stats s) (stats (fst (snd res))) code_of"

lemma report_once:
  "stats s1 = stats s \<Longrightarrow> (ok \<Longrightarrow> e = None) \<Longrightarrow> one_more ok (stats s) (stats (report tags e s1)) code_of"
  by (auto simp: one_more_def report_stats)

lemma serve_task_once: "reported_once s (serve_task X cfg E report wr r command ci tags s w)"
  by (auto simp: serve_task_def Let_def split_beta intro: report_once serve_fetch_stats)

lemma handle_fetch_once: "reported_once s (handle_fetch X cfg E report wr r command ci tags s w)"
  by (auto simp: handle_fetch_def Let_def split_beta report_once serve_task_once
      split: sum.splits option.splits bool.splits)

lemma handle_ls_refs_once: "reported_once s (handle_ls_refs X E report wr r command tags s w)"
  by (auto simp: handle_ls_refs_def report_once write_resp_stats split: sum.splits option.splits prod.splits)

lemma handle_v2_once:
  "handle_v2_command X cfg E report wr r command ci tags s w = Some res \<Longrightarrow> reported_once s res"
  by (auto simp: handle_v2_command_def report_once handle_fetch_once handle_ls_refs_once
      split: list.splits option.splits prod.splits if_splits)

end

text \<open>The output of an HTTP request: the git reporter, and the monitored response writer.\<close>

definition sink_write :: "sink io_write" where
  "sink_write bs s = (case mon_write bs (sk_w s) of (n, e, w') \<Rightarrow> (n, e, s\<lparr>sk_w := w'\<rparr>))"

interpretation http_out: command_output "git_report_error L W has_rep" sk_stats
    "\<lambda>s. rw_body (mw_w (sk_w s))" "\<lambda>e. fst (status_or_internal L e)" sink_write for L W has_rep
proof unfold_locales
  fix bs s n err s'
  show "sink_write bs s = (n, None, s') \<Longrightarrow> sink_body s' = sink_body s @ bs"
    using mon_io.write_ok by (auto simp: sink_write_def split: prod.splits)
  show "sink_write bs s = (n, err, s') \<Longrightarrow> \<exists>k. sink_body s' = sink_body s @ take k bs"
    using mon_io.write_part by (auto simp: sink_write_def split: prod.splits)
  show "sk_stats (snd (snd (sink_write bs s))) = sk_stats s"
    by (simp add: sink_write_def split: prod.splits)
qed

abbreviation sink_unlimited :: "sink \<Rightarrow> bool" where
  "sink_unlimited s \<equiv> rw_capacity (mw_w (sk_w s)) = None"

lemma sink_write_unlimited:
  assumes "sink_unlimited s"
  shows "\<exists>s'. sink_write bs s = (length bs, None, s') \<and> sink_unlimited s'"
  using mon_write_unlimited [of "sk_w s" bs] assms by (fastforce simp: sink_write_def)

lemma write_packet_unlimited:
  assumes "sink_unlimited s"
  shows "\<exists>s'. write_packet sink_write bs s = (None, s') \<and> sink_unlimited s'"
  using sink_write_unlimited [OF assms, of bs] by (auto simp: write_packet_def)

lemma copy_out_unlimited:
  "sink_unlimited s \<Longrightarrow> \<exists>s'. copy_out sink_write bs s = (None, s') \<and> sink_unlimited s'"
proof (induction bs arbitrary: s)
  case (Cons b bs)
  obtain s1 where "write_packet sink_write b s = (None, s1)" and "sink_unlimited s1"
    using write_packet_unlimited [OF Cons.prems] by blast
  with Cons.IH show ?case by simp
qed simp

lemma write_resp_unlimited:
  "sink_unlimited s \<Longrightarrow> \<exists>s'. write_resp W sink_write cs s = (None, s') \<and> sink_unlimited s'"
proof (induction cs arbitrary: s)
  case (Cons c cs)
  obtain s1 where "write_packet sink_write (encode_resp W c) s = (None, s1)" and "sink_unlimited s1"
    using write_packet_unlimited [OF Cons.prems] by blast
  with Cons.IH show ?case by simp
qed simp

section \<open>Lemmas on one command\<close>

definition used_tags :: "string set" where
  "used_tags = {''locally-served'', ''queried-upsteam'', ''queried-upstream'', ''ls-refs'', ''fetch'', ''not-a-command''}"

abbreviation tags_ok :: "('d, 'r) libs \<Rightarrow> bool" where
  "tags_ok X \<equiv> tag_law (\<lambda>v. v \<in> used_tags) (lib_tag X)"

definition cmd_tags_of :: "string \<Rightarrow> string \<Rightarrow> cmd_tags \<Rightarrow> cmd_tags" where
  "cmd_tags_of command cache t = t\<lparr>tg_type := Some command, tg_cache := Some cache\<rparr>"

lemma tag_steps:
  assumes "tags_ok X" and "v \<in> used_tags"
  shows "lib_tag X (TagUpsert CommandTypeKey v) t = (None, t\<lparr>tg_type := Some v\<rparr>)"
    and "lib_tag X (TagUpsert CommandCacheStateKey v) t = (None, t\<lparr>tg_cache := Some v\<rparr>)"
    and "tg_cache t \<noteq> None \<Longrightarrow> lib_tag X (TagUpdate CommandCacheStateKey v) t = (None, t\<lparr>tg_cache := Some v\<rparr>)"
  using assms by (auto simp: tag_law_def set_tag_def get_tag_def)

lemma handle_v2_fetch:
  assumes "tags_ok X" and "command \<noteq> []" and "rc_command (hd command) = ''fetch''"
  shows "handle_v2_command X cfg E report wr r command ci tags s w =
    Some (handle_fetch X cfg E report wr r command ci (cmd_tags_of ''fetch'' ''locally-served'' tags) s w)"
  using assms tag_steps [OF assms(1)]
  by (cases command) (simp_all add: handle_v2_command_def cmd_tags_of_def used_tags_def)

lemma handle_v2_ls_refs:
  assumes "tags_ok X" and "command \<noteq> []" and "rc_command (hd command) = ''ls-refs''"
  shows "handle_v2_command X cfg E report wr r command ci tags s w =
    Some (handle_ls_refs X E report wr r command (cmd_tags_of ''ls-refs'' ''locally-served'' tags) s w)"
  using assms tag_steps [OF assms(1)]
  by (cases command) (simp_all add: handle_v2_command_def cmd_tags_of_def used_tags_def)

lemma cmd_tags_update:
  "tags_ok X \<Longrightarrow> v \<in> used_tags \<Longrightarrow>
     lib_tag X (TagUpdate CommandCacheStateKey v) (cmd_tags_of c old t) = (None, cmd_tags_of c v t)"
  using tag_steps(3) [of X v "cmd_tags_of c old t"] by (simp add: cmd_tags_of_def)

text \<open>The world in which the wants are looked at again after the fetch.\<close>

definition after_fetch ::
  "('d, 'r) libs \<Rightarrow> server_config \<Rightarrow> 'd run_env \<Rightarrow> managed_repo \<Rightarrow> oid list \<Rightarrow> string list \<Rightarrow> 'd world \<Rightarrow> 'd world" where
  "after_fetch X cfg E r hashes refs w =
     env_at E 2 (fetch_task X cfg E r hashes refs (snd (has_all_wants (lib_status X) (lib_git X) r hashes refs w)))"

abbreviation wants_ok :: "('d, 'r) libs \<Rightarrow> managed_repo \<Rightarrow> oid list \<Rightarrow> string list \<Rightarrow> 'd world \<Rightarrow> go_error + bool" where
  "wants_ok X r hashes refs w \<equiv> wants_check (lib_status X) (lib_git X) (w_disk w) (r_path r) hashes refs"

lemma has_all_wants_fst [simp]: "fst (has_all_wants L G r hs rs w) = wants_check L G (w_disk w) (r_path r) hs rs"
  by (simp add: has_all_wants_def)

lemma has_all_wants_snd [simp]: "snd (has_all_wants L G r hs rs w) = log_check L ''hasAllWants'' r w"
  by (simp add: has_all_wants_def)

lemma after_fetch_quiet:
  assumes "wants_ok X r hashes refs w = Inr False" and "env_at E = (\<lambda>_ v. v)"
  shows "w_disk (after_fetch X cfg E r hashes refs w) = fetched_disk (lib_git X) r hashes (w_disk w)"
  using assms by (simp add: after_fetch_def fetch_task_def has_all_wants_def)

lemma handle_fetch_local:
  assumes "parse_fetch_wants (lib_new_oid X) command = Inr (hashes, refs)" and "wants_ok X r hashes refs w = Inr True"
  shows "handle_fetch X cfg E report wr r command ci tags s w =
    serve_task X cfg E report wr r command ci tags s (log_check (lib_status X) ''hasAllWants'' r w)"
  using assms by (simp add: handle_fetch_def has_all_wants_def)

text \<open>What is left of a fetch once something is missing and the tag is set.\<close>

definition after_miss ::
  "('d, 'r) libs \<Rightarrow> server_config \<Rightarrow> 'd run_env \<Rightarrow> 's reporter \<Rightarrow> 's io_write \<Rightarrow> managed_repo \<Rightarrow>
     bytes req_chunk list \<Rightarrow> string \<Rightarrow> oid list \<Rightarrow> string list \<Rightarrow> cmd_tags \<Rightarrow> 's \<Rightarrow> 'd world \<Rightarrow>
     bool \<times> 's \<times> 'd world" where
  "after_miss X cfg E report wr r command ci hashes refs tags s w2 =
     (case ctx_err E of
        Some e \<Rightarrow> (False, report tags (Some e) s, w2)
      | None \<Rightarrow>
          (case wants_ok X r hashes refs w2 of
             Inl e \<Rightarrow> (False, report tags (Some e) s, log_check (lib_status X) ''hasAllWants'' r w2)
           | Inr True \<Rightarrow> serve_task X cfg E report wr r command ci tags s
               (record_stat (UpstreamFetchWaited tags) (log_check (lib_status X) ''hasAllWants'' r w2))
           | Inr False \<Rightarrow> (False, report tags None s, log_check (lib_status X) ''hasAllWants'' r w2)))"

lemma handle_fetch_update:
  assumes "parse_fetch_wants (lib_new_oid X) command = Inr (hashes, refs)"
    and "wants_ok X r hashes refs w = Inr False"
  shows "handle_fetch X cfg E report wr r command ci tags s w =
    (case lib_tag X (TagUpdate CommandCacheStateKey ''queried-upsteam'') tags of
       (Some e, tags') \<Rightarrow> (False, report tags' (Some e) s, log_check (lib_status X) ''hasAllWants'' r w)
     | (None, tags') \<Rightarrow> after_miss X cfg E report wr r command ci hashes refs tags' s
         (after_fetch X cfg E r hashes refs w))"
  using assms
  by (simp add: handle_fetch_def has_all_wants_def after_fetch_def after_miss_def Let_def
      split: option.split sum.split bool.split prod.split)

lemma handle_fetch_miss:
  assumes "tags_ok X" and "parse_fetch_wants (lib_new_oid X) command = Inr (hashes, refs)"
    and "wants_ok X r hashes refs w = Inr False"
  shows "handle_fetch X cfg E report wr r command ci (cmd_tags_of c old t) s w =
    after_miss X cfg E report wr r command ci hashes refs (cmd_tags_of c ''queried-upsteam'' t) s
      (after_fetch X cfg E r hashes refs w)"
proof -
  have "''queried-upsteam'' \<in> used_tags" by (simp add: used_tags_def)
  from cmd_tags_update [OF assms(1) this] show ?thesis
    by (simp add: handle_fetch_update [OF assms(2,3)])
qed

lemma after_miss_served:
  assumes "after_miss X cfg E report wr r command ci hashes refs tags s w = (True, s', w')"
  shows "wants_ok X r hashes refs w = Inr True"
    and "serve_task X cfg E report wr r command ci tags s
      (record_stat (UpstreamFetchWaited tags) (log_check (lib_status X) ''hasAllWants'' r w)) = (True, s', w')"
  using assms by (auto simp: after_miss_def split: option.splits sum.splits bool.splits)

lemma serve_task_result:
  assumes "serve_task X cfg E report wr r command ci tags s w = (ok, s', w')"
  shows "ok \<longleftrightarrow> fst (run_to_writer (lib_git X) wr (serve_cmd (lib_wire X) cfg r command ci) s
      (w_disk (env_at E 3 w))) = None"
    and "w_disk w' = git_disk (lib_git X) (serve_cmd (lib_wire X) cfg r command ci) (w_disk (env_at E 3 w))"
    and "w_last_update w' = w_last_update (env_at E 3 w)"
proof -
  obtain e s1 outp d where run: "run_to_writer (lib_git X) wr (serve_cmd (lib_wire X) cfg r command ci) s
      (w_disk (env_at E 3 w)) = (e, s1, outp, d)" by (metis prod_cases4)
  then have d: "d = git_disk (lib_git X) (serve_cmd (lib_wire X) cfg r command ci) (w_disk (env_at E 3 w))"
    by (auto simp: run_to_writer_def git_disk_def split: prod.splits)
  from assms run have "ok = (e = None)" and "w_disk w' = d" and "w_last_update w' = w_last_update (env_at E 3 w)"
    by (auto simp: serve_task_def serve_fetch_local_def Let_def)
  with run d show "ok \<longleftrightarrow> fst (run_to_writer (lib_git X) wr (serve_cmd (lib_wire X) cfg r command ci) s
      (w_disk (env_at E 3 w))) = None"
    and "w_disk w' = git_disk (lib_git X) (serve_cmd (lib_wire X) cfg r command ci) (w_disk (env_at E 3 w))"
    and "w_last_update w' = w_last_update (env_at E 3 w)" by simp_all
qed

text \<open>
  The world at the check of the wants that a fetch is served after: the first, or the one
  after the fetch from the upstream.
\<close>

definition checked_world ::
  "('d, 'r) libs \<Rightarrow> server_config \<Rightarrow> 'd run_env \<Rightarrow> managed_repo \<Rightarrow> oid list \<Rightarrow> string list \<Rightarrow> 'd world \<Rightarrow>
     'd world \<Rightarrow> bool" where
  "checked_world X cfg E r hashes refs w v \<longleftrightarrow>
     (if wants_ok X r hashes refs w = Inr True then v = log_check (lib_status X) ''hasAllWants'' r w
      else wants_ok X r hashes refs w = Inr False \<and>
        (\<exists>tags. v = record_stat (UpstreamFetchWaited tags)
           (log_check (lib_status X) ''hasAllWants'' r (after_fetch X cfg E r hashes refs w))))"

lemma handle_fetch_served:
  assumes "handle_fetch X cfg E report wr r command ci tags s w = (True, s', w')"
  shows "\<exists>hashes refs v tags'. parse_fetch_wants (lib_new_oid X) command = Inr (hashes, refs) \<and>
    checked_world X cfg E r hashes refs w v \<and> wants_ok X r hashes refs v = Inr True \<and>
    serve_task X cfg E report wr r command ci tags' s v = (True, s', w')"
proof -
  obtain hashes refs where p: "parse_fetch_wants (lib_new_oid X) command = Inr (hashes, refs)"
    using assms by (auto simp: handle_fetch_def split: sum.splits)
  show ?thesis
  proof (cases "wants_ok X r hashes refs w")
    case (Inl e)
    with assms p show ?thesis by (simp add: handle_fetch_def has_all_wants_def)
  next
    case (Inr b)
    show ?thesis
    proof (cases b)
      case True
      let ?v = "log_check (lib_status X) ''hasAllWants'' r w"
      have "serve_task X cfg E report wr r command ci tags s ?v = (True, s', w')"
        using assms Inr True by (simp add: handle_fetch_local [OF p])
      moreover have "checked_world X cfg E r hashes refs w ?v" "wants_ok X r hashes refs ?v = Inr True"
        using Inr True by (simp_all add: checked_world_def)
      ultimately show ?thesis using p by blast
    next
      case False
      let ?v = "after_fetch X cfg E r hashes refs w"
      obtain tags' where "after_miss X cfg E report wr r command ci hashes refs tags' s ?v = (True, s', w')"
        using assms Inr False
        by (auto simp: handle_fetch_update [OF p] split: option.splits prod.splits)
      moreover have "checked_world X cfg E r hashes refs w
          (record_stat (UpstreamFetchWaited tags') (log_check (lib_status X) ''hasAllWants'' r ?v))"
        using Inr False by (auto simp: checked_world_def)
      ultimately show ?thesis
        using after_miss_served [of X cfg E report wr r command ci hashes refs tags' s ?v s' w'] p
        by (intro exI [of _ hashes] exI [of _ refs] exI [of _ tags']
            exI [of _ "record_stat (UpstreamFetchWaited tags') (log_check (lib_status X) ''hasAllWants'' r ?v)"]) auto
    qed
  qed
qed

lemma serve_task_body:
  assumes "serve_task X cfg E (git_report_error L W has_rep) sink_write r command ci tags s w = (True, s', w')"
  shows "sink_body s' = sink_body s @ concat (stdout_of (fst (run_git_binary (lib_git X)
      (serve_cmd (lib_wire X) cfg r command ci) (w_disk (env_at E 3 w)))))"
proof -
  obtain e s1 outp d where run: "run_to_writer (lib_git X) sink_write (serve_cmd (lib_wire X) cfg r command ci) s
      (w_disk (env_at E 3 w)) = (e, s1, outp, d)" by (metis prod_cases4)
  with assms have "e = None" and "s' = git_report_error L W has_rep tags None s1"
    by (auto simp: serve_task_def serve_fetch_local_def Let_def)
  moreover have "outp = fst (run_git_binary (lib_git X) (serve_cmd (lib_wire X) cfg r command ci) (w_disk (env_at E 3 w)))"
    using run by (auto simp: run_to_writer_def split: prod.splits)
  ultimately show ?thesis
    using run http_out.run_to_writer_ok [of "lib_git X" "serve_cmd (lib_wire X) cfg r command ci" s
        "w_disk (env_at E 3 w)" s1 outp d] git_rep.report_nil by simp
qed

lemma serve_task_ran:
  assumes "serve_task X cfg E report wr r command ci tags s w = (True, s', w')"
  shows "git_error (lib_git X) (serve_cmd (lib_wire X) cfg r command ci) (w_disk (env_at E 3 w)) = None"
  using assms
  by (auto simp: serve_task_def serve_fetch_local_def run_to_writer_def git_error_def Let_def
      split: prod.splits option.splits)

text \<open>The world after upload-pack, which is all that a fetch served from the disk does.\<close>

definition served_world :: "('d, 'r) git_lib \<Rightarrow> git_cmd \<Rightarrow> managed_repo \<Rightarrow> 'd world \<Rightarrow> 'd world" where
  "served_world G cmd r v =
     (let v1 = log_elapsed ''ServeFetchLocal queuing'' (r_path r) v in
      log_elapsed ''serveFetchLocal'' (r_path r)
        (v1\<lparr>w_disk := git_disk G cmd (w_disk v1), w_stats := w_stats v1 @ [ConcurrencyGauge (w_counter v1 + 1)]\<rparr>))"

lemma serve_task_world:
  "snd (snd (serve_task X cfg E report wr r command ci tags s w)) =
     served_world (lib_git X) (serve_cmd (lib_wire X) cfg r command ci) r (env_at E 3 w)"
  by (simp add: serve_task_def serve_fetch_local_def served_world_def run_to_writer_def git_disk_def Let_def split_beta)

text \<open>Serving asks nothing of the upstream.\<close>

abbreviation with_upstream :: "('d, 'r) libs \<Rightarrow> (string \<Rightarrow> bytes \<Rightarrow> upstream_reply) \<Rightarrow> ('d, 'r) libs" where
  "with_upstream X f \<equiv> X\<lparr>lib_git := (lib_git X)\<lparr>post_upstream := f\<rparr>\<rparr>"

lemma serve_task_upstream:
  "serve_task (with_upstream X f) cfg E report wr r command ci tags s w =
     serve_task X cfg E report wr r command ci tags s w"
  by (simp add: serve_task_def serve_fetch_local_def run_to_writer_def Let_def split_beta)

lemma hashes_present_upstream: "hashes_present (G\<lparr>post_upstream := f\<rparr>) d p hashes = hashes_present G d p hashes"
  by (induction hashes) simp_all

lemma lookup_upstream: "lookup_reference (G\<lparr>post_upstream := f\<rparr>) d p n resolve = lookup_reference G d p n resolve"
  by (simp add: lookup_reference_def split: option.split)

lemma refs_present_upstream: "refs_present L (G\<lparr>post_upstream := f\<rparr>) d p refs = refs_present L G d p refs"
proof (induction refs)
  case (Cons n refs)
  then show ?case by (simp only: refs_present.simps lookup_upstream)
qed simp

lemma wants_ok_upstream:
  "wants_check L (G\<lparr>post_upstream := f\<rparr>) d p hashes refs = wants_check L G d p hashes refs"
  by (simp add: wants_check_def hashes_present_upstream refs_present_upstream split: option.split)

lemma serve_task_log:
  assumes "serve_task X cfg E (git_report_error L W has_rep) sink_write r command ci tags s w = (ok, s', w')"
  shows "w_ops w' = w_ops (env_at E 3 w)" and "\<exists>c. sk_stats s' = sk_stats s @ [(tags, c)]"
proof -
  obtain e s1 v where run: "serve_fetch_local (lib_wire X) (lib_git X) cfg r sink_write command ci s
      (log_elapsed ''ServeFetchLocal queuing'' (r_path r) (env_at E 3 w)) = (e, s1, v)"
    by (metis prod_cases3)
  then have "w_ops v = w_ops (env_at E 3 w)"
    by (auto simp: serve_fetch_local_def Let_def split: prod.splits)
  moreover have "sk_stats s1 = sk_stats s"
    using http_out.serve_fetch_stats [of "lib_wire X" "lib_git X" cfg r command ci s
        "log_elapsed ''ServeFetchLocal queuing'' (r_path r) (env_at E 3 w)"] run by simp
  ultimately show "w_ops w' = w_ops (env_at E 3 w)" and "\<exists>c. sk_stats s' = sk_stats s @ [(tags, c)]"
    using assms run by (auto simp: serve_task_def git_rep.report_stats)
qed

lemma serve_task_succeeds:
  assumes "git_error (lib_git X) (serve_cmd (lib_wire X) cfg r command ci) (w_disk (env_at E 3 w)) = None"
    and "sink_unlimited s"
  shows "fst (serve_task X cfg E report sink_write r command ci tags s w)"
proof -
  obtain s1 where "copy_out sink_write (stdout_of (fst (run_git_binary (lib_git X)
      (serve_cmd (lib_wire X) cfg r command ci) (w_disk (env_at E 3 w))))) s = (None, s1)"
    using copy_out_unlimited [OF assms(2)] by blast
  with assms(1) show ?thesis
    by (simp add: serve_task_def serve_fetch_local_def run_to_writer_def git_error_def Let_def split_beta)
qed

section \<open>Concrete libraries, for witnesses\<close>

text \<open>A tag library that accepts every value.\<close>

definition plain_tag :: tag_lib where
  "plain_tag op t = (None, case op of
      TagUpsert k v \<Rightarrow> set_tag k v t
    | TagUpdate k v \<Rightarrow> if get_tag k t = None then t else set_tag k v t
    | TagInsert k v \<Rightarrow> if get_tag k t = None then set_tag k v t else t)"

lemma plain_tag_law: "tag_law (\<lambda>v. P v) plain_tag"
  by (simp add: tag_law_def plain_tag_def)

definition demo_libs :: "upstream_reply \<Rightarrow> (oid list \<times> (string \<times> oid) list, oid) libs" where
  "demo_libs reply = \<lparr>lib_status = plain_status, lib_wire = plain_wire, lib_git = demo_git reply,
     lib_tag = plain_tag, lib_new_oid = demo_new_oid, lib_lower = (\<lambda>s. s)\<rparr>"

definition demo_env :: "'d run_env" where
  "demo_env = \<lparr>env_at = (\<lambda>_ v. v), ctx_err = None, fetch_start = 90 * second, fetch_end = 91 * second,
     env_store = demo_store\<rparr>"

text \<open>The command that wants one object.\<close>

definition want_command :: "oid \<Rightarrow> bytes req_chunk list" where
  "want_command h = [chunk_of ''fetch'' None, chunk_of [] (Some (''want '' @ demo_oid_string h))]"

text \<open>The command that wants a reference the upstream does not have.\<close>

definition want_gone :: "bytes req_chunk list" where
  "want_gone = [chunk_of ''fetch'' None, chunk_of [] (Some ''want-ref gone'')]"

lemma demo_libs_simps [simp]:
  "lib_status (demo_libs reply) = plain_status" "lib_wire (demo_libs reply) = plain_wire"
  "lib_git (demo_libs reply) = demo_git reply" "lib_tag (demo_libs reply) = plain_tag"
  "lib_new_oid (demo_libs reply) = demo_new_oid"
  "env_at demo_env n v = v" "ctx_err demo_env = None"
  by (simp_all add: demo_libs_def demo_env_def)

lemma want_command_simps [simp]:
  "want_command h \<noteq> []" "rc_command (hd (want_command h)) = ''fetch''"
  "want_gone \<noteq> []" "rc_command (hd want_gone) = ''fetch''"
  by (simp_all add: want_command_def want_gone_def chunk_of_def)

lemma want_command_wants:
  "parse_fetch_wants demo_new_oid (want_command (Oid [0])) = Inr ([Oid [0]], [])"
  "parse_fetch_wants demo_new_oid (want_command (Oid [255])) = Inr ([Oid [255]], [])"
  "parse_fetch_wants demo_new_oid want_gone = Inr ([], [''gone''])"
  by code_simp+

lemma demo_hit:
  "\<exists>s' w'. handle_v2_command (demo_libs demo_reply) demo_config demo_env (git_report_error plain_status plain_wire True)
      sink_write demo_repo (want_command (Oid [0])) ''ci'' no_tags (fresh_sink None) demo_world = Some (True, s', w')"
proof -
  have wants: "wants_check plain_status (demo_git demo_reply) (w_disk demo_world) (r_path demo_repo) [Oid [0]] [] = Inr True"
    by (simp add: demo_git_simps wants_check_def)
  have "tags_ok (demo_libs demo_reply)" by (simp add: plain_tag_law)
  moreover have "fst (serve_task (demo_libs demo_reply) demo_config demo_env (git_report_error plain_status plain_wire True)
      sink_write demo_repo (want_command (Oid [0])) ''ci'' (cmd_tags_of ''fetch'' ''locally-served'' no_tags) (fresh_sink None)
      (log_check plain_status ''hasAllWants'' demo_repo demo_world))"
    by (rule serve_task_succeeds) (simp_all add: demo_git_simps git_error_def serve_cmd_def)
  ultimately show ?thesis
    using wants by (auto simp: handle_v2_fetch handle_fetch_local want_command_wants prod_eq_iff)
qed

section \<open>Properties\<close>

text \<open>
  C1: a fetch that is answered with success passed the check of its wants, at once or after
  the fetch from the upstream, and was then answered by upload-pack, which succeeded, on the
  disk as it was when a worker took it: the response has grown by exactly what upload-pack
  printed. Whatever else happened to the disk while it waited for the worker, if that
  removed nothing that is wanted then everything wanted was there.
\<close>

theorem fetch_serves_wants:
  assumes "handle_v2_command X cfg E (git_report_error L W has_rep) sink_write r command ci tags s w
      = Some (True, s', w')"
    and "rc_command (hd command) = ''fetch''"
  shows "\<exists>hashes refs v. parse_fetch_wants (lib_new_oid X) command = Inr (hashes, refs) \<and>
    checked_world X cfg E r hashes refs w v \<and> wants_ok X r hashes refs v = Inr True \<and>
    (let cmd = serve_cmd (lib_wire X) cfg r command ci; d = w_disk (env_at E 3 v) in
     sink_body s' = sink_body s @ concat (stdout_of (fst (run_git_binary (lib_git X) cmd d))) \<and>
     git_error (lib_git X) cmd d = None \<and>
     ((\<forall>u. wants_ok X r hashes refs u = Inr True \<longrightarrow> wants_ok X r hashes refs (env_at E 3 u) = Inr True) \<longrightarrow>
       wants_check (lib_status X) (lib_git X) d (r_path r) hashes refs = Inr True))"
proof -
  obtain tags1 where "handle_fetch X cfg E (git_report_error L W has_rep) sink_write r command ci tags1 s w
      = (True, s', w')"
    using assms(1,2) by (auto simp: handle_v2_command_def split: list.splits option.splits prod.splits)
  from handle_fetch_served [OF this] obtain hashes refs v tags2 where
      p: "parse_fetch_wants (lib_new_oid X) command = Inr (hashes, refs)"
    and v: "checked_world X cfg E r hashes refs w v" "wants_ok X r hashes refs v = Inr True"
    and served: "serve_task X cfg E (git_report_error L W has_rep) sink_write r command ci tags2 s v
      = (True, s', w')" by blast
  from serve_task_body [OF served] serve_task_ran [OF served] p v show ?thesis
    by (intro exI [of _ hashes] exI [of _ refs] exI [of _ v]) (simp add: Let_def)
qed

theorem fetch_serves_wants_witness:
  "\<exists>s' w'. handle_v2_command (demo_libs demo_reply) demo_config demo_env (git_report_error plain_status plain_wire True)
      sink_write demo_repo (want_command (Oid [0])) ''ci'' no_tags (fresh_sink None) demo_world = Some (True, s', w') \<and>
    (\<exists>hashes refs d. parse_fetch_wants demo_new_oid (want_command (Oid [0])) = Inr (hashes, refs) \<and>
      wants_check plain_status (demo_git demo_reply) d (r_path demo_repo) hashes refs = Inr True)"
proof -
  obtain s' w' where run: "handle_v2_command (demo_libs demo_reply) demo_config demo_env
      (git_report_error plain_status plain_wire True) sink_write demo_repo (want_command (Oid [0])) ''ci'' no_tags
      (fresh_sink None) demo_world = Some (True, s', w')"
    using demo_hit by blast
  from fetch_serves_wants [OF run want_command_simps(2)] run show ?thesis
    unfolding demo_libs_simps by blast
qed

text \<open>
  The race that is left: nothing keeps the disk as it is between the check and upload-pack,
  so that a fetch can be answered with success when what it wants has been pruned meanwhile.
\<close>

theorem fetch_race:
  "\<exists>E. case handle_v2_command (demo_libs demo_reply) demo_config E (git_report_error plain_status plain_wire True)
      sink_write demo_repo (want_command (Oid [0])) ''ci'' no_tags (fresh_sink None) demo_world of
     Some (ok, s', w') \<Rightarrow>
       ok \<and> wants_check plain_status (demo_git demo_reply) (w_disk w') (r_path demo_repo) [Oid [0]] [] = Inr False
   | None \<Rightarrow> False"
  by (rule exI [of _ "demo_env\<lparr>env_at := (\<lambda>n v. if n = 3 then v\<lparr>w_disk := ([], [])\<rparr> else v)\<rparr>"]) code_simp

text \<open>
  C2: every command is reported exactly once, whatever the upstream, git and the other
  requests do, and a command that is answered with success is reported without an error.
\<close>

theorem one_report_per_command:
  assumes "handle_v2_command X cfg E (git_report_error L W has_rep) sink_write r command ci tags s w
      = Some (ok, s', w')"
  shows "\<exists>tags' e. sk_stats s' = sk_stats s @ [(tags', fst (status_or_internal L e))] \<and> (ok \<longrightarrow> e = None)"
  using http_out.handle_v2_once [OF assms] by (simp add: one_more_def)

theorem one_report_per_command_witness:
  "\<exists>s' w'. handle_v2_command (demo_libs demo_reply) demo_config demo_env (git_report_error plain_status plain_wire True)
      sink_write demo_repo (want_command (Oid [0])) ''ci'' no_tags (fresh_sink None) demo_world = Some (True, s', w') \<and>
    (\<exists>tags'. sk_stats s' = [(tags', OK)])"
proof -
  obtain s' w' where run: "handle_v2_command (demo_libs demo_reply) demo_config demo_env
      (git_report_error plain_status plain_wire True) sink_write demo_repo (want_command (Oid [0])) ''ci'' no_tags
      (fresh_sink None) demo_world = Some (True, s', w')"
    using demo_hit by blast
  from one_report_per_command [OF run] run status_or_internal_simps(1) [OF plain_status_law] show ?thesis by auto
qed

text \<open>
  C8: a fetch whose wants are not all there contacts the upstream and then succeeds: if the
  fetch brings what is missing, the client stays, upload-pack runs and the connection takes
  what it is given, the answer is upload-pack's output on the fetched disk.
\<close>

theorem fetch_after_miss_succeeds:
  assumes "tags_ok X" and "command \<noteq> []" and "rc_command (hd command) = ''fetch''"
    and "parse_fetch_wants (lib_new_oid X) command = Inr (hashes, refs)"
    and "wants_check (lib_status X) (lib_git X) (w_disk w) (r_path r) hashes refs = Inr False"
    and "fetched_disk (lib_git X) r hashes (w_disk w) = d"
    and "wants_check (lib_status X) (lib_git X) d (r_path r) hashes refs = Inr True"
    and "git_error (lib_git X) (serve_cmd (lib_wire X) cfg r command ci) d = None"
    and "env_at E = (\<lambda>_ v. v)" and "ctx_err E = None" and "sink_unlimited s"
  shows "\<exists>s' w'. handle_v2_command X cfg E (git_report_error L W has_rep) sink_write r command ci tags s w
      = Some (True, s', w') \<and>
    sink_body s' = sink_body s @ concat (stdout_of (fst (run_git_binary (lib_git X)
      (serve_cmd (lib_wire X) cfg r command ci) d)))"
proof -
  let ?v = "after_fetch X cfg E r hashes refs w"
  have disk: "w_disk ?v = d"
    using assms(5,6,9) by (simp add: after_fetch_quiet)
  obtain ok s' w' where res: "serve_task X cfg E (git_report_error L W has_rep) sink_write r command ci
      (cmd_tags_of ''fetch'' ''queried-upsteam'' tags) s
      (record_stat (UpstreamFetchWaited (cmd_tags_of ''fetch'' ''queried-upsteam'' tags))
        (log_check (lib_status X) ''hasAllWants'' r ?v)) = (ok, s', w')"
    by (metis prod_cases3)
  moreover have "ok"
    using serve_task_succeeds [OF _ assms(11), of X cfg r command ci E
        "record_stat (UpstreamFetchWaited (cmd_tags_of ''fetch'' ''queried-upsteam'' tags))
           (log_check (lib_status X) ''hasAllWants'' r ?v)" "git_report_error L W has_rep"
        "cmd_tags_of ''fetch'' ''queried-upsteam'' tags"] disk assms(8,9) res by simp
  moreover have "handle_v2_command X cfg E (git_report_error L W has_rep) sink_write r command ci tags s w = Some (ok, s', w')"
    using assms(7,10) disk res by (simp add: handle_v2_fetch [OF assms(1-3)] handle_fetch_miss [OF assms(1,4,5)] after_miss_def)
  ultimately show ?thesis
    using serve_task_body disk assms(9) by fastforce
qed

theorem fetch_after_miss_succeeds_witness:
  "\<exists>s' w'. handle_v2_command (demo_libs demo_reply) demo_config demo_env (git_report_error plain_status plain_wire True)
      sink_write demo_repo (want_command (Oid [255])) ''ci'' no_tags (fresh_sink None) demo_world = Some (True, s', w') \<and>
    sink_body s' = ''PACK''"
proof -
  let ?d = "([Oid [255], Oid [0]], [(''refs/heads/main'', Oid [0])])"
  have d: "fetched_disk (demo_git demo_reply) demo_repo [Oid [255]] (w_disk demo_world) = ?d"
    by (simp add: demo_git_simps fetched_disk_def git_disk_def git_in_def fetch_args_def demo_oid_string_def)
  have wants: "wants_check plain_status (demo_git demo_reply) (w_disk demo_world) (r_path demo_repo) [Oid [255]] [] = Inr False"
    "wants_check plain_status (demo_git demo_reply) ?d (r_path demo_repo) [Oid [255]] [] = Inr True"
    by (simp_all add: demo_git_simps wants_check_def)
  have pack: "run_git_binary (demo_git demo_reply) (serve_cmd plain_wire demo_config demo_repo (want_command h) ci) ?d
      = ([Stdout ''PACK''], None, ?d)" for h ci
    by (simp add: demo_git_def serve_cmd_def Let_def)
  then have "\<exists>s' w'. handle_v2_command (demo_libs demo_reply) demo_config demo_env
      (git_report_error plain_status plain_wire True)
      sink_write demo_repo (want_command (Oid [255])) ''ci'' no_tags (fresh_sink None) demo_world = Some (True, s', w') \<and>
    sink_body s' = sink_body (fresh_sink None) @ concat (stdout_of (fst (run_git_binary (lib_git (demo_libs demo_reply))
      (serve_cmd (lib_wire (demo_libs demo_reply)) demo_config demo_repo (want_command (Oid [255])) ''ci'') ?d)))"
    using d wants
    by (intro fetch_after_miss_succeeds [where hashes = "[Oid [255]]" and refs = "[]"])
      (simp_all add: plain_tag_law want_command_wants git_error_def fun_eq_iff)
  with pack show ?thesis by (simp add: stdout_of_def List.map_filter_def)
qed

text \<open>
  C34: when something is still missing after the fetch, the client gets no data and no error
  packet, the handler fails, and the report says OK: the error it passes on is the nil one
  of the first check. (The cache state is reported under a misspelled name.)
\<close>

theorem unsatisfied_fetch_reported_ok:
  assumes "tags_ok X" and "command \<noteq> []" and "rc_command (hd command) = ''fetch''" and "status_law L"
    and "parse_fetch_wants (lib_new_oid X) command = Inr (hashes, refs)"
    and "wants_check (lib_status X) (lib_git X) (w_disk w) (r_path r) hashes refs = Inr False"
    and "wants_check (lib_status X) (lib_git X) (w_disk (after_fetch X cfg E r hashes refs w)) (r_path r) hashes refs
      = Inr False" and "ctx_err E = None"
  shows "\<exists>s' w'. handle_v2_command X cfg E (git_report_error L W has_rep) sink_write r command ci tags s w
      = Some (False, s', w') \<and> sk_w s' = sk_w s \<and>
    sk_stats s' = sk_stats s @ [(tags\<lparr>tg_type := Some ''fetch'', tg_cache := Some ''queried-upsteam''\<rparr>, OK)]"
proof -
  let ?tags = "tags\<lparr>tg_type := Some ''fetch'', tg_cache := Some ''queried-upsteam''\<rparr>"
  have tags: "cmd_tags_of ''fetch'' ''queried-upsteam'' tags = ?tags" by (simp add: cmd_tags_of_def)
  have "handle_v2_command X cfg E (git_report_error L W has_rep) sink_write r command ci tags s w
      = Some (False, git_report_error L W has_rep ?tags None s,
          log_check (lib_status X) ''hasAllWants'' r (after_fetch X cfg E r hashes refs w))"
    using assms(7,8) by (simp add: handle_v2_fetch [OF assms(1-3)] handle_fetch_miss [OF assms(1,5,6)] after_miss_def tags)
  moreover have "sk_w (git_report_error L W has_rep ?tags None s) = sk_w s"
    by (simp add: git_report_error_def Let_def split: prod.splits)
  ultimately show ?thesis
    using git_rep.report_stats [of L W has_rep ?tags None s] status_or_internal_simps(1) [OF assms(4)] by simp
qed

theorem unsatisfied_fetch_reported_ok_witness:
  "\<exists>s' w'. handle_v2_command (demo_libs demo_reply) demo_config demo_env (git_report_error plain_status plain_wire True)
      sink_write demo_repo want_gone ''ci'' no_tags (fresh_sink None) demo_world = Some (False, s', w') \<and>
    sink_body s' = [] \<and> map snd (sk_stats s') = [OK]"
proof -
  have miss: "wants_check plain_status (demo_git demo_reply) (w_disk demo_world) (r_path demo_repo) [] [''gone''] = Inr False"
    by (simp add: demo_git_simps wants_check_def lookup_reference_def)
  have "wants_check plain_status (demo_git demo_reply)
      (w_disk (after_fetch (demo_libs demo_reply) demo_config demo_env demo_repo [] [''gone''] demo_world))
      (r_path demo_repo) [] [''gone''] = Inr False"
    using miss by (simp add: after_fetch_quiet fun_eq_iff)
      (simp add: demo_git_simps wants_check_def lookup_reference_def fetched_disk_def git_disk_def git_in_def fetch_args_def)
  with miss unsatisfied_fetch_reported_ok [where X = "demo_libs demo_reply" and E = demo_env and cfg = demo_config
      and r = demo_repo and command = want_gone and hashes = "[]" and refs = "[''gone'']"
      and w = demo_world and s = "fresh_sink None" and L = plain_status and W = plain_wire and has_rep = True
      and ci = "''ci''" and tags = no_tags]
  show ?thesis by (fastforce simp: plain_tag_law plain_status_law want_command_wants)
qed

text \<open>
  C36: a fetch whose wants are all there is answered from the disk alone: whatever others do
  while it waits for a worker, the world afterwards is the one upload-pack leaves, with one
  check of the wants and one local fetch in the statistics and nothing else changed, the
  command is counted as served locally, and nothing depends on what the upstream would answer.
\<close>

theorem fetch_hit_is_local:
  assumes "tags_ok X" and "command \<noteq> []" and "rc_command (hd command) = ''fetch''"
    and "parse_fetch_wants (lib_new_oid X) command = Inr (hashes, refs)"
    and "wants_check (lib_status X) (lib_git X) (w_disk w) (r_path r) hashes refs = Inr True"
  shows "(\<exists>ok s' c. handle_v2_command X cfg E (git_report_error L W has_rep) sink_write r command ci tags s w
      = Some (ok, s', served_world (lib_git X) (serve_cmd (lib_wire X) cfg r command ci) r
          (env_at E 3 (log_check (lib_status X) ''hasAllWants'' r w))) \<and>
    sk_stats s' = sk_stats s @ [(tags\<lparr>tg_type := Some ''fetch'', tg_cache := Some ''locally-served''\<rparr>, c)]) \<and>
    (\<forall>f. handle_v2_command (with_upstream X f) cfg E (git_report_error L W has_rep) sink_write r command ci tags s w
      = handle_v2_command X cfg E (git_report_error L W has_rep) sink_write r command ci tags s w)"
proof -
  let ?v = "log_check (lib_status X) ''hasAllWants'' r w"
  let ?tags = "tags\<lparr>tg_type := Some ''fetch'', tg_cache := Some ''locally-served''\<rparr>"
  let ?handle = "\<lambda>X. handle_v2_command X cfg E (git_report_error L W has_rep) sink_write r command ci tags s w"
  obtain ok s' w' where res: "serve_task X cfg E (git_report_error L W has_rep) sink_write r command ci ?tags s ?v
      = (ok, s', w')" by (metis prod_cases3)
  have run: "?handle X = Some (ok, s', w')"
    using res by (simp add: handle_v2_fetch [OF assms(1-3)] handle_fetch_local [OF assms(4,5)] cmd_tags_of_def)
  have "?handle (with_upstream X f) = Some (ok, s', w')" for f
  proof -
    have X: "tags_ok (with_upstream X f)" "parse_fetch_wants (lib_new_oid (with_upstream X f)) command = Inr (hashes, refs)"
      "wants_ok (with_upstream X f) r hashes refs w = Inr True"
      using assms(1,4,5) by (simp_all add: wants_ok_upstream)
    from res show ?thesis
      by (simp add: handle_v2_fetch [OF X(1) assms(2,3)] handle_fetch_local [OF X(2,3)] cmd_tags_of_def serve_task_upstream)
  qed
  moreover have "w' = served_world (lib_git X) (serve_cmd (lib_wire X) cfg r command ci) r (env_at E 3 ?v)"
    using serve_task_world [of X cfg E "git_report_error L W has_rep" sink_write r command ci ?tags s ?v] res by simp
  ultimately show ?thesis using run serve_task_log(2) [OF res] by auto
qed

theorem fetch_hit_is_local_witness:
  "\<exists>ok s' w' c. handle_v2_command (demo_libs demo_reply) demo_config demo_env (git_report_error plain_status plain_wire True)
      sink_write demo_repo (want_command (Oid [0])) ''ci'' no_tags (fresh_sink None) demo_world = Some (ok, s', w') \<and>
    w_ops w' = [] \<and> length (w_stats w') = length (w_stats demo_world) + 5 \<and>
    sk_stats s' = [(\<lparr>tg_type = Some ''fetch'', tg_cache = Some ''locally-served''\<rparr>, c)]"
proof -
  have wants: "wants_check plain_status (demo_git demo_reply) (w_disk demo_world) (r_path demo_repo) [Oid [0]] [] = Inr True"
    by (simp add: demo_git_simps wants_check_def)
  let ?w = "served_world (demo_git demo_reply) (serve_cmd plain_wire demo_config demo_repo (want_command (Oid [0])) ''ci'') demo_repo
    (log_check plain_status ''hasAllWants'' demo_repo demo_world)"
  have world: "w_ops ?w = []" "length (w_stats ?w) = length (w_stats demo_world) + 5"
    by (simp_all add: served_world_def log_check_def log_stats_def log_elapsed_def record_stat_def demo_world_def Let_def)
  from fetch_hit_is_local [where X = "demo_libs demo_reply" and E = demo_env and cfg = demo_config
      and r = demo_repo and command = "want_command (Oid [0])" and hashes = "[Oid [0]]" and refs = "[]"
      and w = demo_world and s = "fresh_sink None" and L = plain_status and W = plain_wire and has_rep = True
      and ci = "''ci''" and tags = no_tags] wants
  obtain ok s' c where "handle_v2_command (demo_libs demo_reply) demo_config demo_env
      (git_report_error plain_status plain_wire True)
      sink_write demo_repo (want_command (Oid [0])) ''ci'' no_tags (fresh_sink None) demo_world = Some (ok, s', ?w)"
    and "sk_stats s' = sk_stats (fresh_sink None) @ [(no_tags\<lparr>tg_type := Some ''fetch'', tg_cache := Some ''locally-served''\<rparr>, c)]"
    by (auto simp: plain_tag_law want_command_wants)
  with world show ?thesis
    by (intro exI [of _ ok] exI [of _ s'] exI [of _ ?w] exI [of _ c]) (simp add: no_tags_def)
qed

text \<open>
  An ls-refs command is answered with the upstream's reference chunks, encoded and in
  order, and reported once as queried upstream; the disk is not touched.
\<close>

theorem ls_refs_forwarded:
  assumes "tags_ok X" and "command \<noteq> []" and "rc_command (hd command) = ''ls-refs''"
    and "post_upstream (lib_git X) (r_upstream r @ ''/git-upload-pack'') (new_git_request (lib_wire X) command) =
      Reply 200 ctype rbody chunks None"
    and "sink_unlimited s"
  shows "\<exists>s' w'. handle_v2_command X cfg E (git_report_error L W has_rep) sink_write r command ci tags s w
      = Some (True, s', w') \<and>
    sink_body s' = sink_body s @ concat (map (encode_resp (lib_wire X)) chunks) \<and>
    sk_stats s' = sk_stats s @
      [(tags\<lparr>tg_type := Some ''ls-refs'', tg_cache := Some ''queried-upstream''\<rparr>, fst (status_or_internal L None))] \<and>
    w_disk w' = w_disk w"
proof -
  obtain s1 where s1: "write_resp (lib_wire X) sink_write chunks s = (None, s1)"
    using write_resp_unlimited [OF assms(5)] by blast
  from http_out.write_resp_ok [OF s1] http_out.write_resp_stats [of "lib_wire X" chunks s] s1
  have out: "sink_body s1 = sink_body s @ concat (map (encode_resp (lib_wire X)) chunks)"
    "sk_stats s1 = sk_stats s" by simp_all
  let ?tags = "cmd_tags_of ''ls-refs'' ''queried-upstream'' tags"
  have "''queried-upstream'' \<in> used_tags" by (simp add: used_tags_def)
  from cmd_tags_update [OF assms(1) this]
  have "handle_v2_command X cfg E (git_report_error L W has_rep) sink_write r command ci tags s w
      = Some (True, git_report_error L W has_rep ?tags None s1,
          log_elapsed ''lsRefsUpstream'' (r_path r) (log_stats (lib_status X) ''ls-refs'' None w))"
    using s1 by (simp add: handle_v2_ls_refs [OF assms(1-3)] handle_ls_refs_def ls_refs_upstream_collected [OF assms(4)])
  with out show ?thesis
    by (simp add: git_rep.report_stats git_rep.report_nil cmd_tags_of_def)
qed

theorem ls_refs_forwarded_witness:
  "\<exists>s' w'. handle_v2_command (demo_libs demo_reply) demo_config demo_env (git_report_error plain_status plain_wire True)
      sink_write demo_repo [chunk_of ''ls-refs'' None] ''ci'' no_tags (fresh_sink None) demo_world = Some (True, s', w') \<and>
    sink_body s' = ''L''"
proof -
  have "post_upstream (demo_git demo_reply) (r_upstream demo_repo @ ''/git-upload-pack'')
      (new_git_request plain_wire [chunk_of ''ls-refs'' None])
      = Reply 200 ''application/x-git'' [] [\<lparr>rs_response = Some ''ff refs/heads/main'', rs_other = ''L''\<rparr>] None"
    by (simp add: demo_git_def demo_reply_def)
  with ls_refs_forwarded [where X = "demo_libs demo_reply" and E = demo_env and cfg = demo_config
      and r = demo_repo and command = "[chunk_of ''ls-refs'' None]" and w = demo_world and s = "fresh_sink None"
      and L = plain_status and W = plain_wire and has_rep = True and ci = "''ci''" and tags = no_tags]
  show ?thesis by (fastforce simp: plain_tag_law chunk_of_def plain_wire_def)
qed

end
