(* ===== verification/Server.thy ===== *)
theory Server
  imports Handler
begin

text \<open>
  The HTTP front end (\<open>http_proxy_server.go\<close>): \<open>ServeHTTP\<close> and its three routes. The
  request authorizer, the canonicalizer and gzip are arguments, the reporters and the
  monitored writer are those of the theory Reporting.
\<close>

section \<open>URL queries\<close>

definition hex_val :: "char \<Rightarrow> nat option" where
  "hex_val c = (let n = (of_char c :: nat) in
     if 48 \<le> n \<and> n \<le> 57 then Some (n - 48)
     else if 65 \<le> n \<and> n \<le> 70 then Some (n - 55)
     else if 97 \<le> n \<and> n \<le> 102 then Some (n - 87) else None)"

text \<open>\<open>url.QueryUnescape\<close>; \<open>None\<close>: an error.\<close>

fun query_unescape :: "string \<Rightarrow> string option" where
  "query_unescape [] = Some []"
| "query_unescape (c # s) =
     (if c = CHR ''%'' then
        (case s of
           a # b # s' \<Rightarrow>
             (case (hex_val a, hex_val b) of
                (Some x, Some y) \<Rightarrow> map_option ((#) (char_of (16 * x + y))) (query_unescape s')
              | _ \<Rightarrow> None)
         | _ \<Rightarrow> None)
      else map_option ((#) (if c = CHR ''+'' then CHR '' '' else c)) (query_unescape s))"

text \<open>\<open>strings.Cut\<close> on a character: what comes before it and what comes after.\<close>

definition cut_at :: "char \<Rightarrow> string \<Rightarrow> string \<times> string" where
  "cut_at c s = (takeWhile (\<lambda>x. x \<noteq> c) s, drop 1 (dropWhile (\<lambda>x. x \<noteq> c) s))"

text \<open>\<open>url.ParseQuery\<close>, which \<open>URL.Query\<close> calls: the pairs that are well formed.\<close>

definition parse_pair :: "string \<Rightarrow> (string \<times> string) option" where
  "parse_pair p =
     (if CHR '';'' \<in> set p \<or> p = [] then None
      else case cut_at CHR ''='' p of (k, v) \<Rightarrow>
        (case (query_unescape k, query_unescape v) of (Some k', Some v') \<Rightarrow> Some (k', v') | _ \<Rightarrow> None))"

definition parse_query :: "string \<Rightarrow> (string \<times> string) list" where
  "parse_query q = List.map_filter parse_pair (split_on CHR ''&'' q)"

text \<open>\<open>Values.Get\<close>: the first value, or the empty string.\<close>

definition query_get :: "(string \<times> string) list \<Rightarrow> string \<Rightarrow> string" where
  "query_get q k = (case map_of q k of None \<Rightarrow> [] | Some v \<Rightarrow> v)"

section \<open>Requests\<close>

text \<open>\<open>hr_header\<close> is \<open>Header.Get\<close>: the empty string for a header that is not there.\<close>

record http_request =
  hr_url :: url
  hr_host :: string
  hr_header :: "string \<Rightarrow> string"
  hr_body :: body
  hr_tags :: cmd_tags

text \<open>
  What a request meets: the authorizer of the configuration, its canonicalizer, gzip, the
  circumstances of each command, and the store when the body is parsed.
\<close>

record 'd server_env =
  sv_authorizer :: "http_request \<Rightarrow> go_error option"
  sv_canon :: canonicalizer
  sv_gunzip :: "body \<Rightarrow> go_error + body"
  sv_run :: "nat \<Rightarrow> 'd run_env"
  sv_store :: store

text \<open>A handler returns, panics, or the process exits.\<close>

datatype 'a outcome = Finished 'a | Panicked | Exited

definition sink_header_add :: "string \<Rightarrow> string \<Rightarrow> sink \<Rightarrow> sink" where
  "sink_header_add k v s = s\<lparr>sk_w := mon_header_add k v (sk_w s)\<rparr>"

section \<open>The info/refs route\<close>

definition info_refs_packets :: "info_chunk list" where
  "info_refs_packets =
     [ProtocolVersion 2, Capabilities [''ls-refs''], Capabilities [''fetch=filter shallow''],
      Capabilities [''server-option''], EndOfRequest]"

fun write_info :: "wire_lib \<Rightarrow> (go_error option \<Rightarrow> sink \<Rightarrow> sink) \<Rightarrow> info_chunk list \<Rightarrow> sink \<Rightarrow> sink" where
  "write_info W report [] s = s"
| "write_info W report (p # ps) s =
     (case write_packet sink_write (encode_info W p) s of
        (Some _, s') \<Rightarrow> report (Some (StatusError Canceled ''client IO error'')) s'
      | (None, s') \<Rightarrow> write_info W report ps s')"

definition info_refs_handler ::
  "wire_lib \<Rightarrow> (go_error option \<Rightarrow> sink \<Rightarrow> sink) \<Rightarrow> http_request \<Rightarrow> sink \<Rightarrow> sink" where
  "info_refs_handler W report r s =
     (if query_get (parse_query (u_query (hr_url r))) ''service'' \<noteq> ''git-upload-pack'' then
        report (Some (StatusError InvalidArgument ''accepts only git-fetch'')) s
      else write_info W report info_refs_packets
             (sink_header_add ''Content-Type'' ''application/x-git-upload-pack-advertisement'' s))"

section \<open>The git-upload-pack route\<close>

text \<open>\<open>gitprotocolio.NewProtocolV2Request\<close> on a body: a scanner with a buffer of its own.\<close>

definition new_request_scanner :: "wire_lib \<Rightarrow> body \<Rightarrow> store \<Rightarrow> scanner \<times> store" where
  "new_request_scanner W b h =
     (case scan_request W b of (chunks, fin) \<Rightarrow>
        (\<lparr>sc_pending = chunks, sc_final = fin, sc_done = False, sc_buf = next_addr h\<rparr>,
         h\<lparr>next_addr := Suc (next_addr h)\<rparr>))"

fun command_loop ::
  "('d, 'r) libs \<Rightarrow> server_config \<Rightarrow> (nat \<Rightarrow> 'd run_env) \<Rightarrow> cmd_tags \<Rightarrow> managed_repo \<Rightarrow> string \<Rightarrow> nat \<Rightarrow>
     bytes req_chunk list list \<Rightarrow> sink \<Rightarrow> 'd world \<Rightarrow> (sink \<times> 'd world) outcome" where
  "command_loop X cfg run tags repo ci i [] s w = Finished (s, w)"
| "command_loop X cfg run tags repo ci i (command # rest) s w =
     (let mtags = metric_tags (lib_lower X) (r_upstream repo) command in
      case handle_v2_command X cfg (run i)
             (git_report_error (lib_status X) (lib_wire X) (cfg_error_reporter cfg))
             sink_write repo command ci tags s w of
        None \<Rightarrow> Panicked
      | Some (result, s', w') \<Rightarrow>
          if \<not> result then Finished (s', w'\<lparr>w_stats := w_stats w' @ [RequestDistribution (mtags @ [''success:0''])]\<rparr>)
          else command_loop X cfg run tags repo ci (i + 1) rest s'
                 (w'\<lparr>w_stats := w_stats w' @ [RequestDistribution (mtags @ [''success:1''])]\<rparr>))"

definition upload_pack_handler ::
  "('d, 'r) libs \<Rightarrow> server_config \<Rightarrow> 'd server_env \<Rightarrow> (go_error option \<Rightarrow> sink \<Rightarrow> sink) \<Rightarrow> http_request \<Rightarrow>
     string \<Rightarrow> sink \<Rightarrow> 'd world \<Rightarrow> (sink \<times> 'd world) outcome" where
  "upload_pack_handler X cfg V report r ci s w =
     (let s1 = sink_header_add ''Content-Type'' ''application/x-git-upload-pack-result'' s in
      case (if hr_header r ''Content-Encoding'' = ''gzip'' then sv_gunzip V (hr_body r) else Inr (hr_body r)) of
        Inl e \<Rightarrow> Finished (report (Some (StatusError InvalidArgument (''cannot ungzip: '' @ error_text (lib_status X) e))) s1, w)
      | Inr b \<Rightarrow>
          let (sc, h) = new_request_scanner (lib_wire X) b (sv_store V) in
          (case parse_all_commands (lib_status X) (lib_wire X) sc h of
             Inl e \<Rightarrow> Finished (report (Some e) s1, w)
           | Inr commands \<Rightarrow>
               (case open_managed_repository (lib_status X) (lib_git X) cfg (sv_canon V) (hr_url r) w of
                  Exits \<Rightarrow> Exited
                | Returns (Inl e, w') \<Rightarrow> Finished (report (Some e) s1, w')
                | Returns (Inr repo, w') \<Rightarrow> command_loop X cfg (sv_run V) (hr_tags r) repo ci 0 commands s1 w')))"

section \<open>ServeHTTP\<close>

text \<open>
  The reporter is built before the context gets its tag, so it keeps the request without
  it: \<open>report\<close> takes the tags of the request as it came in.
\<close>

definition full_url :: "http_request \<Rightarrow> http_request" where
  "full_url r =
     (if u_host (hr_url r) = [] then r\<lparr>hr_url := (hr_url r)\<lparr>u_host := hr_host r, u_scheme := ''https''\<rparr>\<rparr> else r)"

definition ci_source_of :: "http_request \<Rightarrow> string" where
  "ci_source_of r = (if hr_header r ''CI-Source'' = [] then hr_header r ''User-Agent'' else hr_header r ''CI-Source'')"

definition route ::
  "('d, 'r) libs \<Rightarrow> server_config \<Rightarrow> 'd server_env \<Rightarrow> (go_error option \<Rightarrow> sink \<Rightarrow> sink) \<Rightarrow> http_request \<Rightarrow>
     string \<Rightarrow> sink \<Rightarrow> 'd world \<Rightarrow> (sink \<times> 'd world) outcome" where
  "route X cfg V report r ci s w =
     (let p = u_path (hr_url r) in
      if has_suffix p ''/info/refs'' then Finished (info_refs_handler (lib_wire X) report r s, w)
      else if has_suffix p ''/git-receive-pack'' then
        Finished (report (Some (StatusError Unimplemented ''git-receive-pack not supported'')) s, w)
      else if has_suffix p ''/git-upload-pack'' then upload_pack_handler X cfg V report r ci s w
      else Finished (s, w))"

definition open_sink :: "resp_writer \<Rightarrow> bool \<Rightarrow> sink" where
  "open_sink rw flusher = \<lparr>sk_w = monitor_writer rw flusher, sk_stats = [], sk_reported = [], sk_logged = []\<rparr>"

definition serve_http ::
  "('d, 'r) libs \<Rightarrow> server_config \<Rightarrow> 'd server_env \<Rightarrow> http_request \<Rightarrow> resp_writer \<Rightarrow> bool \<Rightarrow>
     'd world \<Rightarrow> (sink \<times> 'd world) outcome" where
  "serve_http X cfg V r0 rw flusher w =
     (let r = full_url r0;
          s = open_sink rw flusher;
          report = http_report_error (lib_status X) (cfg_error_reporter cfg) (hr_tags r)
      in case lib_tag X (TagInsert CommandTypeKey ''not-a-command'') (hr_tags r) of
           (Some e, _) \<Rightarrow> Finished (report (Some e) s, w)
         | (None, tags) \<Rightarrow>
             let r1 = r\<lparr>hr_tags := tags\<rparr> in
             (case sv_authorizer V r1 of
                Some e \<Rightarrow> Finished (report (Some e) s, w)
              | None \<Rightarrow> route X cfg V report r1 (ci_source_of r1) s w))"

text \<open>\<open>NoOpRequestAuthorizer\<close> (\<open>goblet.go\<close>).\<close>

definition no_op_request_authorizer :: "http_request \<Rightarrow> go_error option" where
  "no_op_request_authorizer r = None"

section \<open>Lemmas\<close>

lemma open_sink_simps [simp]:
  "rw_sent (mw_w (sk_w (open_sink rw flusher))) = rw_sent rw"
  "rw_capacity (mw_w (sk_w (open_sink rw flusher))) = rw_capacity rw"
  "sink_body (open_sink rw flusher) = rw_body rw" "sk_stats (open_sink rw flusher) = []"
  "sk_reported (open_sink rw flusher) = []" "mw_status (sk_w (open_sink rw flusher)) = 0"
  by (simp_all add: open_sink_def monitor_writer_def)

lemma sink_header_add_simps [simp]:
  "sink_body (sink_header_add k v s) = sink_body s" "sk_stats (sink_header_add k v s) = sk_stats s"
  "sk_reported (sink_header_add k v s) = sk_reported s"
  "rw_sent (mw_w (sk_w (sink_header_add k v s))) = rw_sent (mw_w (sk_w s))"
  "rw_capacity (mw_w (sk_w (sink_header_add k v s))) = rw_capacity (mw_w (sk_w s))"
  "mw_status (sk_w (sink_header_add k v s)) = mw_status (sk_w s)"
  by (simp_all add: sink_header_add_def mon_header_add_def header_add_def)

text \<open>A response that nothing was sent on, over a connection that takes everything.\<close>

abbreviation fresh_response :: "resp_writer \<Rightarrow> bool" where
  "fresh_response rw \<equiv> rw_sent rw = None \<and> rw_capacity rw = None \<and> rw_body rw = []"

text \<open>The answer that an error gives before anything was sent.\<close>

definition error_response :: "status_lib \<Rightarrow> bool \<Rightarrow> cmd_tags \<Rightarrow> go_error \<Rightarrow> sink \<Rightarrow> bool" where
  "error_response L has_rep tags e s \<longleftrightarrow>
     (let (c, m) = status_or_internal L (Some e); st = http_status_from_code c
      in (\<exists>hs. rw_sent (mw_w (sk_w s)) = Some (st, hs)) \<and>
         sink_body s = (if m = [] then http_status_text st else m) @ newline \<and>
         sk_stats s = [(tags, c)] \<and>
         sk_reported s = (if server_error_codes c \<and> has_rep then [Some e] else []))"

lemma error_responseI:
  assumes "rw_sent (mw_w (sk_w s)) = None" and "sink_unlimited s" and "sink_body s = []"
    and "sk_stats s = []" and "sk_reported s = []"
  shows "error_response L has_rep tags e (http_report_error L has_rep tags (Some e) s)"
proof -
  obtain c m where cm: "status_or_internal L (Some e) = (c, m)" by fastforce
  from http_report_facts [OF this assms(1-3) refl] assms(4,5) cm show ?thesis
    by (simp add: error_response_def)
qed

lemma serve_http_authorized:
  assumes "lib_tag X (TagInsert CommandTypeKey ''not-a-command'') (hr_tags r0) = (None, tags)"
    and "sv_authorizer V ((full_url r0)\<lparr>hr_tags := tags\<rparr>) = None"
  shows "serve_http X cfg V r0 rw flusher w =
    route X cfg V (http_report_error (lib_status X) (cfg_error_reporter cfg) (hr_tags r0))
      ((full_url r0)\<lparr>hr_tags := tags\<rparr>) (ci_source_of r0) (open_sink rw flusher) w"
proof -
  have "hr_tags (full_url r0) = hr_tags r0" and "hr_header (full_url r0) = hr_header r0"
    by (simp_all add: full_url_def)
  then show ?thesis
    using assms by (simp add: serve_http_def Let_def ci_source_of_def)
qed

lemma write_info_ok:
  assumes "sink_unlimited s"
  shows "\<exists>s'. write_info W report ps s = s' \<and> sink_unlimited s' \<and>
    sink_body s' = sink_body s @ concat (map (encode_info W) ps) \<and> sk_stats s' = sk_stats s"
  using assms
proof (induction ps arbitrary: s)
  case (Cons p ps)
  obtain s1 where s1: "write_packet sink_write (encode_info W p) s = (None, s1)" and "sink_unlimited s1"
    using write_packet_unlimited [OF Cons.prems] by blast
  moreover have "sink_body s1 = sink_body s @ encode_info W p" and "sk_stats s1 = sk_stats s"
    using http_out.write_packet_ok [OF s1] http_out.write_packet_stats [of "encode_info W p" s] s1 by simp_all
  ultimately show ?case using Cons.IH [of s1] by simp
qed simp

lemma sink_write_sent:
  "rw_sent (mw_w (sk_w s)) = None \<Longrightarrow> \<exists>hs. rw_sent (mw_w (sk_w (snd (write_packet sink_write b s)))) = Some (200, hs)"
  "rw_sent (mw_w (sk_w s)) = Some x \<Longrightarrow> rw_sent (mw_w (sk_w (snd (write_packet sink_write b s)))) = Some x"
  by (auto simp: write_packet_def sink_write_def mon_write_def rw_write_def rw_write_header_def mon_flush_def Let_def
      split: option.splits prod.splits if_splits)

lemma write_info_sent:
  assumes "sink_unlimited s" and "rw_sent (mw_w (sk_w s)) = Some x"
  shows "rw_sent (mw_w (sk_w (write_info W report ps s))) = Some x"
  using assms
proof (induction ps arbitrary: s)
  case (Cons p ps)
  obtain s1 where s1: "write_packet sink_write (encode_info W p) s = (None, s1)" and "sink_unlimited s1"
    using write_packet_unlimited [OF Cons.prems(1)] by blast
  moreover have "rw_sent (mw_w (sk_w s1)) = Some x"
    using sink_write_sent(2) [OF Cons.prems(2), of "encode_info W p"] s1 by simp
  ultimately show ?case using Cons.IH by simp
qed simp

section \<open>The loop over the commands\<close>

text \<open>
  The first n commands, in order, each with the environment of its place, from the output and
  the world the one before left: all but the last succeeded, and if some are left over the
  last one failed.
\<close>

definition loop_trace ::
  "('d, 'r) libs \<Rightarrow> server_config \<Rightarrow> (nat \<Rightarrow> 'd run_env) \<Rightarrow> cmd_tags \<Rightarrow> managed_repo \<Rightarrow> string \<Rightarrow> nat \<Rightarrow>
     bytes req_chunk list list \<Rightarrow> nat \<Rightarrow> (nat \<Rightarrow> sink) \<Rightarrow> (nat \<Rightarrow> 'd world) \<Rightarrow> (nat \<Rightarrow> bool) \<Rightarrow> bool" where
  "loop_trace X cfg run tags repo ci i cmds n ss ws oks \<longleftrightarrow>
     n \<le> length cmds \<and> (\<forall>k. Suc k < n \<longrightarrow> oks k) \<and> (n < length cmds \<longrightarrow> (\<exists>k. n = Suc k \<and> \<not> oks k)) \<and>
     (\<forall>k < n. \<exists>w'. handle_v2_command X cfg (run (i + k))
         (git_report_error (lib_status X) (lib_wire X) (cfg_error_reporter cfg)) sink_write repo (cmds ! k) ci tags
         (ss k) (ws k) = Some (oks k, ss (Suc k), w') \<and>
       ws (Suc k) = w'\<lparr>w_stats := w_stats w' @ [RequestDistribution (metric_tags (lib_lower X) (r_upstream repo) (cmds ! k) @
         [if oks k then ''success:1'' else ''success:0''])]\<rparr>)"

lemma loop_trace_failed:
  assumes "handle_v2_command X cfg (run i) (git_report_error (lib_status X) (lib_wire X) (cfg_error_reporter cfg)) sink_write
      repo c ci tags s w = Some (False, s1, w1)"
    and "w2 = w1\<lparr>w_stats := w_stats w1 @ [RequestDistribution (metric_tags (lib_lower X) (r_upstream repo) c @ [''success:0''])]\<rparr>"
  shows "loop_trace X cfg run tags repo ci i (c # cmds) 1 (case_nat s (\<lambda>_. s1)) (case_nat w (\<lambda>_. w2)) (\<lambda>_. False)"
  using assms by (simp add: loop_trace_def)

lemma loop_trace_step:
  assumes "handle_v2_command X cfg (run i) (git_report_error (lib_status X) (lib_wire X) (cfg_error_reporter cfg)) sink_write
      repo c ci tags s w = Some (True, ss 0, w1)"
    and "ws 0 = w1\<lparr>w_stats := w_stats w1 @ [RequestDistribution (metric_tags (lib_lower X) (r_upstream repo) c @ [''success:1''])]\<rparr>"
    and "loop_trace X cfg run tags repo ci (i + 1) cmds n ss ws oks"
  shows "loop_trace X cfg run tags repo ci i (c # cmds) (Suc n) (case_nat s ss) (case_nat w ws) (case_nat True oks)"
  unfolding loop_trace_def
proof (intro conjI allI impI)
  show "Suc n \<le> length (c # cmds)" using assms(3) by (simp add: loop_trace_def)
  show "case_nat True oks k" if "Suc k < Suc n" for k
    using assms(3) that by (cases k) (simp_all add: loop_trace_def)
  show "\<exists>k. Suc n = Suc k \<and> \<not> case_nat True oks k" if "Suc n < length (c # cmds)"
    using assms(3) that by (auto simp: loop_trace_def)
  fix k assume "k < Suc n"
  then show "\<exists>w'. handle_v2_command X cfg (run (i + k))
      (git_report_error (lib_status X) (lib_wire X) (cfg_error_reporter cfg)) sink_write repo ((c # cmds) ! k) ci tags
      (case_nat s ss k) (case_nat w ws k) = Some (case_nat True oks k, case_nat s ss (Suc k), w') \<and>
    case_nat w ws (Suc k) = w'\<lparr>w_stats := w_stats w' @ [RequestDistribution
      (metric_tags (lib_lower X) (r_upstream repo) ((c # cmds) ! k) @ [if case_nat True oks k then ''success:1'' else ''success:0''])]\<rparr>"
    using assms by (cases k) (simp_all add: loop_trace_def)
qed

lemma command_loop_trace:
  "command_loop X cfg run tags repo ci i cmds s w = Finished (s', w') \<Longrightarrow>
     \<exists>n ss ws oks. loop_trace X cfg run tags repo ci i cmds n ss ws oks \<and> ss 0 = s \<and> ws 0 = w \<and> ss n = s' \<and> ws n = w'"
proof (induction cmds arbitrary: i s w)
  case Nil
  then show ?case
    by (intro exI [of _ 0] exI [of _ "\<lambda>_. s"] exI [of _ "\<lambda>_. w"]) (simp add: loop_trace_def)
next
  case (Cons c cmds)
  obtain ok s1 w1 where run: "handle_v2_command X cfg (run i)
      (git_report_error (lib_status X) (lib_wire X) (cfg_error_reporter cfg)) sink_write repo c ci tags s w = Some (ok, s1, w1)"
    using Cons.prems by (auto simp: Let_def split: option.splits)
  define w2 where "w2 = w1\<lparr>w_stats := w_stats w1 @ [RequestDistribution (metric_tags (lib_lower X) (r_upstream repo) c @
    [if ok then ''success:1'' else ''success:0''])]\<rparr>"
  show ?case
  proof (cases ok)
    case False
    with Cons.prems run have "s' = s1" "w' = w2" by (simp_all add: w2_def)
    have "handle_v2_command X cfg (run i) (git_report_error (lib_status X) (lib_wire X) (cfg_error_reporter cfg)) sink_write
      repo c ci tags s w = Some (False, s1, w1)" using run False by simp
    then have "loop_trace X cfg run tags repo ci i (c # cmds) 1 (case_nat s (\<lambda>_. s1)) (case_nat w (\<lambda>_. w2)) (\<lambda>_. False)"
      using False by (intro loop_trace_failed) (simp_all add: w2_def)
    with \<open>s' = s1\<close> \<open>w' = w2\<close> show ?thesis
      by (intro exI [of _ 1] exI [of _ "case_nat s (\<lambda>_. s1)"] exI [of _ "case_nat w (\<lambda>_. w2)"] exI [of _ "\<lambda>_. False"]) simp
  next
    case True
    with Cons.prems run have "command_loop X cfg run tags repo ci (i + 1) cmds s1 w2 = Finished (s', w')"
      by (simp add: w2_def Let_def)
    from Cons.IH [OF this] obtain n ss ws oks where trace: "loop_trace X cfg run tags repo ci (i + 1) cmds n ss ws oks"
      and ends: "ss 0 = s1" "ws 0 = w2" "ss n = s'" "ws n = w'" by blast
    have "loop_trace X cfg run tags repo ci i (c # cmds) (Suc n) (case_nat s ss) (case_nat w ws) (case_nat True oks)"
      using run True ends by (intro loop_trace_step [OF _ _ trace]) (simp_all add: w2_def)
    then show ?thesis using ends(3,4)
      by (intro exI [of _ "Suc n"] exI [of _ "case_nat s ss"] exI [of _ "case_nat w ws"] exI [of _ "case_nat True oks"]) simp
  qed
qed

text \<open>Each command of a trace is reported once, without an error where it succeeded.\<close>

lemma loop_trace_reports:
  assumes "loop_trace X cfg run tags repo ci i cmds n ss ws oks" and "k < n"
  shows "\<exists>t e. sk_stats (ss (Suc k)) = sk_stats (ss k) @ [(t, fst (status_or_internal (lib_status X) e))] \<and> (oks k \<longrightarrow> e = None)"
proof -
  from assms obtain w' where "handle_v2_command X cfg (run (i + k))
      (git_report_error (lib_status X) (lib_wire X) (cfg_error_reporter cfg)) sink_write repo (cmds ! k) ci tags
      (ss k) (ws k) = Some (oks k, ss (Suc k), w')" by (auto simp: loop_trace_def)
  from http_out.handle_v2_once [OF this] show ?thesis by (simp add: one_more_def)
qed

lemma handle_v2_no_panic:
  "command \<noteq> [] \<Longrightarrow> handle_v2_command X cfg E report wr r command ci tags s w \<noteq> None"
  by (cases command) (auto simp: handle_v2_command_def simp del: not_None_eq split: option.splits prod.splits)

lemma command_loop_no_panic:
  "list_all (\<lambda>c. c \<noteq> []) cmds \<Longrightarrow> command_loop X cfg run tags repo ci i cmds s w \<noteq> Panicked"
  by (induction cmds arbitrary: i s w) (auto simp: Let_def handle_v2_no_panic split: option.splits)

lemma scanned_commands:
  assumes "new_request_scanner W b h = (sc, h')" and "parse_all_commands L W sc h' = Inr cmds"
  shows "list_all command_ok cmds"
proof -
  have "sc_buf sc < next_addr h'" and "\<not> sc_done sc"
    using assms(1) by (auto simp: new_request_scanner_def split: prod.splits)
  from parse_all_values [OF this] assms(2) show ?thesis
    by (simp add: parse_values_commands)
qed

section \<open>A concrete server, for witnesses\<close>

definition demo_server :: "(http_request \<Rightarrow> go_error option) \<Rightarrow> 'd server_env" where
  "demo_server auth = \<lparr>sv_authorizer = auth, sv_canon = github_url_canonicalizer id, sv_gunzip = Inr,
     sv_run = (\<lambda>_. demo_env), sv_store = demo_store\<rparr>"

definition demo_request :: "string \<Rightarrow> string \<Rightarrow> bytes \<Rightarrow> http_request" where
  "demo_request p q b = \<lparr>hr_url = \<lparr>u_scheme = [], u_host = [], u_path = p, u_query = q\<rparr>, hr_host = ''github.com'',
     hr_header = (\<lambda>_. []), hr_body = (b, None), hr_tags = no_tags\<rparr>"

definition demo_response :: resp_writer where
  "demo_response = \<lparr>rw_header = [], rw_sent = None, rw_body = [], rw_capacity = None\<rparr>"

definition deny :: "http_request \<Rightarrow> go_error option" where
  "deny r = Some (StatusError PermissionDenied ''access denied'')"

lemma demo_response_fresh: "fresh_response demo_response"
  by (simp add: demo_response_def)

lemma demo_insert:
  "lib_tag (demo_libs reply) (TagInsert CommandTypeKey ''not-a-command'') (hr_tags (demo_request p q b)) =
     (None, no_tags\<lparr>tg_type := Some ''not-a-command''\<rparr>)"
  by (simp add: plain_tag_def demo_request_def no_tags_def get_tag_def set_tag_def)

lemma demo_server_simps [simp]:
  "sv_authorizer (demo_server auth) = auth" "sv_gunzip (demo_server auth) = Inr"
  "sv_store (demo_server auth) = demo_store"
  "sv_canon (demo_server auth) = github_url_canonicalizer id"
  "hr_tags (demo_request p q b) = no_tags" "hr_header (demo_request p q b) h = []"
  "u_path (hr_url (demo_request p q b)) = p" "u_query (hr_url (demo_request p q b)) = q"
  "hr_body (demo_request p q b) = (b, None)"
  by (simp_all add: demo_server_def demo_request_def)

lemma demo_scanned:
  assumes "b \<noteq> []" and "new_request_scanner plain_wire (b, None) st = (sc, h)"
  shows "parse_all_commands plain_status plain_wire sc h =
    (if known_command b then Inr [[chunk_of b None]] else Inl (err_unrecognized plain_wire (chunk_of b None)))"
proof -
  have sc: "sc_buf sc < next_addr h" "\<not> sc_done sc" "sc_final sc = None"
    "sc_pending sc = [chunk_of b None, flush_chunk]"
    using assms by (auto simp: new_request_scanner_def plain_wire_def chunk_of_def)
  have "parse_values plain_status plain_wire None [chunk_of b None, flush_chunk] =
      (if known_command b then Inr [[chunk_of b None]] else Inl (err_unrecognized plain_wire (chunk_of b None)))"
    by (subst parse_values.simps) (simp add: parse_values_nil chunk_of_def flush_chunk_def)
  then show ?thesis
    using sc by (simp add: parse_all_values [OF sc(1,2)])
qed

section \<open>Properties\<close>

text \<open>
  C5: a request the authorizer refuses changes nothing: no repository is opened, nothing
  is asked of git or the upstream, and the client gets the status line and message of the
  error, whose code is counted once.
\<close>

theorem refused_request_no_effect:
  assumes "lib_tag X (TagInsert CommandTypeKey ''not-a-command'') (hr_tags r) = (None, tags)"
    and "sv_authorizer V ((full_url r)\<lparr>hr_tags := tags\<rparr>) = Some e" and "fresh_response rw"
  shows "\<exists>s'. serve_http X cfg V r rw flusher w = Finished (s', w) \<and>
    error_response (lib_status X) (cfg_error_reporter cfg) (hr_tags r) e s'"
proof -
  have "hr_tags (full_url r) = hr_tags r" by (simp add: full_url_def)
  then have "serve_http X cfg V r rw flusher w =
      Finished (http_report_error (lib_status X) (cfg_error_reporter cfg) (hr_tags r) (Some e) (open_sink rw flusher), w)"
    using assms(1,2) by (simp add: serve_http_def Let_def)
  with assms(3) show ?thesis by (simp add: error_responseI)
qed

theorem refused_request_no_effect_witness:
  "\<exists>s'. serve_http (demo_libs demo_reply) demo_config (demo_server deny) (demo_request ''/o/r/git-upload-pack'' [] ''fetch'')
     demo_response True demo_world = Finished (s', demo_world) \<and> sink_body s' = ''access denied'' @ newline"
proof -
  obtain s' where "serve_http (demo_libs demo_reply) demo_config (demo_server deny)
      (demo_request ''/o/r/git-upload-pack'' [] ''fetch'') demo_response True demo_world = Finished (s', demo_world)"
    and "error_response plain_status True no_tags (StatusError PermissionDenied ''access denied'') s'"
    using refused_request_no_effect [OF demo_insert _ demo_response_fresh,
        of "demo_server deny" "''/o/r/git-upload-pack''" "[]" "''fetch''" "StatusError PermissionDenied ''access denied''"
        demo_reply demo_config True demo_world]
    by (auto simp: deny_def demo_config_def)
  then show ?thesis
    using status_or_internal_simps(2) [OF plain_status_law] by (auto simp: error_response_def)
qed

text \<open>
  An authorized push is refused with 501, whatever the rest of the request, and
  nothing is changed.
\<close>

theorem receive_pack_refused:
  assumes "lib_tag X (TagInsert CommandTypeKey ''not-a-command'') (hr_tags r) = (None, tags)"
    and "sv_authorizer V ((full_url r)\<lparr>hr_tags := tags\<rparr>) = None" and "fresh_response rw"
    and "has_suffix (u_path (hr_url r)) ''/git-receive-pack''" and "status_law (lib_status X)"
  shows "\<exists>s' hs. serve_http X cfg V r rw flusher w = Finished (s', w) \<and>
    rw_sent (mw_w (sk_w s')) = Some (501, hs) \<and> sink_body s' = ''git-receive-pack not supported'' @ newline \<and>
    sk_stats s' = [(hr_tags r, Unimplemented)] \<and> sk_reported s' = []"
proof -
  let ?e = "StatusError Unimplemented ''git-receive-pack not supported''"
  have path: "u_path (hr_url ((full_url r)\<lparr>hr_tags := tags\<rparr>)) = u_path (hr_url r)"
    by (simp add: full_url_def)
  have "\<not> has_suffix (u_path (hr_url r)) ''/info/refs''"
    using assms(4) by (auto simp: has_suffix_iff)
  with assms(4) path have "serve_http X cfg V r rw flusher w = Finished (http_report_error (lib_status X)
      (cfg_error_reporter cfg) (hr_tags r) (Some ?e) (open_sink rw flusher), w)"
    by (simp add: serve_http_authorized [OF assms(1,2)] route_def Let_def)
  moreover have "error_response (lib_status X) (cfg_error_reporter cfg) (hr_tags r) ?e (http_report_error (lib_status X)
      (cfg_error_reporter cfg) (hr_tags r) (Some ?e) (open_sink rw flusher))"
    using assms(3) by (simp add: error_responseI)
  ultimately show ?thesis
    using status_or_internal_simps(2) [OF assms(5)]
    by (auto simp: error_response_def http_status_from_code_def server_error_codes_def)
qed

theorem receive_pack_refused_witness:
  "\<exists>s' hs. serve_http (demo_libs demo_reply) demo_config (demo_server no_op_request_authorizer)
     (demo_request ''/o/r/git-receive-pack'' [] []) demo_response True demo_world = Finished (s', demo_world) \<and>
     rw_sent (mw_w (sk_w s')) = Some (501, hs)"
  using receive_pack_refused [OF demo_insert _ demo_response_fresh,
      of "demo_server no_op_request_authorizer" "''/o/r/git-receive-pack''" "[]" "[]" demo_reply demo_config True demo_world]
    plain_status_law
  by (auto simp: no_op_request_authorizer_def has_suffix_def)

text \<open>
  A reference advertisement for git-upload-pack is answered 200 with the version 2
  capabilities, five packets in a fixed order, without touching any state; nothing is
  recorded.
\<close>

theorem info_refs_advertisement:
  assumes "lib_tag X (TagInsert CommandTypeKey ''not-a-command'') (hr_tags r) = (None, tags)"
    and "sv_authorizer V ((full_url r)\<lparr>hr_tags := tags\<rparr>) = None" and "fresh_response rw"
    and "has_suffix (u_path (hr_url r)) ''/info/refs''"
    and "query_get (parse_query (u_query (hr_url r))) ''service'' = ''git-upload-pack''"
  shows "\<exists>s' hs. serve_http X cfg V r rw flusher w = Finished (s', w) \<and> sk_stats s' = [] \<and>
    rw_sent (mw_w (sk_w s')) = Some (200, hs) \<and>
    sink_body s' = encode_info (lib_wire X) (ProtocolVersion 2) @
      encode_info (lib_wire X) (Capabilities [''ls-refs'']) @
      encode_info (lib_wire X) (Capabilities [''fetch=filter shallow'']) @
      encode_info (lib_wire X) (Capabilities [''server-option'']) @ encode_info (lib_wire X) EndOfRequest"
proof -
  let ?r = "(full_url r)\<lparr>hr_tags := tags\<rparr>" and ?W = "lib_wire X"
  let ?report = "http_report_error (lib_status X) (cfg_error_reporter cfg) (hr_tags r)"
  let ?s = "sink_header_add ''Content-Type'' ''application/x-git-upload-pack-advertisement'' (open_sink rw flusher)"
  have path: "u_path (hr_url ?r) = u_path (hr_url r)" "u_query (hr_url ?r) = u_query (hr_url r)"
    by (simp_all add: full_url_def)
  then have run: "serve_http X cfg V r rw flusher w = Finished (write_info ?W ?report info_refs_packets ?s, w)"
    using assms(4,5) by (simp add: serve_http_authorized [OF assms(1,2)] route_def info_refs_handler_def Let_def)
  have unl: "sink_unlimited ?s" using assms(3) by simp
  from write_info_ok [OF this, of ?W ?report info_refs_packets] assms(3)
  have body: "sink_body (write_info ?W ?report info_refs_packets ?s) = concat (map (encode_info ?W) info_refs_packets)"
    and stats: "sk_stats (write_info ?W ?report info_refs_packets ?s) = []" by simp_all
  obtain s1 where s1: "write_packet sink_write (encode_info ?W (ProtocolVersion 2)) ?s = (None, s1)"
    and u1: "sink_unlimited s1"
    using write_packet_unlimited [OF unl] by blast
  have "rw_sent (mw_w (sk_w ?s)) = None" using assms(3) by simp
  from sink_write_sent(1) [OF this, of "encode_info ?W (ProtocolVersion 2)"] s1
  obtain hs where "rw_sent (mw_w (sk_w s1)) = Some (200, hs)" by auto
  from write_info_sent [OF u1 this]
  have "rw_sent (mw_w (sk_w (write_info ?W ?report (ProtocolVersion 2 # ps) ?s))) = Some (200, hs)" for ps
    using s1 by simp
  then have "rw_sent (mw_w (sk_w (write_info ?W ?report info_refs_packets ?s))) = Some (200, hs)"
    unfolding info_refs_packets_def .
  with run body stats show ?thesis by (simp add: info_refs_packets_def)
qed

theorem info_refs_advertisement_witness:
  "\<exists>s' hs. serve_http (demo_libs demo_reply) demo_config (demo_server no_op_request_authorizer)
     (demo_request ''/o/r/info/refs'' ''a=b&service=git%2Dupload-pack'' []) demo_response True demo_world
     = Finished (s', demo_world) \<and> rw_sent (mw_w (sk_w s')) = Some (200, hs) \<and> sink_body s' = ''IIIII''"
proof -
  have "query_get (parse_query ''a=b&service=git%2Dupload-pack'') ''service'' = ''git-upload-pack''"
    by code_simp
  with info_refs_advertisement [OF demo_insert _ demo_response_fresh,
      of "demo_server no_op_request_authorizer" "''/o/r/info/refs''" "''a=b&service=git%2Dupload-pack''" "[]" demo_reply
      demo_config True demo_world]
  show ?thesis by (auto simp: no_op_request_authorizer_def has_suffix_def plain_wire_def)
qed

text \<open>
  C10: once the body of a request has parsed and its repository is open, the commands are
  handled in order, each by \<open>handleV2Command\<close> from the output and the world the one before
  left, up to and including the first that fails, and all of them if none does; what they
  leave is what the request leaves, and each one handled is reported exactly once.
\<close>

theorem commands_until_failure:
  assumes "(if hr_header r ''Content-Encoding'' = ''gzip'' then sv_gunzip V (hr_body r) else Inr (hr_body r)) = Inr b"
    and "new_request_scanner (lib_wire X) b (sv_store V) = (sc, h)"
    and "parse_all_commands (lib_status X) (lib_wire X) sc h = Inr cmds"
    and "open_managed_repository (lib_status X) (lib_git X) cfg (sv_canon V) (hr_url r) w = Returns (Inr repo, w1)"
    and "upload_pack_handler X cfg V report r ci s w = Finished (s', w')"
  shows "\<exists>n ss ws oks. loop_trace X cfg (sv_run V) (hr_tags r) repo ci 0 cmds n ss ws oks \<and>
    ss 0 = sink_header_add ''Content-Type'' ''application/x-git-upload-pack-result'' s \<and> ws 0 = w1 \<and>
    ss n = s' \<and> ws n = w' \<and>
    (\<forall>k < n. \<exists>t e. sk_stats (ss (Suc k)) = sk_stats (ss k) @ [(t, fst (status_or_internal (lib_status X) e))] \<and>
      (oks k \<longrightarrow> e = None))"
proof -
  have "command_loop X cfg (sv_run V) (hr_tags r) repo ci 0 cmds
      (sink_header_add ''Content-Type'' ''application/x-git-upload-pack-result'' s) w1 = Finished (s', w')"
    using assms by (simp add: upload_pack_handler_def Let_def)
  from command_loop_trace [OF this] obtain n ss ws oks where
    "loop_trace X cfg (sv_run V) (hr_tags r) repo ci 0 cmds n ss ws oks"
    "ss 0 = sink_header_add ''Content-Type'' ''application/x-git-upload-pack-result'' s" "ws 0 = w1" "ss n = s'" "ws n = w'"
    by blast
  with loop_trace_reports show ?thesis by blast
qed

theorem commands_until_failure_witness:
  "\<exists>s' w'. upload_pack_handler (demo_libs demo_reply) demo_config (demo_server deny) (\<lambda>_ s. s)
      ((demo_request [] [] ''fetch'')\<lparr>hr_url := https_url ''github.com'' ''/o/r''\<rparr>) ''ci'' (fresh_sink None) demo_world
      = Finished (s', w') \<and> length (sk_stats s') = 1"
proof -
  let ?r = "(demo_request [] [] ''fetch'')\<lparr>hr_url := https_url ''github.com'' ''/o/r''\<rparr>"
  obtain sc h where sc: "new_request_scanner plain_wire (''fetch'', None) demo_store = (sc, h)"
    by fastforce
  have cmds: "parse_all_commands plain_status plain_wire sc h = Inr [[chunk_of ''fetch'' None]]"
    using demo_scanned [OF _ sc] by (simp add: known_command_def)
  obtain m where open_ok: "open_managed_repository plain_status (demo_git demo_reply) demo_config
      (github_url_canonicalizer id) (hr_url ?r) demo_world = Returns (Inr m, opened_world)"
    using demo_open by auto
  have "\<exists>s' w'. command_loop (demo_libs demo_reply) demo_config run tags m ci 0 [[chunk_of ''fetch'' None]] s1 opened_world
      = Finished (s', w')" for run tags ci s1
    using handle_v2_no_panic [of "[chunk_of ''fetch'' None]"] by (auto simp: Let_def split: option.split)
  moreover have "upload_pack_handler (demo_libs demo_reply) demo_config (demo_server deny) (\<lambda>_ s. s)
      ?r ''ci'' (fresh_sink None) demo_world =
    command_loop (demo_libs demo_reply) demo_config (sv_run (demo_server deny)) (hr_tags ?r) m ''ci'' 0
      [[chunk_of ''fetch'' None]]
      (sink_header_add ''Content-Type'' ''application/x-git-upload-pack-result'' (fresh_sink None)) opened_world"
    using sc cmds open_ok by (simp add: upload_pack_handler_def Let_def del: command_loop.simps)
  ultimately obtain s' w' where run: "upload_pack_handler (demo_libs demo_reply) demo_config (demo_server deny) (\<lambda>_ s. s)
      ?r ''ci'' (fresh_sink None) demo_world = Finished (s', w')" by metis
  from commands_until_failure [where X = "demo_libs demo_reply" and V = "demo_server deny"
      and b = "(''fetch'', None)" and sc = sc and h = h and cmds = "[[chunk_of ''fetch'' None]]", OF _ _ _ _ run]
    sc cmds open_ok
  obtain n ss ws oks where trace: "loop_trace (demo_libs demo_reply) demo_config (sv_run (demo_server deny)) (hr_tags ?r) m ''ci'' 0
      [[chunk_of ''fetch'' None]] n ss ws oks"
    and ends: "ss 0 = sink_header_add ''Content-Type'' ''application/x-git-upload-pack-result'' (fresh_sink None)" "ss n = s'"
    and once: "\<And>k. k < n \<Longrightarrow> length (sk_stats (ss (Suc k))) = length (sk_stats (ss k)) + 1"
    by fastforce
  have "n = 1" using trace by (auto simp: loop_trace_def)
  with once [of 0] ends run show ?thesis by auto
qed

text \<open>
  No request makes the server panic, whatever the body, the upstream and git answer:
  a parsed command is never empty.
\<close>

theorem no_request_panics: "serve_http X cfg V r rw flusher w \<noteq> Panicked"
proof -
  have "upload_pack_handler X cfg V report r' ci s w \<noteq> Panicked" for report r' ci s
  proof -
    have "command_loop X cfg (sv_run V) (hr_tags r') repo ci 0 cmds s1 w1 \<noteq> Panicked"
      if "new_request_scanner (lib_wire X) b (sv_store V) = (sc, h)"
        and "parse_all_commands (lib_status X) (lib_wire X) sc h = Inr cmds" for b sc h cmds repo s1 w1
      using scanned_commands [OF that] by (intro command_loop_no_panic) (auto simp: list_all_iff command_ok_def)
    then show ?thesis
      by (auto simp: upload_pack_handler_def Let_def split: sum.splits prod.splits process.splits)
  qed
  then show ?thesis
    by (simp add: serve_http_def route_def Let_def split: option.splits prod.splits)
qed

text \<open>
  A request whose body does not parse, for instance because of one unrecognized
  command in it, changes nothing: no command of it is run and no repository is opened.
\<close>

theorem malformed_request_no_effect:
  assumes "new_request_scanner (lib_wire X) (hr_body r) (sv_store V) = (sc, h)"
    and "parse_all_commands (lib_status X) (lib_wire X) sc h = Inl e"
    and "hr_header r ''Content-Encoding'' \<noteq> ''gzip''"
  shows "upload_pack_handler X cfg V report r ci s w =
    Finished (report (Some e) (sink_header_add ''Content-Type'' ''application/x-git-upload-pack-result'' s), w)"
  using assms by (simp add: upload_pack_handler_def Let_def)

theorem malformed_request_no_effect_witness:
  "\<exists>e. upload_pack_handler (demo_libs demo_reply) demo_config (demo_server deny)
      (\<lambda>e s. s\<lparr>sk_reported := sk_reported s @ [e]\<rparr>) (demo_request [] [] ''push'') ''ci'' (fresh_sink None) demo_world
      = Finished ((sink_header_add ''Content-Type'' ''application/x-git-upload-pack-result'' (fresh_sink None))\<lparr>sk_reported := [e]\<rparr>,
          demo_world)"
proof -
  obtain sc h where sc: "new_request_scanner plain_wire (''push'', None) demo_store = (sc, h)"
    by fastforce
  let ?e = "err_unrecognized plain_wire (chunk_of ''push'' None)"
  have "parse_all_commands plain_status plain_wire sc h = Inl ?e"
    using demo_scanned [OF _ sc] by (simp add: known_command_def)
  then show ?thesis
    using malformed_request_no_effect [where X = "demo_libs demo_reply" and V = "demo_server deny"
        and r = "demo_request [] [] ''push''" and sc = sc and h = h and e = ?e] sc
    by (intro exI [of _ "Some ?e"]) simp
qed

end
