(* ===== verification/Base64.thy ===== *)
theory Base64
  imports Prelude
begin

text \<open>
  The standard library's \<open>base64.StdEncoding\<close> and HTTP basic authentication, which the
  authorizers read and the token sources write, with their round trips.
\<close>

section \<open>base64.StdEncoding\<close>

definition b64_char :: "nat \<Rightarrow> char" where
  "b64_char n = char_of (if n < 26 then 65 + n else if n < 52 then 71 + n else if n < 62 then n - 4
     else if n = 62 then 43 else 47)"

definition b64_val :: "char \<Rightarrow> nat option" where
  "b64_val c = (let n = (of_char c :: nat) in
     if 65 \<le> n \<and> n \<le> 90 then Some (n - 65) else if 97 \<le> n \<and> n \<le> 122 then Some (n - 71)
     else if 48 \<le> n \<and> n \<le> 57 then Some (n + 4) else if n = 43 then Some 62
     else if n = 47 then Some 63 else None)"

abbreviation code_of :: "char \<Rightarrow> nat" where
  "code_of c \<equiv> of_char c"

fun b64_encode :: "bytes \<Rightarrow> string" where
  "b64_encode [] = []"
| "b64_encode [a] = [b64_char (code_of a div 4), b64_char (code_of a mod 4 * 16), CHR ''='', CHR ''='']"
| "b64_encode [a, b] = [b64_char (code_of a div 4), b64_char (code_of a mod 4 * 16 + code_of b div 16),
     b64_char (code_of b mod 16 * 4), CHR ''='']"
| "b64_encode (a # b # c # rest) =
     [b64_char (code_of a div 4), b64_char (code_of a mod 4 * 16 + code_of b div 16),
      b64_char (code_of b mod 16 * 4 + code_of c div 64), b64_char (code_of c mod 64)] @ b64_encode rest"

text \<open>Quadruples of characters; padding only at the end. New lines were taken out before.\<close>

fun b64_quads :: "string \<Rightarrow> bytes option" where
  "b64_quads [] = Some []"
| "b64_quads (a # b # c # d # rest) =
     (case (b64_val a, b64_val b) of
        (Some x, Some y) \<Rightarrow>
          if c = CHR ''='' then
            (if d = CHR ''='' \<and> rest = [] then Some [char_of (x * 4 + y div 16)] else None)
          else (case b64_val c of
                  None \<Rightarrow> None
                | Some z \<Rightarrow>
                    if d = CHR ''='' then
                      (if rest = [] then Some [char_of (x * 4 + y div 16), char_of (y mod 16 * 16 + z div 4)] else None)
                    else (case b64_val d of
                            None \<Rightarrow> None
                          | Some u \<Rightarrow> map_option (\<lambda>bs. char_of (x * 4 + y div 16) # char_of (y mod 16 * 16 + z div 4) #
                              char_of (z mod 4 * 64 + u) # bs) (b64_quads rest)))
      | _ \<Rightarrow> None)"
| "b64_quads _ = None"

definition b64_decode :: "string \<Rightarrow> bytes option" where
  "b64_decode s = b64_quads (filter (\<lambda>c. c \<noteq> CHR 0x0A \<and> c \<noteq> CHR 0x0D) s)"

lemma code_of_less: "code_of c < 256"
  by (rule nat_of_char_less_256)

lemma code_of_divs [simp]:
  "code_of c div 16 div 16 = 0" "code_of c div 64 div 4 = 0"
  "code_of c div 16 mod 16 = code_of c div 16" "code_of c div 64 mod 4 = code_of c div 64"
  using code_of_less [of c] by (simp_all flip: div_mult2_eq add: less_mult_imp_div_less)

lemma b64_val_char: "n < 64 \<Longrightarrow> b64_val (b64_char n) = Some n"
  by (auto simp: b64_val_def b64_char_def of_char_of Let_def)

lemma b64_val_none: "b64_val (CHR ''='') = None" "b64_val (CHR 0x0A) = None" "b64_val (CHR 0x0D) = None"
  by (simp_all add: b64_val_def)

lemma b64_char_plain:
  "n < 64 \<Longrightarrow> b64_char n \<noteq> CHR ''='' \<and> b64_char n \<noteq> CHR 0x0A \<and> b64_char n \<noteq> CHR 0x0D"
  using b64_val_char b64_val_none by (metis option.distinct(1))

lemma b64_parts:
  "code_of a div 4 < 64" "code_of a mod 4 * 16 < 64" "code_of a mod 4 * 16 + code_of b div 16 < 64"
  "code_of b mod 16 * 4 < 64" "code_of b mod 16 * 4 + code_of c div 64 < 64" "code_of c mod 64 < 64"
proof -
  have "code_of a div 4 < 64" "code_of b div 16 < 16" "code_of c div 64 < 4"
    using code_of_less by (simp_all add: less_mult_imp_div_less)
  moreover have "code_of a mod 4 < 4" "code_of b mod 16 < 16" "code_of c mod 64 < 64" by simp_all
  ultimately show "code_of a div 4 < 64" "code_of a mod 4 * 16 < 64" "code_of a mod 4 * 16 + code_of b div 16 < 64"
    "code_of b mod 16 * 4 < 64" "code_of b mod 16 * 4 + code_of c div 64 < 64" "code_of c mod 64 < 64"
    by linarith+
qed

lemma b64_quads_encode: "b64_quads (b64_encode bs) = Some bs"
proof (induction bs rule: b64_encode.induct)
  case (2 a)
  then show ?case by (simp add: b64_val_char b64_parts)
next
  case (3 a b)
  then show ?case by (simp add: b64_val_char b64_parts b64_char_plain)
next
  case (4 a b c rest)
  then show ?case by (simp add: b64_val_char b64_parts b64_char_plain)
qed simp

lemma b64_encode_no_newline: "filter (\<lambda>c. c \<noteq> CHR 0x0A \<and> c \<noteq> CHR 0x0D) (b64_encode bs) = b64_encode bs"
  by (induction bs rule: b64_encode.induct) (simp_all add: b64_parts b64_char_plain)

lemma b64_roundtrip: "b64_decode (b64_encode bs) = Some bs"
  by (simp add: b64_decode_def b64_encode_no_newline b64_quads_encode)

section \<open>Basic authentication\<close>

text \<open>\<open>strings.Cut\<close> on a colon: \<open>None\<close> when there is none.\<close>

definition cut_colon :: "string \<Rightarrow> (string \<times> string) option" where
  "cut_colon s =
     (if CHR '':'' \<in> set s then Some (takeWhile (\<lambda>c. c \<noteq> CHR '':'') s, tl (dropWhile (\<lambda>c. c \<noteq> CHR '':'') s))
      else None)"

text \<open>\<open>Request.BasicAuth\<close> on the value of the Authorization header.\<close>

definition basic_auth :: "string \<Rightarrow> (string \<times> string) option" where
  "basic_auth auth =
     (if length auth < 6 \<or> map lower_byte (take 6 auth) \<noteq> ''basic '' then None
      else case b64_decode (drop 6 auth) of None \<Rightarrow> None | Some cs \<Rightarrow> cut_colon cs)"

lemma cut_colon_append:
  assumes "CHR '':'' \<notin> set u"
  shows "cut_colon (u @ CHR '':'' # p) = Some (u, p)"
proof -
  have "takeWhile (\<lambda>c. c \<noteq> CHR '':'') (u @ CHR '':'' # p) = u"
    using assms by (induction u) auto
  moreover have "dropWhile (\<lambda>c. c \<noteq> CHR '':'') (u @ CHR '':'' # p) = CHR '':'' # p"
    using assms by (induction u) auto
  ultimately show ?thesis by (simp add: cut_colon_def)
qed

lemma basic_auth_encoded:
  assumes "CHR '':'' \<notin> set u"
  shows "basic_auth (''Basic '' @ b64_encode (u @ CHR '':'' # p)) = Some (u, p)"
proof -
  have "map lower_byte ''Basic '' = ''basic ''" by code_simp
  then show ?thesis
    using cut_colon_append [OF assms, of p] by (simp add: basic_auth_def b64_roundtrip)
qed

end
