(* ===== verification/Authorizer.thy ===== *)
theory Authorizer
  imports Server Base64
begin

text \<open>
  The GitHub request authorizer (\<open>github/authorizer.go\<close>): basic authentication, the
  validation of a token against a repository, and the cache of its results. GitHub's
  answers and the cache library are arguments; \<open>cache_law\<close> is what the library documents:
  a value that is got was set for that key and has not been replaced since, and entries
  may go at any time.
\<close>

section \<open>isTokenValid\<close>

datatype validation = NoRequest go_error | NotSent go_error | BodyLost go_error | Answered int string

type_synonym github = "string \<Rightarrow> string \<Rightarrow> validation"

definition info_refs_url :: "string \<Rightarrow> string" where
  "info_refs_url repo_url = repo_url @ ''/info/refs?service=git-upload-pack''"

definition is_token_valid :: "github \<Rightarrow> string \<Rightarrow> string \<Rightarrow> bool \<times> bool \<times> go_error option" where
  "is_token_valid G token repo_url =
     (case G (info_refs_url repo_url) token of
        NoRequest e \<Rightarrow> (False, True, Some e)
      | NotSent e \<Rightarrow> (False, True, Some e)
      | BodyLost e \<Rightarrow> (False, True, Some e)
      | Answered st body \<Rightarrow>
          if st \<noteq> 200 then
            (let err = Some (PlainError body) in
             if st \<ge> 500 \<and> st < 600 \<and> st \<noteq> 501 then (False, False, err) else (False, True, err))
          else (True, True, None))"

section \<open>The cache and the authorizer\<close>

record cache_counters =
  cc_retrievals :: int
  cc_misses :: int
  cc_inserted :: int
  cc_evicted :: int

record 'c cache_lib =
  cache_get :: "string \<Rightarrow> 'c \<Rightarrow> bool option \<times> 'c"
  cache_set :: "string \<Rightarrow> bool \<Rightarrow> 'c \<Rightarrow> 'c"
  cache_count :: "'c \<Rightarrow> int"
  cache_counters_of :: "'c \<Rightarrow> cache_counters"

definition cache_law :: "'c cache_lib \<Rightarrow> ('c \<Rightarrow> string \<Rightarrow> bool option) \<Rightarrow> bool" where
  "cache_law C view \<longleftrightarrow>
     (\<forall>k c b c'. cache_get C k c = (b, c') \<longrightarrow> (\<forall>v. b = Some v \<longrightarrow> view c k = Some v) \<and> view c' \<subseteq>\<^sub>m view c) \<and>
     (\<forall>k v c. view (cache_set C k v c) \<subseteq>\<^sub>m (view c)(k \<mapsto> v))"

text \<open>The authorizer: its cache, if it has one, and the counters it increments.\<close>

record 'c authorizer =
  au_cache :: "'c option"
  au_stats :: "(string \<times> string) list"

definition incr :: "string \<Rightarrow> string \<Rightarrow> 'c authorizer \<Rightarrow> 'c authorizer" where
  "incr name t a = a\<lparr>au_stats := au_stats a @ [(name, t)]\<rparr>"

definition cache_key :: "string \<Rightarrow> string \<Rightarrow> string" where
  "cache_key token repo_url = token @ ''@'' @ repo_url"

definition is_authorized ::
  "'c cache_lib \<Rightarrow> github \<Rightarrow> string \<Rightarrow> string \<Rightarrow> 'c authorizer \<Rightarrow> (bool \<times> go_error option) \<times> 'c authorizer" where
  "is_authorized C G token repo_url a =
     (case au_cache a of
        None \<Rightarrow>
          (case is_token_valid G token repo_url of (authorized, _, err) \<Rightarrow>
             ((authorized, err), incr ''goblet.operation.count'' ''op:token_validation'' a))
      | Some c \<Rightarrow>
          (case cache_get C (cache_key token repo_url) c of
             (Some authorized, c') \<Rightarrow> ((authorized, None), a\<lparr>au_cache := Some c'\<rparr>)
           | (None, c') \<Rightarrow>
               (case is_token_valid G token repo_url of (authorized, should_cache, err) \<Rightarrow>
                  let c2 = (if should_cache then cache_set C (cache_key token repo_url) authorized c' else c')
                  in ((authorized, err),
                      (incr ''goblet.operation.count'' ''op:token_validation'' a)\<lparr>au_cache := Some c2\<rparr>))))"

definition github_repo_url :: "string \<Rightarrow> string \<Rightarrow> string" where
  "github_repo_url owner name = ''https://github.com/'' @ path_escape owner @ ''/'' @ path_escape name"

text \<open>The result, the request without its Authorization header, and the authorizer.\<close>

definition request_authorizer ::
  "'c cache_lib \<Rightarrow> github \<Rightarrow> http_request \<Rightarrow> 'c authorizer \<Rightarrow>
     go_error option \<times> http_request \<times> 'c authorizer" where
  "request_authorizer C G req a =
     (case basic_auth (hr_header req ''Authorization'') of
        None \<Rightarrow> (Some (StatusError Unauthenticated ''request not authenticated''), req, a)
      | Some (username, token) \<Rightarrow>
          if username \<noteq> ''x-access-token'' then
            (Some (StatusError InvalidArgument ''malformed request''), req,
             incr ''goblet.authentication.failed'' ''reason:wrong_username'' a)
          else
            let path_parts = split_on CHR ''/'' (trim_prefix (u_path (hr_url req)) ''/'') in
            if length path_parts < 2 then
              (Some (StatusError InvalidArgument ''malformed request''), req,
               incr ''goblet.authentication.failed'' ''reason:malformed_url'' a)
            else
              let ((authorized, _), a') =
                    is_authorized C G token (github_repo_url (path_parts ! 0) (path_parts ! 1)) a
              in if \<not> authorized then
                   (Some (StatusError PermissionDenied ''access denied''), req,
                    incr ''goblet.authentication.failed'' ''reason:access_denied'' a')
                 else (None, req\<lparr>hr_header := (hr_header req)(''Authorization'' := [])\<rparr>, a'))"

text \<open>\<open>NewAuthorizer\<close>, over an empty cache of the library, and \<open>CacheMetrics\<close>.\<close>

definition new_authorizer :: "'c \<Rightarrow> bool \<Rightarrow> 'c authorizer" where
  "new_authorizer c0 enable_cache = \<lparr>au_cache = (if enable_cache then Some c0 else None), au_stats = []\<rparr>"

record auth_metrics =
  am_keys :: int
  am_hits :: int
  am_misses :: int
  am_inserts :: int
  am_removes :: int

definition auth_cache_metrics :: "'c cache_lib \<Rightarrow> 'c authorizer \<Rightarrow> auth_metrics" where
  "auth_cache_metrics C a =
     (case au_cache a of
        None \<Rightarrow> \<lparr>am_keys = 0, am_hits = 0, am_misses = 0, am_inserts = 0, am_removes = 0\<rparr>
      | Some c \<Rightarrow>
          \<lparr>am_keys = cache_count C c, am_hits = cc_retrievals (cache_counters_of C c),
           am_misses = cc_misses (cache_counters_of C c), am_inserts = cc_inserted (cache_counters_of C c),
           am_removes = cc_evicted (cache_counters_of C c)\<rparr>)"

section \<open>Keys\<close>

lemma last_sep:
  assumes "x @ c # y = x' @ c # y'" and "c \<notin> set y" and "c \<notin> set y'"
  shows "x = x' \<and> y = y'"
proof -
  have eq: "rev y @ c # rev x = rev y' @ c # rev x'"
    using arg_cong [OF assms(1), of rev] by simp
  have "takeWhile (\<lambda>z. z \<noteq> c) (rev v @ c # w) = rev v" if "c \<notin> set v" for v w
    using that by (subst takeWhile_append2) auto
  with eq assms(2,3) have "rev y = rev y'" by metis
  with eq show ?thesis by simp
qed

lemma of_char_of_47: "code_of CHR ''/'' = 47"
  by simp

lemma path_escape_no_slash: "CHR ''/'' \<notin> set (path_escape s)"
proof -
  have hex: "CHR ''/'' \<noteq> hex_digit n" if "n < 16" for n
  proof
    assume "CHR ''/'' = hex_digit n"
    then have "(of_char (hex_digit n) :: nat) = 47" by (metis of_char_of_47)
    with that show False by (auto simp: hex_digit_def split: if_splits)
  qed
  have "CHR ''/'' \<notin> set (percent c)" for c
    using hex [of "code_of c div 16"] hex [of "code_of c mod 16"] code_of_less [of c]
    by (simp add: percent_def Let_def less_mult_imp_div_less)
  then show ?thesis
    by (auto simp: path_escape_def escape_with_def unreserved_def alnum_def)
qed

lemma cache_key_inj:
  assumes "cache_key t (github_repo_url ow n) = cache_key t' (github_repo_url ow' n')"
  shows "t = t' \<and> github_repo_url ow n = github_repo_url ow' n'"
proof -
  have "(t @ ''@https://github.com/'' @ path_escape ow) @ CHR ''/'' # path_escape n =
      (t' @ ''@https://github.com/'' @ path_escape ow') @ CHR ''/'' # path_escape n'"
    using assms by (simp add: cache_key_def github_repo_url_def)
  from last_sep [OF this] path_escape_no_slash
  have "(t @ ''@https://github.com'') @ CHR ''/'' # path_escape ow = (t' @ ''@https://github.com'') @ CHR ''/'' # path_escape ow'"
    and n: "path_escape n = path_escape n'" by simp_all
  from last_sep [OF this(1)] path_escape_no_slash n show ?thesis by (simp add: github_repo_url_def)
qed

section \<open>Sequences of requests\<close>

text \<open>
  Requests over time: what GitHub answers then, what the cache has dropped since the last
  request, and the request.
\<close>

type_synonym 'c auth_event = "github \<times> ('c \<Rightarrow> 'c) \<times> http_request"

definition expire :: "('c \<Rightarrow> 'c) \<Rightarrow> 'c authorizer \<Rightarrow> 'c authorizer" where
  "expire f a = a\<lparr>au_cache := map_option f (au_cache a)\<rparr>"

fun auth_run :: "'c cache_lib \<Rightarrow> 'c auth_event list \<Rightarrow> 'c authorizer \<Rightarrow> 'c authorizer" where
  "auth_run C [] a = a"
| "auth_run C ((G, ex, req) # evs) a = auth_run C evs (snd (snd (request_authorizer C G req (expire ex a))))"

definition only_drops :: "('c \<Rightarrow> string \<Rightarrow> bool option) \<Rightarrow> 'c auth_event list \<Rightarrow> bool" where
  "only_drops view evs \<longleftrightarrow> (\<forall>(G, ex, req) \<in> set evs. \<forall>c. view (ex c) \<subseteq>\<^sub>m view c)"

text \<open>What a request asks for: the token and the repository, when it is well formed.\<close>

definition asks_for :: "http_request \<Rightarrow> (string \<times> string) option" where
  "asks_for req =
     (case basic_auth (hr_header req ''Authorization'') of
        None \<Rightarrow> None
      | Some (username, token) \<Rightarrow>
          let parts = split_on CHR ''/'' (trim_prefix (u_path (hr_url req)) ''/'') in
          if username = ''x-access-token'' \<and> 2 \<le> length parts
          then Some (token, github_repo_url (parts ! 0) (parts ! 1)) else None)"

text \<open>GitHub has confirmed at one of the requests that the token gives access.\<close>

definition confirmed :: "github list \<Rightarrow> string \<Rightarrow> string \<Rightarrow> bool" where
  "confirmed Gs token repo_url \<longleftrightarrow> (\<exists>G \<in> set Gs. \<exists>body. G (info_refs_url repo_url) token = Answered 200 body)"

text \<open>The cache grants only what was confirmed.\<close>

definition cache_sound :: "('c \<Rightarrow> string \<Rightarrow> bool option) \<Rightarrow> github list \<Rightarrow> 'c authorizer \<Rightarrow> bool" where
  "cache_sound view Gs a \<longleftrightarrow>
     (\<forall>c token owner name. au_cache a = Some c \<longrightarrow> view c (cache_key token (github_repo_url owner name)) = Some True \<longrightarrow>
        confirmed Gs token (github_repo_url owner name))"

lemma is_token_valid_granted:
  "is_token_valid G token repo_url = (True, sc, err) \<Longrightarrow> confirmed [G] token repo_url"
  by (auto simp: is_token_valid_def confirmed_def Let_def split: validation.splits if_splits)

lemma confirmed_mono: "set Gs \<subseteq> set Hs \<Longrightarrow> confirmed Gs t u \<Longrightarrow> confirmed Hs t u"
  by (auto simp: confirmed_def)

lemma cache_sound_mono: "set Gs \<subseteq> set Hs \<Longrightarrow> cache_sound view Gs a \<Longrightarrow> cache_sound view Hs a"
  unfolding cache_sound_def by (meson confirmed_mono)

lemma map_le_Some: "m \<subseteq>\<^sub>m m' \<Longrightarrow> m k = Some v \<Longrightarrow> m' k = Some v"
  by (metis domI map_le_def)

lemma cache_sound_drop:
  "cache_sound view Gs a \<Longrightarrow> \<forall>c. view (ex c) \<subseteq>\<^sub>m view c \<Longrightarrow> cache_sound view Gs (expire ex a)"
  unfolding cache_sound_def expire_def by (fastforce dest: map_le_Some)

lemma is_authorized_sound:
  assumes "cache_law C view" and "cache_sound view Gs a"
    and "is_authorized C G token (github_repo_url owner name) a = ((authorized, err), a')"
  shows "authorized \<longrightarrow> confirmed (G # Gs) token (github_repo_url owner name)" and "cache_sound view (G # Gs) a'"
proof -
  let ?url = "github_repo_url owner name"
  let ?k = "cache_key token ?url"
  have mono: "confirmed Gs t u \<Longrightarrow> confirmed (G # Gs) t u" "confirmed [G] t u \<Longrightarrow> confirmed (G # Gs) t u" for t u
    by (auto simp: confirmed_def)
  have both: "(authorized \<longrightarrow> confirmed (G # Gs) token ?url) \<and> cache_sound view (G # Gs) a'"
  proof (cases "au_cache a")
    case None
    with assms(3) mono(2) is_token_valid_granted show ?thesis
      by (auto simp: is_authorized_def cache_sound_def incr_def split: prod.splits)
  next
    case (Some c)
    obtain b c' where get: "cache_get C ?k c = (b, c')" by fastforce
    have got: "b = Some v \<Longrightarrow> view c ?k = Some v" and less: "view c' \<subseteq>\<^sub>m view c" for v
      using assms(1) get by (auto simp: cache_law_def)
    have sound: "view c (cache_key t (github_repo_url ow n)) = Some True \<Longrightarrow> confirmed (G # Gs) t (github_repo_url ow n)"
      for t ow n
      using assms(2) Some mono(1) by (auto simp: cache_sound_def)
    show ?thesis
    proof (cases b)
      case (Some v)
      with assms(3) \<open>au_cache a = Some c\<close> get have "authorized = v" and "a' = a\<lparr>au_cache := Some c'\<rparr>"
        by (auto simp: is_authorized_def)
      with got sound less Some show ?thesis by (auto simp: cache_sound_def dest: map_le_Some)
    next
      case None
      obtain sc e where valid: "is_token_valid G token ?url = (authorized, sc, e)"
        using assms(3) \<open>au_cache a = Some c\<close> get None by (auto simp: is_authorized_def split: prod.splits)
      then have granted: "authorized \<Longrightarrow> confirmed (G # Gs) token ?url"
        using is_token_valid_granted mono(2) by (cases authorized) auto
      let ?c2 = "if sc then cache_set C ?k authorized c' else c'"
      have a': "au_cache a' = Some ?c2"
        using assms(3) \<open>au_cache a = Some c\<close> get None valid by (auto simp: is_authorized_def)
      have "view ?c2 (cache_key t (github_repo_url ow n)) = Some True \<Longrightarrow> confirmed (G # Gs) t (github_repo_url ow n)" for t ow n
      proof -
        let ?kk = "cache_key t (github_repo_url ow n)"
        assume "view ?c2 ?kk = Some True"
        moreover have "view (cache_set C ?k authorized c') \<subseteq>\<^sub>m (view c')(?k \<mapsto> authorized)"
          using assms(1) by (simp add: cache_law_def)
        ultimately have "view c' ?kk = Some True \<or> (?kk = ?k \<and> authorized)"
          by (cases sc) (auto dest: map_le_Some split: if_splits)
        then show ?thesis
        proof
          assume "view c' ?kk = Some True"
          from map_le_Some [OF less this] show ?thesis by (rule sound)
        next
          assume "?kk = ?k \<and> authorized"
          with cache_key_inj [of t ow n token owner name] granted show ?thesis by metis
        qed
      qed
      with granted a' show ?thesis by (simp add: cache_sound_def)
    qed
  qed
  from both show "authorized \<longrightarrow> confirmed (G # Gs) token ?url" and "cache_sound view (G # Gs) a'" by auto
qed

lemma request_authorizer_sound:
  assumes "cache_law C view" and "cache_sound view Gs a" and "request_authorizer C G req a = (res, req', a')"
  shows "cache_sound view (G # Gs) a'"
    and "res = None \<Longrightarrow> \<exists>token repo_url. asks_for req = Some (token, repo_url) \<and> confirmed (G # Gs) token repo_url"
proof -
  have incr: "cache_sound view Hs (incr n t b) = cache_sound view Hs b" for Hs n t b
    by (simp add: cache_sound_def incr_def)
  have more: "cache_sound view (G # Gs) a" using assms(2) by (rule cache_sound_mono [rotated]) auto
  have "cache_sound view (G # Gs) a' \<and>
    (res = None \<longrightarrow> (\<exists>token repo_url. asks_for req = Some (token, repo_url) \<and> confirmed (G # Gs) token repo_url))"
  proof (cases "asks_for req")
    case None
    with assms(3) more show ?thesis
      by (auto simp: request_authorizer_def asks_for_def incr Let_def not_less split: option.splits if_splits prod.splits)
  next
    case (Some tu)
    obtain token owner name where tu: "tu = (token, github_repo_url owner name)"
      and run: "request_authorizer C G req a =
        (let ((authorized, e), a') = is_authorized C G token (github_repo_url owner name) a
         in if \<not> authorized then (Some (StatusError PermissionDenied ''access denied''), req,
              incr ''goblet.authentication.failed'' ''reason:access_denied'' a')
            else (None, req\<lparr>hr_header := (hr_header req)(''Authorization'' := [])\<rparr>, a'))"
      using Some by (auto simp: request_authorizer_def asks_for_def Let_def not_less split: option.splits if_splits prod.splits)
    obtain ok e a1 where auth: "is_authorized C G token (github_repo_url owner name) a = ((ok, e), a1)"
      by (metis prod.collapse)
    from is_authorized_sound [OF assms(1,2) auth] assms(3) run auth Some tu show ?thesis
      by (auto simp: incr split: if_splits)
  qed
  then show "cache_sound view (G # Gs) a'"
    and "res = None \<Longrightarrow> \<exists>token repo_url. asks_for req = Some (token, repo_url) \<and> confirmed (G # Gs) token repo_url"
    by auto
qed

lemma auth_run_sound:
  "cache_law C view \<Longrightarrow> only_drops view evs \<Longrightarrow> cache_sound view Gs a \<Longrightarrow>
     cache_sound view (rev (map fst evs) @ Gs) (auth_run C evs a)"
proof (induction evs arbitrary: Gs a)
  case (Cons ev evs)
  obtain G ex req where ev: "ev = (G, ex, req)" by (metis prod_cases3)
  obtain res req' a' where step: "request_authorizer C G req (expire ex a) = (res, req', a')" by (metis prod_cases3)
  have "cache_sound view Gs (expire ex a)"
    using Cons.prems(2,3) ev by (intro cache_sound_drop) (auto simp: only_drops_def)
  from request_authorizer_sound(1) [OF Cons.prems(1) this step]
  have "cache_sound view (G # Gs) a'" .
  with Cons.IH [OF Cons.prems(1), of "G # Gs" a'] Cons.prems(2) ev step show ?case
    by (simp add: only_drops_def)
qed simp

section \<open>A concrete cache and a concrete GitHub, for witnesses\<close>

definition map_cache :: "(string \<rightharpoonup> bool) cache_lib" where
  "map_cache = \<lparr>cache_get = (\<lambda>k c. (c k, c)), cache_set = (\<lambda>k v c. c(k \<mapsto> v)), cache_count = (\<lambda>_. 0),
     cache_counters_of = (\<lambda>_. \<lparr>cc_retrievals = 0, cc_misses = 0, cc_inserted = 0, cc_evicted = 0\<rparr>)\<rparr>"

lemma map_cache_law: "cache_law map_cache (\<lambda>c. c)"
  by (auto simp: cache_law_def map_cache_def map_le_def)

definition demo_github :: "int \<Rightarrow> github" where
  "demo_github st url token = (if token = ''tok'' then Answered st ''answer'' else Answered 401 ''no'')"

definition demo_auth_request :: "string \<Rightarrow> http_request" where
  "demo_auth_request token = (demo_request ''/o/r/info/refs'' [] [])
     \<lparr>hr_header := (\<lambda>_. [])(''Authorization'' := ''Basic '' @ b64_encode (''x-access-token:'' @ token))\<rparr>"

lemma demo_basic_auth: "basic_auth (hr_header (demo_auth_request token) ''Authorization'') = Some (''x-access-token'', token)"
  using basic_auth_encoded [of "''x-access-token''" token] by (simp add: demo_auth_request_def)

lemma demo_asks: "asks_for (demo_auth_request token) = Some (token, github_repo_url ''o'' ''r'')"
proof -
  have "split_on CHR ''/'' (trim_prefix ''/o/r/info/refs'' ''/'') = [''o'', ''r'', ''info'', ''refs'']" by code_simp
  then show ?thesis using demo_basic_auth [of token] by (simp add: asks_for_def demo_auth_request_def demo_request_def)
qed

section \<open>Properties\<close>

text \<open>
  C3: access is granted only to a token that GitHub itself confirmed: whatever requests
  came before, and whatever the cache dropped in between, if a request is let through then
  it carries a token for a repository, and at this or an earlier request GitHub answered
  200 for exactly that token and that repository. Cached results are never confused
  between tokens or repositories, although a key only joins the two with an at sign.
\<close>

theorem granted_was_confirmed:
  assumes "cache_law C view" and "view c0 = Map.empty" and "only_drops view evs"
    and "\<forall>c. view (ex c) \<subseteq>\<^sub>m view c"
    and "request_authorizer C G req (expire ex (auth_run C evs (new_authorizer c0 caching))) = (None, req', a')"
  shows "\<exists>token repo_url. asks_for req = Some (token, repo_url) \<and>
    (\<exists>G' \<in> set (G # map fst evs). \<exists>body. G' (info_refs_url repo_url) token = Answered 200 body)"
proof -
  have "cache_sound view [] (new_authorizer c0 caching)"
    using assms(2) by (simp add: cache_sound_def new_authorizer_def)
  from cache_sound_drop [OF auth_run_sound [OF assms(1,3) this] assms(4)] request_authorizer_sound(2) [OF assms(1) _ assms(5)]
  show ?thesis by (fastforce simp: confirmed_def)
qed

theorem granted_was_confirmed_witness:
  "\<exists>token repo_url. asks_for (demo_auth_request ''tok'') = Some (token, repo_url) \<and>
    (\<exists>G' \<in> {demo_github 503, demo_github 200}. \<exists>body. G' (info_refs_url repo_url) token = Answered 200 body)"
proof -
  let ?evs = "[(demo_github 200, id, demo_auth_request ''tok'')]"
  have "basic_auth (hr_header (demo_auth_request ''tok'') ''Authorization'') = Some (''x-access-token'', ''tok'')"
    by (rule demo_basic_auth)
  moreover have "split_on CHR ''/'' (trim_prefix (u_path (hr_url (demo_auth_request ''tok''))) ''/'') =
      [''o'', ''r'', ''info'', ''refs'']"
    by (simp add: demo_auth_request_def demo_request_def) code_simp
  ultimately obtain req' a' where "request_authorizer map_cache (demo_github 503) (demo_auth_request ''tok'')
      (expire id (auth_run map_cache ?evs (new_authorizer Map.empty True))) = (None, req', a')"
    by (simp add: request_authorizer_def is_authorized_def map_cache_def new_authorizer_def expire_def
        is_token_valid_def demo_github_def incr_def Let_def)
  from granted_was_confirmed [OF map_cache_law _ _ _ this] show ?thesis
    by (simp add: only_drops_def)
qed

text \<open>
  A server error of GitHub is not remembered: on a status from 500 to 599, except 501,
  access is denied and the cache keeps what the lookup left, so the next request asks
  again; on every other answer the result is stored under the key of the token and the
  repository.
\<close>

theorem server_errors_not_cached:
  assumes "au_cache a = Some c" and "cache_get C (cache_key token repo_url) c = (None, c')"
    and "G (info_refs_url repo_url) token = Answered st body"
  shows "let ((authorized, err), a') = is_authorized C G token repo_url a in
    authorized = (st = 200) \<and>
    au_cache a' = Some (if 500 \<le> st \<and> st \<le> 599 \<and> st \<noteq> 501 then c'
                        else cache_set C (cache_key token repo_url) (st = 200) c')"
  using assms by (auto simp: is_authorized_def is_token_valid_def incr_def Let_def)

theorem server_errors_not_cached_witness:
  "au_cache (snd (is_authorized map_cache (demo_github 503) ''tok'' ''u'' (new_authorizer Map.empty True))) = Some Map.empty"
  using server_errors_not_cached [of "new_authorizer Map.empty True" Map.empty map_cache "''tok''" "''u''" Map.empty
      "demo_github 503" 503 "''answer''"]
  by (simp add: new_authorizer_def map_cache_def demo_github_def split_beta)

text \<open>
  The token does not leak: a request that is let through goes on without its
  Authorization header and is otherwise unchanged; one that is refused is unchanged, and
  the refusal is one of Unauthenticated, InvalidArgument and PermissionDenied, so it is
  never counted as a server error.
\<close>

theorem authorizer_answers:
  "case request_authorizer C G req a of (res, req', a') \<Rightarrow>
     case res of
       None \<Rightarrow> req' = req\<lparr>hr_header := (hr_header req)(''Authorization'' := [])\<rparr>
     | Some e \<Rightarrow> req' = req \<and>
         (\<exists>c m. e = StatusError c m \<and> c \<in> {Unauthenticated, InvalidArgument, PermissionDenied} \<and> \<not> server_error_codes c)"
  by (auto simp: request_authorizer_def server_error_codes_def Let_def split: option.splits prod.splits)

end
