(* ===== verification/Credentials.thy ===== *)
theory Credentials
  imports Authorizer
begin

text \<open>
  Where credentials come from and who may use the Google server: the GitHub App token
  (\<open>github/app.go\<close>), the token source that keeps one (\<open>github/token.go\<close>) and the request
  authorizer of \<open>google/hooks.go\<close>. The remote services and the libraries for keys,
  signatures, JSON and time stamps are arguments.
\<close>

section \<open>GenerateOAuthTokenFromApp\<close>

text \<open>\<open>oauth2.Token\<close>; \<open>None\<close>: the zero time.\<close>

record oauth_token =
  tok_access :: string
  tok_type :: string
  tok_expiry :: "time option"

definition empty_token :: oauth_token where
  "empty_token = \<lparr>tok_access = [], tok_type = [], tok_expiry = None\<rparr>"

record claims =
  cl_issuer :: string
  cl_issued_at :: time
  cl_expiry :: time

definition app_claims :: "string \<Rightarrow> time \<Rightarrow> claims" where
  "app_claims app_id now =
     \<lparr>cl_issuer = app_id, cl_issued_at = now + (- 60) * second, cl_expiry = now + 5 * minute\<rparr>"

text \<open>
  The libraries: the signer of a private key, the POST to GitHub (with the JWT), the two
  fields of the JSON answer, and \<open>time.Parse(time.RFC3339, _)\<close>.
\<close>

datatype app_reply = PostNoRequest go_error | PostNotSent go_error | PostBodyLost go_error | Posted int string

record 'k app_lib =
  new_signer :: "'k \<Rightarrow> go_error option"
  sign_claims :: "'k \<Rightarrow> claims \<Rightarrow> go_error + string"
  post_app :: "string \<Rightarrow> string \<Rightarrow> app_reply"
  parse_app_json :: "string \<Rightarrow> go_error + (string \<times> string)"
  parse_rfc3339 :: "string \<Rightarrow> time option"

definition generate_app_jwt :: "'k app_lib \<Rightarrow> string \<Rightarrow> time \<Rightarrow> 'k \<Rightarrow> go_error + string" where
  "generate_app_jwt A app_id now key =
     (case new_signer A key of Some e \<Rightarrow> Inl e | None \<Rightarrow> sign_claims A key (app_claims app_id now))"

definition get_installation_access_token :: "'k app_lib \<Rightarrow> string \<Rightarrow> string \<Rightarrow> go_error + oauth_token" where
  "get_installation_access_token A jwt installation_id =
     (let u = ''https://api.github.com/app/installations/'' @ installation_id @ ''/access_tokens'' in
      case post_app A u (''Bearer '' @ jwt) of
        PostNoRequest e \<Rightarrow> Inl e
      | PostNotSent e \<Rightarrow> Inl e
      | PostBodyLost e \<Rightarrow> Inl e
      | Posted st body \<Rightarrow>
          if st \<noteq> 201 then Inl (PlainError (''failed to create OAuth token from GitHub App: '' @ body))
          else (case parse_app_json A body of
                  Inl e \<Rightarrow> Inl e
                | Inr (tok, expires_at) \<Rightarrow>
                    (case parse_rfc3339 A expires_at of
                       None \<Rightarrow> Inr empty_token
                     | Some exp \<Rightarrow> Inr \<lparr>tok_access = b64_encode (''x-access-token:'' @ tok), tok_type = ''Basic'',
                         tok_expiry = Some exp\<rparr>)))"

definition generate_oauth_token_from_app ::
  "'k app_lib \<Rightarrow> string \<Rightarrow> string \<Rightarrow> 'k \<Rightarrow> time \<Rightarrow> go_error + oauth_token" where
  "generate_oauth_token_from_app A app_id installation_id key now =
     (case generate_app_jwt A app_id now key of
        Inl e \<Rightarrow> Inl e
      | Inr jwt \<Rightarrow> get_installation_access_token A jwt installation_id)"

section \<open>TokenSource\<close>

record 'k token_source =
  ts_app_id :: string
  ts_installation_id :: string
  ts_private_key :: 'k
  ts_delta :: duration
  ts_token :: "oauth_token option"

text \<open>
  \<open>NewTokenSource\<close>. \<open>decode_pem\<close> gives no block when there is none, and the sources then
  dereference nil.
\<close>

definition new_token_source ::
  "(string \<Rightarrow> 'b option) \<Rightarrow> ('b \<Rightarrow> go_error + 'k) \<Rightarrow> string \<Rightarrow> string \<Rightarrow> string \<Rightarrow> duration \<Rightarrow>
     (go_error + 'k token_source) outcome" where
  "new_token_source decode_pem parse_key app_id installation_id private_key delta =
     (if app_id = [] then Finished (Inl (PlainError ''github app id must be provided''))
      else if installation_id = [] then Finished (Inl (PlainError ''github app installation id must be provided''))
      else if private_key = [] then Finished (Inl (PlainError ''github app private key must be provided''))
      else case decode_pem private_key of
             None \<Rightarrow> Panicked
           | Some block \<Rightarrow>
               (case parse_key block of
                  Inl e \<Rightarrow> Finished (Inl e)
                | Inr pk \<Rightarrow> Finished (Inr \<lparr>ts_app_id = app_id, ts_installation_id = installation_id,
                    ts_private_key = pk, ts_delta = delta, ts_token = None\<rparr>)))"

text \<open>
  \<open>Token\<close>, under the mutex: the token, the error, and the source. \<open>valid\<close> is
  \<open>oauth2.Token.Valid\<close> on a token that is not nil; \<open>now\<close> is the time it is looked at and
  \<open>jwt_time\<close> the time of the JWT.
\<close>

definition needs_token :: "(oauth_token \<Rightarrow> bool) \<Rightarrow> time \<Rightarrow> 'k token_source \<Rightarrow> bool" where
  "needs_token valid now ts =
     (case ts_token ts of
        None \<Rightarrow> True
      | Some t \<Rightarrow> \<not> valid t \<or> (case tok_expiry t of None \<Rightarrow> False | Some exp \<Rightarrow> exp - ts_delta ts < now))"

definition token_source_token ::
  "'k app_lib \<Rightarrow> (oauth_token \<Rightarrow> bool) \<Rightarrow> time \<Rightarrow> time \<Rightarrow> 'k token_source \<Rightarrow>
     (oauth_token option \<times> go_error option) \<times> 'k token_source" where
  "token_source_token A valid now jwt_time ts =
     (if \<not> needs_token valid now ts then ((ts_token ts, None), ts)
      else let ts1 = ts\<lparr>ts_token := None\<rparr>;
               ts2 = (case generate_oauth_token_from_app A (ts_app_id ts1) (ts_installation_id ts1)
                        (ts_private_key ts1) jwt_time of
                        Inr t \<Rightarrow> ts1\<lparr>ts_token := Some t\<rparr>
                      | Inl e \<Rightarrow> ts1)
           in ((ts_token ts2, None), ts2))"

section \<open>The Google request authorizer\<close>

definition scope_cloud_platform :: string where
  "scope_cloud_platform = ''https://www.googleapis.com/auth/cloud-platform''"

definition scope_user_info_email :: string where
  "scope_user_info_email = ''https://www.googleapis.com/auth/userinfo.email''"

definition scope_check :: "string \<Rightarrow> bool \<times> bool" where
  "scope_check scopes =
     fold (\<lambda>scope (c, u). (c \<or> scope = scope_cloud_platform, u \<or> scope = scope_user_info_email))
       (split_on CHR '' '' scopes) (False, False)"

text \<open>The token information service: the scopes and the email of an access token.\<close>

type_synonym token_info = "string \<Rightarrow> go_error + (string \<times> string)"

definition authorize_access_token :: "status_lib \<Rightarrow> token_info \<Rightarrow> string \<Rightarrow> string \<Rightarrow> go_error option" where
  "authorize_access_token L info email access_token =
     (case info access_token of
        Inl e \<Rightarrow> Some (StatusError Unavailable (''cannot call OAuth2 TokenInfo: '' @ error_text L e))
      | Inr (scope, ti_email) \<Rightarrow>
          (case scope_check scope of (has_cloud_platform, has_user_info_email) \<Rightarrow>
             if \<not> has_cloud_platform then
               Some (StatusError Unauthenticated (''access token doesn'' @ [CHR 0x27] @ ''t have '' @ scope_cloud_platform))
             else if \<not> has_user_info_email then
               Some (StatusError Unauthenticated (''access token doesn'' @ [CHR 0x27] @ ''t have '' @ scope_user_info_email))
             else if ti_email \<noteq> email then
               Some (StatusError Unauthenticated (''access token attests a different user '' @ ti_email))
             else None))"

definition authorize_authz_header :: "status_lib \<Rightarrow> token_info \<Rightarrow> string \<Rightarrow> string \<Rightarrow> go_error option" where
  "authorize_authz_header L info email header =
     (if has_prefix header ''Bearer '' then authorize_access_token L info email (trim_prefix header ''Bearer '')
      else if has_prefix header ''Basic '' then
        (case b64_decode (trim_prefix header ''Basic '') of
           None \<Rightarrow> Some (StatusError Unauthenticated ''cannot parse the Authorization header'')
         | Some s \<Rightarrow>
             (case cut_colon s of
                None \<Rightarrow> Some (StatusError Unauthenticated ''cannot parse the Authorization header'')
              | Some (_, access_token) \<Rightarrow> authorize_access_token L info email access_token))
      else Some (StatusError Unauthenticated ''no bearer token''))"

definition authorize_cookie :: "status_lib \<Rightarrow> token_info \<Rightarrow> string \<Rightarrow> string \<Rightarrow> go_error option" where
  "authorize_cookie L info email o_cookie =
     authorize_access_token L info email
       (if CHR ''='' \<in> set o_cookie then tl (dropWhile (\<lambda>c. c \<noteq> CHR ''='') o_cookie) else o_cookie)"

text \<open>\<open>cookie\<close>: the value of the cookie named o, if the request has it.\<close>

definition google_request_authorizer ::
  "status_lib \<Rightarrow> token_info \<Rightarrow> string \<Rightarrow> (http_request \<Rightarrow> string option) \<Rightarrow> http_request \<Rightarrow> go_error option" where
  "google_request_authorizer L info email cookie r =
     (if hr_header r ''Authorization'' \<noteq> [] then authorize_authz_header L info email (hr_header r ''Authorization'')
      else case cookie r of
             Some c \<Rightarrow> authorize_cookie L info email c
           | None \<Rightarrow> Some (StatusError Unauthenticated ''no auth token''))"

text \<open>
  \<open>NewRequestAuthorizer\<close>: the service, the token of the server and its information; the
  error, or the email the authorizer compares with.
\<close>

definition new_request_authorizer ::
  "status_lib \<Rightarrow> go_error option \<Rightarrow> go_error + string \<Rightarrow> token_info \<Rightarrow> go_error + string" where
  "new_request_authorizer L service server_token info =
     (case service of
        Some e \<Rightarrow> Inl (err_wrap L ''cannot initialize the OAuth2 service: '' e)
      | None \<Rightarrow>
          (case server_token of
             Inl e \<Rightarrow> Inl (err_wrap L ''cannot obtain an OAuth2 access token for the server: '' e)
           | Inr t \<Rightarrow>
               (case info t of
                  Inl e \<Rightarrow> Inl (err_wrap L ''failed to call OAuth2 TokenInfo: '' e)
                | Inr (scope, email) \<Rightarrow>
                    (case scope_check scope of (has_cloud_platform, has_user_info_email) \<Rightarrow>
                       if \<not> has_cloud_platform then
                         Inl (PlainError (''the server credential doesn'' @ [CHR 0x27] @ ''t have '' @ scope_cloud_platform @
                           '' scope. This is needed to access upstream repositories.''))
                       else if \<not> has_user_info_email then
                         Inl (PlainError (''the server credential doesn'' @ [CHR 0x27] @ ''t have '' @ scope_user_info_email @
                           '' scope. This is needed to get the email address of the service account.''))
                       else if email = [] then
                         Inl (PlainError (''cannot obtain the server'' @ [CHR 0x27] @ ''s service account email''))
                       else Inr email))))"

section \<open>Lemmas\<close>

lemma scope_check_fold:
  "fold (\<lambda>scope (c, u). (c \<or> scope = a, u \<or> scope = b)) ss (c, u) = (c \<or> a \<in> set ss, u \<or> b \<in> set ss)"
  by (induction ss arbitrary: c u) auto

lemma scope_check_iff:
  "scope_check s = (scope_cloud_platform \<in> set (split_on CHR '' '' s), scope_user_info_email \<in> set (split_on CHR '' '' s))"
  by (simp add: scope_check_def scope_check_fold)

lemma access_granted_iff:
  "authorize_access_token L info email t = None \<longleftrightarrow>
     (\<exists>scope. info t = Inr (scope, email) \<and> scope_cloud_platform \<in> set (split_on CHR '' '' scope) \<and>
       scope_user_info_email \<in> set (split_on CHR '' '' scope))"
  by (auto simp: authorize_access_token_def scope_check_iff split: sum.splits)

section \<open>Properties\<close>

text \<open>
  The token source never returns an error, and the token it returns is either the one
  it had, valid and not within the delta of its expiry, or the one just generated; after a
  generation that fails it returns neither a token nor an error and keeps none.
\<close>

theorem token_source_returns:
  "case token_source_token A valid now jwt_time ts of ((t, err), ts') \<Rightarrow>
     err = None \<and> ts_token ts' = t \<and>
     ((\<exists>tok. t = Some tok \<and> ts_token ts = Some tok \<and> valid tok \<and>
        (case tok_expiry tok of None \<Rightarrow> True | Some exp \<Rightarrow> now \<le> exp - ts_delta ts)) \<or>
      (case generate_oauth_token_from_app A (ts_app_id ts) (ts_installation_id ts) (ts_private_key ts) jwt_time of
         Inr tok \<Rightarrow> t = Some tok
       | Inl e \<Rightarrow> t = None))"
  by (auto simp: token_source_token_def needs_token_def Let_def not_less split: option.splits sum.splits)

text \<open>
  C32: round trip between the two sides of the program: for a request for a repository that
  carries, as its Authorization header, the access token that \<open>getInstallationAccessToken\<close> made
  out of GitHub's answer, \<open>RequestAuthorizer\<close> decides on GitHub's token, whatever its
  characters, and that repository: it lets the request in, without the header, exactly if
  they are authorized, which without a cache is that GitHub answers 200 for them.
\<close>

theorem app_token_authenticates:
  assumes "get_installation_access_token A jwt inst = Inr t" and "tok_access t \<noteq> []"
    and "hr_header req ''Authorization'' = tok_type t @ '' '' @ tok_access t"
    and "split_on CHR ''/'' (trim_prefix (u_path (hr_url req)) ''/'') = owner # name # rest"
  shows "\<exists>body token expires_at. post_app A (''https://api.github.com/app/installations/'' @ inst @ ''/access_tokens'')
      (''Bearer '' @ jwt) = Posted 201 body \<and> parse_app_json A body = Inr (token, expires_at) \<and>
    request_authorizer C G req a =
      (case is_authorized C G token (github_repo_url owner name) a of ((authorized, _), a') \<Rightarrow>
         if authorized then (None, req\<lparr>hr_header := (hr_header req)(''Authorization'' := [])\<rparr>, a')
         else (Some (StatusError PermissionDenied ''access denied''), req,
           incr ''goblet.authentication.failed'' ''reason:access_denied'' a')) \<and>
    (au_cache a = None \<longrightarrow> (fst (request_authorizer C G req a) = None \<longleftrightarrow>
      (\<exists>answer. G (info_refs_url (github_repo_url owner name)) token = Answered 200 answer)))"
proof -
  from assms(1,2) obtain body token expires_at where
    posted: "post_app A (''https://api.github.com/app/installations/'' @ inst @ ''/access_tokens'') (''Bearer '' @ jwt) = Posted 201 body"
    "parse_app_json A body = Inr (token, expires_at)"
    and t: "tok_type t = ''Basic''" "tok_access t = b64_encode (''x-access-token:'' @ token)"
    by (auto simp: get_installation_access_token_def empty_token_def split: app_reply.splits sum.splits option.splits if_splits)
  have "basic_auth (hr_header req ''Authorization'') = Some (''x-access-token'', token)"
    using basic_auth_encoded [of "''x-access-token''" token] by (simp add: assms(3) t)
  with assms(4) have auth: "request_authorizer C G req a =
      (case is_authorized C G token (github_repo_url owner name) a of ((authorized, _), a') \<Rightarrow>
         if authorized then (None, req\<lparr>hr_header := (hr_header req)(''Authorization'' := [])\<rparr>, a')
         else (Some (StatusError PermissionDenied ''access denied''), req,
           incr ''goblet.authentication.failed'' ''reason:access_denied'' a'))"
    by (simp add: request_authorizer_def Let_def split: prod.split)
  moreover have "au_cache a = None \<longrightarrow> (fst (request_authorizer C G req a) = None \<longleftrightarrow>
      (\<exists>answer. G (info_refs_url (github_repo_url owner name)) token = Answered 200 answer))"
    unfolding auth by (auto simp: is_authorized_def is_token_valid_def Let_def split: validation.splits if_splits)
  ultimately show ?thesis
    using posted by (intro exI [of _ body] exI [of _ token] exI [of _ expires_at] conjI)
qed

definition demo_app :: "unit app_lib" where
  "demo_app = \<lparr>new_signer = (\<lambda>_. None), sign_claims = (\<lambda>_ _. Inr ''jwt''), post_app = (\<lambda>_ _. Posted 201 ''tok''),
     parse_app_json = (\<lambda>b. Inr (b, ''soon'')), parse_rfc3339 = (\<lambda>s. if s = ''soon'' then Some 100 else None)\<rparr>"

theorem app_token_authenticates_witness:
  "fst (request_authorizer map_cache (demo_github 200) (demo_auth_request ''tok'') (new_authorizer Map.empty False)) = None"
proof -
  let ?t = "\<lparr>tok_access = b64_encode (''x-access-token:'' @ ''tok''), tok_type = ''Basic'', tok_expiry = Some 100\<rparr>"
  have t: "get_installation_access_token demo_app ''jwt'' ''1'' = Inr ?t" "tok_access ?t \<noteq> []"
    and header: "hr_header (demo_auth_request ''tok'') ''Authorization'' = tok_type ?t @ '' '' @ tok_access ?t"
    by code_simp+
  have path: "split_on CHR ''/'' (trim_prefix (u_path (hr_url (demo_auth_request ''tok''))) ''/'') = ''o'' # ''r'' # [''info'', ''refs'']"
    by (simp add: demo_auth_request_def demo_request_def) code_simp
  from app_token_authenticates [where C = map_cache and G = "demo_github 200" and a = "new_authorizer Map.empty False",
      OF t header path]
  show ?thesis by (auto simp: demo_app_def demo_github_def new_authorizer_def)
qed

text \<open>
  C33: the Google server lets in exactly the access tokens, sent as a bearer token or as
  the password of basic authentication, that carry both scopes and attest the email of the
  server's own account.
\<close>

theorem google_access_iff:
  assumes "hr_header r ''Authorization'' = ''Bearer '' @ t \<or>
    (\<exists>user. CHR '':'' \<notin> set user \<and> hr_header r ''Authorization'' = ''Basic '' @ b64_encode (user @ '':'' @ t))"
  shows "google_request_authorizer L info email cookie r = None \<longleftrightarrow>
    (\<exists>scope. info t = Inr (scope, email) \<and> scope_cloud_platform \<in> set (split_on CHR '' '' scope) \<and>
       scope_user_info_email \<in> set (split_on CHR '' '' scope))"
proof -
  have "google_request_authorizer L info email cookie r = authorize_access_token L info email t"
    using assms
  proof
    assume "hr_header r ''Authorization'' = ''Bearer '' @ t"
    moreover have "has_prefix (''Bearer '' @ t) ''Bearer ''" and "trim_prefix (''Bearer '' @ t) ''Bearer '' = t"
      by (rule has_prefix_append, rule trim_prefix_append)
    ultimately show ?thesis by (simp add: google_request_authorizer_def authorize_authz_header_def)
  next
    assume "\<exists>user. CHR '':'' \<notin> set user \<and> hr_header r ''Authorization'' = ''Basic '' @ b64_encode (user @ '':'' @ t)"
    then obtain user where u: "CHR '':'' \<notin> set user" "hr_header r ''Authorization'' = ''Basic '' @ b64_encode (user @ '':'' @ t)"
      by blast
    have "has_prefix (''Basic '' @ z) ''Basic ''" "trim_prefix (''Basic '' @ z) ''Basic '' = z" for z
      by (rule has_prefix_append, rule trim_prefix_append)
    moreover have "\<not> has_prefix (''Basic '' @ z) ''Bearer ''" for z by (simp add: has_prefix_def)
    ultimately show ?thesis
      using u(2) b64_roundtrip cut_colon_append [OF u(1), of t]
      by (simp add: google_request_authorizer_def authorize_authz_header_def)
  qed
  then show ?thesis by (simp add: access_granted_iff)
qed

theorem google_access_iff_witness:
  "google_request_authorizer plain_status (\<lambda>t. if t = ''t'' then Inr (scope_cloud_platform @ '' '' @ scope_user_info_email, ''me'')
      else Inl (PlainError ''bad'')) ''me'' (\<lambda>_. None)
     ((demo_request [] [] [])\<lparr>hr_header := (\<lambda>_. [])(''Authorization'' := ''Bearer t'')\<rparr>) = None"
proof -
  have "split_on CHR '' '' (scope_cloud_platform @ '' '' @ scope_user_info_email) = [scope_cloud_platform, scope_user_info_email]"
    by code_simp
  then show ?thesis
    using google_access_iff [of "(demo_request [] [] [])\<lparr>hr_header := (\<lambda>_. [])(''Authorization'' := ''Bearer t'')\<rparr>" "''t''"
      plain_status "\<lambda>t. if t = ''t'' then Inr (scope_cloud_platform @ '' '' @ scope_user_info_email, ''me'')
        else Inl (PlainError ''bad'')" "''me''" "\<lambda>_. None"]
    by simp
qed

text \<open>
  An expiry that does not parse gives a token without a word and no error, so the source
  keeps an empty token.
\<close>

theorem unparsable_expiry_empty_token:
  "token_source_token (demo_app\<lparr>parse_rfc3339 := (\<lambda>_. None)\<rparr>) (\<lambda>t. tok_access t \<noteq> []) 0 0
     \<lparr>ts_app_id = ''1'', ts_installation_id = ''2'', ts_private_key = (), ts_delta = 0, ts_token = None\<rparr> =
   ((Some empty_token, None),
    \<lparr>ts_app_id = ''1'', ts_installation_id = ''2'', ts_private_key = (), ts_delta = 0, ts_token = Some empty_token\<rparr>)"
  by (simp add: token_source_token_def needs_token_def generate_oauth_token_from_app_def generate_app_jwt_def
      get_installation_access_token_def demo_app_def Let_def)

text \<open>A private key that holds no PEM block makes \<open>NewTokenSource\<close> panic.\<close>

theorem new_token_source_panics:
  "new_token_source (\<lambda>_. None) parse_key ''1'' ''2'' ''not a key'' delta = Panicked"
  by (simp add: new_token_source_def)

end
