(* ===== verification/Registry.thy ===== *)
theory Registry
  imports Opening
begin

text \<open>
  Concurrent openings (\<open>getManagedRepo\<close> and \<open>openManagedRepository\<close> of
  \<open>managed_repository.go\<close>): any number of threads, each opening a URL of its own, as a step
  relation over \<open>sync.Map\<close>, the mutexes, the worker pools and the \<open>sync.Once\<close> of the
  repositories. \<open>LoadOrStore\<close> is one step; the creation of the two worker pools, the unlocking
  and the \<open>once\<close> come after it, one step each. A thread alone computes what
  \<open>open_managed_repository\<close> of the theory Opening says.
\<close>

section \<open>Threads\<close>

text \<open>Where a thread is, with the canonical URL and the repository it has by then.\<close>

datatype thread_pc =
    Called | BeforeStore url | MakeFetchPool url managed_repo | MakeServePool url managed_repo
  | UnlockRepo url managed_repo | AtOnce url managed_repo | Initialising url managed_repo
  | Opened managed_repo | Refused go_error

text \<open>
  The world, in which \<open>w_repos\<close> is the map and \<open>w_once\<close> says which \<open>once\<close> is done. For each
  path: the thread that stored the repository, whether it has its pools and whether its
  mutex is held, the thread that runs the \<open>once\<close>, and how often it has run. The threads.
\<close>

record 'd registry =
  rg_world :: "'d world"
  rg_creator :: "string \<Rightarrow> nat option"
  rg_fetch_pool :: "string \<Rightarrow> bool"
  rg_serve_pool :: "string \<Rightarrow> bool"
  rg_locked :: "string \<Rightarrow> bool"
  rg_running :: "string \<Rightarrow> nat option"
  rg_inits :: "string \<Rightarrow> nat"
  rg_pc :: "nat \<Rightarrow> thread_pc"

definition move :: "nat \<Rightarrow> thread_pc \<Rightarrow> 'd registry \<Rightarrow> 'd registry" where
  "move t c s = s\<lparr>rg_pc := (rg_pc s)(t := c)\<rparr>"

text \<open>
  One step of a thread. \<open>None\<close>: it has returned, or waits for the \<open>once\<close> another one runs.
\<close>

definition open_step ::
  "status_lib \<Rightarrow> ('d, 'r) git_lib \<Rightarrow> server_config \<Rightarrow> canonicalizer \<Rightarrow> (nat \<Rightarrow> url) \<Rightarrow> nat \<Rightarrow> 'd registry \<Rightarrow>
     'd registry process option" where
  "open_step L G cfg canon urls t s =
     (case rg_pc s t of
        Called \<Rightarrow>
          (case canon (urls t) of
             Inl e \<Rightarrow> Some (Returns (move t (Refused e) s))
           | Inr v \<Rightarrow> Some (Returns (move t (BeforeStore v) s)))
      | BeforeStore v \<Rightarrow>
          let path = local_disk_path (cfg_root cfg) v;
              loaded = (w_repos (rg_world s) path \<noteq> None);
              (m, w) = get_managed_repo path v (rg_world s)
          in Some (Returns
               (if loaded then move t (AtOnce v m) s
                else move t (MakeFetchPool v m)
                       (s\<lparr>rg_world := w, rg_creator := (rg_creator s)(path := Some t),
                          rg_locked := (rg_locked s)(path := True)\<rparr>)))
      | MakeFetchPool v m \<Rightarrow>
          Some (Returns (move t (MakeServePool v m) (s\<lparr>rg_fetch_pool := (rg_fetch_pool s)(r_path m := True)\<rparr>)))
      | MakeServePool v m \<Rightarrow>
          Some (Returns (move t (UnlockRepo v m) (s\<lparr>rg_serve_pool := (rg_serve_pool s)(r_path m := True)\<rparr>)))
      | UnlockRepo v m \<Rightarrow>
          Some (Returns (move t (AtOnce v m) (s\<lparr>rg_locked := (rg_locked s)(r_path m := False)\<rparr>)))
      | AtOnce v m \<Rightarrow>
          if w_once (rg_world s) (r_path m) then Some (Returns (move t (Opened m) s))
          else if rg_running s (r_path m) \<noteq> None then None
          else Some (Returns (move t (Initialising v m) (s\<lparr>rg_running := (rg_running s)(r_path m := Some t)\<rparr>)))
      | Initialising v m \<Rightarrow>
          (case init_repository L G (r_path m) v (rg_world s) of
             Exits \<Rightarrow> Some Exits
           | Returns w \<Rightarrow>
               Some (Returns (move t (Opened m)
                 (s\<lparr>rg_world := w\<lparr>w_once := (w_once w)(r_path m := True)\<rparr>,
                    rg_running := (rg_running s)(r_path m := None),
                    rg_inits := (rg_inits s)(r_path m := Suc (rg_inits s (r_path m)))\<rparr>))))
      | Opened m \<Rightarrow> None
      | Refused e \<Rightarrow> None)"

section \<open>The system\<close>

text \<open>
  A thread moves, or something else happens to the world, outside the map and the \<open>once\<close>. The
  end of the process is not a step.
\<close>

inductive reg_step ::
  "status_lib \<Rightarrow> ('d, 'r) git_lib \<Rightarrow> server_config \<Rightarrow> canonicalizer \<Rightarrow> (nat \<Rightarrow> url) \<Rightarrow>
     'd registry \<Rightarrow> nat option \<Rightarrow> 'd registry \<Rightarrow> bool"
  for L G cfg canon urls
where
  moves: "open_step L G cfg canon urls t s = Some (Returns s') \<Longrightarrow> reg_step L G cfg canon urls s (Some t) s'"
| elsewhere: "w_repos w' = w_repos (rg_world s) \<Longrightarrow> w_once w' = w_once (rg_world s) \<Longrightarrow>
    reg_step L G cfg canon urls s None (s\<lparr>rg_world := w'\<rparr>)"

inductive_cases reg_stepE [consumes 1, case_names moves elsewhere]: "reg_step L G cfg canon urls s e s'"

definition reg_start :: "'d world \<Rightarrow> 'd registry" where
  "reg_start w = \<lparr>rg_world = w, rg_creator = (\<lambda>_. None), rg_fetch_pool = (\<lambda>p. w_repos w p \<noteq> None),
     rg_serve_pool = (\<lambda>p. w_repos w p \<noteq> None), rg_locked = (\<lambda>_. False), rg_running = (\<lambda>_. None),
     rg_inits = (\<lambda>_. 0), rg_pc = (\<lambda>_. Called)\<rparr>"

inductive reg_run ::
  "status_lib \<Rightarrow> ('d, 'r) git_lib \<Rightarrow> server_config \<Rightarrow> canonicalizer \<Rightarrow> (nat \<Rightarrow> url) \<Rightarrow>
     'd registry \<Rightarrow> nat option list \<Rightarrow> 'd registry \<Rightarrow> bool"
  for L G cfg canon urls
where
  none: "reg_run L G cfg canon urls s [] s"
| more: "reg_run L G cfg canon urls s es s1 \<Longrightarrow> reg_step L G cfg canon urls s1 e s2 \<Longrightarrow>
    reg_run L G cfg canon urls s (es @ [e]) s2"

text \<open>A thread that makes the given number of steps while nothing else happens.\<close>

fun open_moves ::
  "status_lib \<Rightarrow> ('d, 'r) git_lib \<Rightarrow> server_config \<Rightarrow> canonicalizer \<Rightarrow> (nat \<Rightarrow> url) \<Rightarrow> nat list \<Rightarrow> 'd registry \<Rightarrow>
     'd registry process option" where
  "open_moves L G cfg canon urls [] s = Some (Returns s)"
| "open_moves L G cfg canon urls (t # ts) s =
     (case open_step L G cfg canon urls t s of
        None \<Rightarrow> None
      | Some Exits \<Rightarrow> if ts = [] then Some Exits else None
      | Some (Returns s') \<Rightarrow> open_moves L G cfg canon urls ts s')"

section \<open>The invariant\<close>

text \<open>
  The repository a thread has is the one in the map, under the path of its canonical URL;
  the thread that stored it has made the pools by the time it is at the \<open>once\<close>.
\<close>

definition has_repo :: "server_config \<Rightarrow> canonicalizer \<Rightarrow> url \<Rightarrow> url \<Rightarrow> managed_repo \<Rightarrow> 'd registry \<Rightarrow> bool" where
  "has_repo cfg canon u v m s \<longleftrightarrow>
     canon u = Inr v \<and> r_path m = local_disk_path (cfg_root cfg) v \<and> w_repos (rg_world s) (r_path m) = Some m"

definition has_pools :: "nat \<Rightarrow> managed_repo \<Rightarrow> 'd registry \<Rightarrow> bool" where
  "has_pools t m s \<longleftrightarrow> (rg_creator s (r_path m) = Some t \<longrightarrow> rg_fetch_pool s (r_path m) \<and> rg_serve_pool s (r_path m))"

definition thread_ok :: "server_config \<Rightarrow> canonicalizer \<Rightarrow> (nat \<Rightarrow> url) \<Rightarrow> 'd registry \<Rightarrow> nat \<Rightarrow> bool" where
  "thread_ok cfg canon urls s t =
     (case rg_pc s t of
        Called \<Rightarrow> \<forall>p. rg_creator s p \<noteq> Some t
      | BeforeStore v \<Rightarrow> canon (urls t) = Inr v \<and> (\<forall>p. rg_creator s p \<noteq> Some t)
      | MakeFetchPool v m \<Rightarrow> has_repo cfg canon (urls t) v m s
      | MakeServePool v m \<Rightarrow> has_repo cfg canon (urls t) v m s \<and> rg_fetch_pool s (r_path m)
      | UnlockRepo v m \<Rightarrow> has_repo cfg canon (urls t) v m s \<and> rg_fetch_pool s (r_path m) \<and> rg_serve_pool s (r_path m)
      | AtOnce v m \<Rightarrow> has_repo cfg canon (urls t) v m s \<and> has_pools t m s
      | Initialising v m \<Rightarrow> has_repo cfg canon (urls t) v m s \<and> has_pools t m s \<and> rg_running s (r_path m) = Some t
      | Opened m \<Rightarrow> (\<exists>v. has_repo cfg canon (urls t) v m s) \<and> has_pools t m s \<and> w_once (rg_world s) (r_path m)
      | Refused e \<Rightarrow> canon (urls t) = Inl e \<and> (\<forall>p. rg_creator s p \<noteq> Some t))"

definition stored_ok :: "'d registry \<Rightarrow> bool" where
  "stored_ok s \<longleftrightarrow> registry_ok (rg_world s) \<and> (\<forall>p. rg_creator s p \<noteq> None \<longrightarrow> w_repos (rg_world s) p \<noteq> None)"

definition once_ok :: "(string \<Rightarrow> bool) \<Rightarrow> 'd registry \<Rightarrow> bool" where
  "once_ok done s \<longleftrightarrow> (\<forall>p.
     (case rg_running s p of
        None \<Rightarrow> True
      | Some t \<Rightarrow> \<not> w_once (rg_world s) p \<and> (\<exists>v m. rg_pc s t = Initialising v m \<and> r_path m = p)) \<and>
     (done p \<longrightarrow> w_once (rg_world s) p) \<and>
     rg_inits s p = (if w_once (rg_world s) p \<and> \<not> done p then 1 else 0))"

definition reg_inv ::
  "server_config \<Rightarrow> canonicalizer \<Rightarrow> (nat \<Rightarrow> url) \<Rightarrow> (string \<Rightarrow> bool) \<Rightarrow> 'd registry \<Rightarrow> bool" where
  "reg_inv cfg canon urls done s \<longleftrightarrow> stored_ok s \<and> once_ok done s \<and> (\<forall>t. thread_ok cfg canon urls s t)"

lemmas reg_inv_defs = thread_ok_def stored_ok_def once_ok_def has_repo_def has_pools_def

text \<open>What only grows.\<close>

definition reg_grows :: "nat \<Rightarrow> 'd registry \<Rightarrow> 'd registry \<Rightarrow> bool" where
  "reg_grows t s s' \<longleftrightarrow>
     (\<forall>p m. w_repos (rg_world s) p = Some m \<longrightarrow> w_repos (rg_world s') p = Some m) \<and>
     (\<forall>p. w_once (rg_world s) p \<longrightarrow> w_once (rg_world s') p) \<and>
     (\<forall>p. rg_fetch_pool s p \<longrightarrow> rg_fetch_pool s' p) \<and> (\<forall>p. rg_serve_pool s p \<longrightarrow> rg_serve_pool s' p) \<and>
     (\<forall>u. u \<noteq> t \<longrightarrow> rg_pc s' u = rg_pc s u \<and>
        (\<forall>p. (rg_creator s' p = Some u \<longrightarrow> rg_creator s p = Some u) \<and> (rg_running s p = Some u \<longrightarrow> rg_running s' p = Some u)))"

lemma open_step_grows:
  assumes "open_step L G cfg canon urls t s = Some (Returns s')" and "thread_ok cfg canon urls s t"
  shows "reg_grows t s s'"
proof (cases "rg_pc s t")
  case (Initialising v m)
  with assms obtain w where w: "init_repository L G (r_path m) v (rg_world s) = Returns w"
    and s': "s' = move t (Opened m) (s\<lparr>rg_world := w\<lparr>w_once := (w_once w)(r_path m := True)\<rparr>,
      rg_running := (rg_running s)(r_path m := None), rg_inits := (rg_inits s)(r_path m := Suc (rg_inits s (r_path m)))\<rparr>)"
    by (auto simp: open_step_def split: process.splits)
  have "rg_running s (r_path m) = Some t" using assms(2) Initialising by (simp add: thread_ok_def)
  then show ?thesis
    using init_repository_fields [OF w] by (auto simp: s' reg_grows_def move_def)
qed (use assms in \<open>auto simp: open_step_def reg_grows_def move_def get_managed_repo_def Let_def
       split: sum.splits if_splits option.splits\<close>)

lemma thread_ok_other:
  assumes "reg_grows t s s'" and "u \<noteq> t" and "thread_ok cfg canon urls s u"
  shows "thread_ok cfg canon urls s' u"
proof -
  have pc: "rg_pc s' u = rg_pc s u" using assms(1,2) by (simp add: reg_grows_def)
  show ?thesis
    using assms unfolding thread_ok_def pc
    by (cases "rg_pc s u") (auto simp: reg_grows_def has_repo_def has_pools_def)
qed

lemma thread_ok_self:
  assumes "open_step L G cfg canon urls t s = Some (Returns s')" and "thread_ok cfg canon urls s t" and "stored_ok s"
  shows "thread_ok cfg canon urls s' t"
proof (cases "rg_pc s t")
  case (Initialising v m)
  with assms obtain w where w: "init_repository L G (r_path m) v (rg_world s) = Returns w"
    and s': "s' = move t (Opened m) (s\<lparr>rg_world := w\<lparr>w_once := (w_once w)(r_path m := True)\<rparr>,
      rg_running := (rg_running s)(r_path m := None), rg_inits := (rg_inits s)(r_path m := Suc (rg_inits s (r_path m)))\<rparr>)"
    by (auto simp: open_step_def split: process.splits)
  show ?thesis
    using assms(2) Initialising init_repository_fields [OF w] by (auto simp: s' reg_inv_defs move_def)
next
  case (BeforeStore v)
  then show ?thesis
    using assms by (auto simp: open_step_def reg_inv_defs registry_ok_def move_def get_managed_repo_def Let_def
      split: option.splits if_splits)
qed (use assms in \<open>auto simp: open_step_def reg_inv_defs move_def split: sum.splits if_splits\<close>)

lemma stored_ok_step:
  assumes "open_step L G cfg canon urls t s = Some (Returns s')" and "stored_ok s"
  shows "stored_ok s'"
proof (cases "rg_pc s t")
  case (Initialising v m)
  with assms obtain w where w: "init_repository L G (r_path m) v (rg_world s) = Returns w"
    and s': "w_repos (rg_world s') = w_repos w" "rg_creator s' = rg_creator s"
    by (auto simp: open_step_def move_def split: process.splits)
  show ?thesis
    using assms(2) init_repository_fields [OF w] by (simp add: s' stored_ok_def registry_ok_def)
qed (use assms in \<open>auto simp: open_step_def stored_ok_def registry_ok_def move_def get_managed_repo_def Let_def
       split: sum.splits if_splits option.splits\<close>)

lemma once_ok_kept:
  assumes "once_ok done s" and "rg_running s' = rg_running s" and "w_once (rg_world s') = w_once (rg_world s)"
    and "rg_inits s' = rg_inits s" and "\<And>u v m. rg_pc s u = Initialising v m \<Longrightarrow> rg_pc s' u = rg_pc s u"
  shows "once_ok done s'"
  using assms(1) unfolding once_ok_def assms(2-4) by (auto simp: assms(5) split: option.splits) (metis assms(5))+

lemma once_ok_begun:
  assumes "once_ok done s" and "rg_pc s t = AtOnce v m" and "\<not> w_once (rg_world s) (r_path m)" and "rg_running s (r_path m) = None"
  shows "once_ok done (move t (Initialising v m) (s\<lparr>rg_running := (rg_running s)(r_path m := Some t)\<rparr>))" (is "once_ok done ?s'")
  unfolding once_ok_def
proof
  fix p
  from assms(1) have "(case rg_running s p of None \<Rightarrow> True
      | Some u \<Rightarrow> \<not> w_once (rg_world s) p \<and> (\<exists>v m. rg_pc s u = Initialising v m \<and> r_path m = p)) \<and>
    (done p \<longrightarrow> w_once (rg_world s) p) \<and> rg_inits s p = (if w_once (rg_world s) p \<and> \<not> done p then 1 else 0)"
    by (simp add: once_ok_def)
  with assms(2-4) show "(case rg_running ?s' p of
      None \<Rightarrow> True
    | Some u \<Rightarrow> \<not> w_once (rg_world ?s') p \<and>
        (\<exists>v' m'. rg_pc ?s' u = Initialising v' m' \<and>
          r_path m' = p)) \<and>
    (done p \<longrightarrow> w_once (rg_world ?s') p) \<and>
    rg_inits ?s' p =
      (if w_once (rg_world ?s') p \<and> \<not> done p
       then 1 else 0)"
    by (auto simp: move_def split: option.splits)
qed

lemma once_ok_step:
  assumes "open_step L G cfg canon urls t s = Some (Returns s')" and "thread_ok cfg canon urls s t" and "once_ok done s"
  shows "once_ok done s'"
proof (cases "rg_pc s t")
  case (Initialising v m)
  with assms obtain w where w: "init_repository L G (r_path m) v (rg_world s) = Returns w"
    and s': "s' = move t (Opened m) (s\<lparr>rg_world := w\<lparr>w_once := (w_once w)(r_path m := True)\<rparr>,
      rg_running := (rg_running s)(r_path m := None), rg_inits := (rg_inits s)(r_path m := Suc (rg_inits s (r_path m)))\<rparr>)"
    by (auto simp: open_step_def split: process.splits)
  have run: "rg_running s (r_path m) = Some t" using assms(2) Initialising by (simp add: thread_ok_def)
  show ?thesis
    unfolding once_ok_def
  proof
    fix p
    have "case rg_running s p of None \<Rightarrow> True
      | Some u \<Rightarrow> \<not> w_once (rg_world s) p \<and> (\<exists>v m. rg_pc s u = Initialising v m \<and> r_path m = p)"
      "done p \<longrightarrow> w_once (rg_world s) p" "rg_inits s p = (if w_once (rg_world s) p \<and> \<not> done p then 1 else 0)"
      "case rg_running s (r_path m) of None \<Rightarrow> True | Some u \<Rightarrow> \<not> w_once (rg_world s) (r_path m)"
      using assms(3) by (auto simp: once_ok_def split: option.splits)
    then show "(case rg_running s' p of None \<Rightarrow> True
      | Some u \<Rightarrow> \<not> w_once (rg_world s') p \<and> (\<exists>v m. rg_pc s' u = Initialising v m \<and> r_path m = p)) \<and>
      (done p \<longrightarrow> w_once (rg_world s') p) \<and>
      rg_inits s' p = (if w_once (rg_world s') p \<and> \<not> done p then 1 else 0)"
      using run init_repository_fields [OF w] Initialising
      by (auto simp: s' move_def split: option.splits if_splits)
  qed
next
  case (AtOnce v m)
  show ?thesis
  proof (cases "w_once (rg_world s) (r_path m)")
    case True
    then show ?thesis
      using assms(1) AtOnce by (intro once_ok_kept [OF assms(3)]) (auto simp: open_step_def move_def)
  next
    case False
    then show ?thesis
      using assms(1) AtOnce once_ok_begun [OF assms(3) AtOnce] by (auto simp: open_step_def split: if_splits)
  qed
qed (rule once_ok_kept [OF assms(3)], use assms(1) in \<open>auto simp: open_step_def move_def get_managed_repo_def Let_def
       split: sum.splits if_splits option.splits\<close>)+

lemma reg_step_inv:
  assumes "reg_step L G cfg canon urls s e s'" and "reg_inv cfg canon urls done s"
  shows "reg_inv cfg canon urls done s'"
  using assms(1)
proof (cases rule: reg_stepE)
  case (moves t)
  have ok: "stored_ok s" "once_ok done s" "\<And>u. thread_ok cfg canon urls s u"
    using assms(2) by (simp_all add: reg_inv_def)
  have "thread_ok cfg canon urls s' u" for u
    using thread_ok_other [OF open_step_grows [OF moves(2) ok(3)] _ ok(3)] thread_ok_self [OF moves(2) ok(3,1)]
    by (cases "u = t") auto
  then show ?thesis
    using stored_ok_step [OF moves(2) ok(1)] once_ok_step [OF moves(2) ok(3,2)] by (simp add: reg_inv_def)
next
  case (elsewhere w')
  have "thread_ok cfg canon urls s' u" if "thread_ok cfg canon urls s u" for u
    using that unfolding thread_ok_def elsewhere(2)
    by (cases "rg_pc s u") (auto simp: has_repo_def has_pools_def elsewhere)
  moreover have "once_ok done s'" if "once_ok done s"
    by (rule once_ok_kept [OF that]) (simp_all add: elsewhere)
  ultimately show ?thesis
    using assms(2) elsewhere by (simp add: reg_inv_def stored_ok_def registry_ok_def)
qed

lemma reg_start_inv:
  assumes "registry_ok w"
  shows "reg_inv cfg canon urls (w_once w) (reg_start w)"
  using assms by (simp add: reg_inv_def reg_inv_defs reg_start_def)

lemma reg_run_inv:
  assumes "reg_run L G cfg canon urls s es s'" and "reg_inv cfg canon urls done s"
  shows "reg_inv cfg canon urls done s'"
  using assms by (induction rule: reg_run.induct) (blast intro: reg_step_inv)+

section \<open>A thread alone\<close>

lemma open_moves_trans:
  "open_moves L G cfg canon urls ts s = Some (Returns s1) \<Longrightarrow>
   open_moves L G cfg canon urls (ts @ us) s = open_moves L G cfg canon urls us s1"
  by (induction ts arbitrary: s) (auto split: option.splits process.splits if_splits)

text \<open>From the map to the \<open>once\<close>: the repository is stored, or found.\<close>

lemma stores_alone:
  assumes "rg_pc s t = BeforeStore v" and "get_managed_repo (local_disk_path (cfg_root cfg) v) v (rg_world s) = (m, w1)"
    and "stored_ok s"
  obtains ts s1 where "open_moves L G cfg canon urls ts s = Some (Returns s1)" and "rg_pc s1 t = AtOnce v m"
    and "rg_world s1 = w1" and "rg_running s1 = rg_running s" and "set ts = {t}"
    and "r_path m = local_disk_path (cfg_root cfg) v"
proof (cases "w_repos (rg_world s) (local_disk_path (cfg_root cfg) v)")
  case None
  with assms(1,2) show ?thesis
    by - (rule that [of "[t, t, t, t]"], simp add: open_step_def get_managed_repo_def move_def Let_def, auto simp: get_managed_repo_def Let_def)
next
  case (Some m')
  with assms show ?thesis
    by - (rule that [of "[t]"], simp add: open_step_def get_managed_repo_def move_def Let_def,
      auto simp: get_managed_repo_def stored_ok_def registry_ok_def)
qed

text \<open>And the \<open>once\<close>.\<close>

lemma once_alone:
  assumes "rg_pc s t = AtOnce v m" and "rg_running s (r_path m) = None"
  shows "\<exists>us. set us = {t} \<and>
    (case once_do (r_path m) (init_repository L G (r_path m) v) (rg_world s) of
       Exits \<Rightarrow> open_moves L G cfg canon urls us s = Some Exits
     | Returns w' \<Rightarrow>
         \<exists>s'. open_moves L G cfg canon urls us s = Some (Returns s') \<and> rg_world s' = w' \<and> rg_pc s' t = Opened m)"
proof (cases "w_once (rg_world s) (r_path m)")
  case True
  with assms show ?thesis
    by (intro exI [of _ "[t]"]) (simp add: open_step_def once_do_def move_def)
next
  case False
  with assms show ?thesis
    by (intro exI [of _ "[t, t]"]) (auto simp: open_step_def once_do_def move_def split: process.splits)
qed

section \<open>Progress\<close>

fun steps_to_open :: "thread_pc \<Rightarrow> nat" where
  "steps_to_open Called = 7"
| "steps_to_open (BeforeStore v) = 6"
| "steps_to_open (MakeFetchPool v m) = 5"
| "steps_to_open (MakeServePool v m) = 4"
| "steps_to_open (UnlockRepo v m) = 3"
| "steps_to_open (AtOnce v m) = 2"
| "steps_to_open (Initialising v m) = 1"
| "steps_to_open (Opened m) = 0"
| "steps_to_open (Refused e) = 0"

lemma open_step_decreases:
  assumes "open_step L G cfg canon urls t s = Some (Returns s')"
  shows "steps_to_open (rg_pc s' t) < steps_to_open (rg_pc s t) \<and> (\<forall>u. u \<noteq> t \<longrightarrow> rg_pc s' u = rg_pc s u)"
  using assms
  by (cases "rg_pc s t")
    (auto simp: open_step_def move_def Let_def split: sum.splits if_splits process.splits prod.splits)

lemma reg_run_steps:
  assumes "reg_run L G cfg canon urls s es s'"
  shows "count_list es (Some t) + steps_to_open (rg_pc s' t) \<le> steps_to_open (rg_pc s t)"
  using assms
proof (induction rule: reg_run.induct)
  case (more s es s1 e s2)
  from more.hyps(2) have "count_list [e] (Some t) + steps_to_open (rg_pc s2 t) \<le> steps_to_open (rg_pc s1 t)"
  proof (cases rule: reg_stepE)
    case (moves u)
    then show ?thesis using open_step_decreases [OF moves(2)] by (cases "u = t") auto
  qed simp
  with more.IH show ?case by simp
qed simp

text \<open>
  A thread that has returned, and one that waits for the \<open>once\<close> another one runs, which is
  the only thing a thread waits for.
\<close>

definition returned :: "thread_pc \<Rightarrow> bool" where
  "returned c \<longleftrightarrow> (case c of Opened m \<Rightarrow> True | Refused e \<Rightarrow> True | _ \<Rightarrow> False)"

definition waits_for :: "'d registry \<Rightarrow> nat \<Rightarrow> nat \<Rightarrow> bool" where
  "waits_for s t u \<longleftrightarrow>
     (case rg_pc s t of
        AtOnce v m \<Rightarrow> \<not> w_once (rg_world s) (r_path m) \<and> rg_running s (r_path m) = Some u
      | _ \<Rightarrow> False)"

lemma returned_simps [simp]:
  "returned (Opened m)" "returned (Refused e)" "\<not> returned Called" "\<not> returned (BeforeStore v)"
  "\<not> returned (MakeFetchPool v m)" "\<not> returned (MakeServePool v m)" "\<not> returned (UnlockRepo v m)"
  "\<not> returned (AtOnce v m)" "\<not> returned (Initialising v m)"
  by (simp_all add: returned_def)

lemma open_step_blocked: "open_step L G cfg canon urls t s = None \<Longrightarrow> \<not> returned (rg_pc s t) \<Longrightarrow> \<exists>u. waits_for s t u"
  by (cases "rg_pc s t") (auto simp: open_step_def waits_for_def Let_def split: sum.splits prod.splits process.splits if_splits)

text \<open>The thread it waits for is at the initialisation, which is one step, and then the \<open>once\<close> is done.\<close>

lemma waits_for_moves:
  assumes "reg_inv cfg canon urls done s" and "waits_for s t u"
  shows "open_step L G cfg canon urls u s \<noteq> None"
    and "open_step L G cfg canon urls u s = Some (Returns s') \<Longrightarrow> open_step L G cfg canon urls t s' \<noteq> None"
proof -
  obtain v m where t: "rg_pc s t = AtOnce v m" "rg_running s (r_path m) = Some u"
    using assms(2) by (auto simp: waits_for_def split: thread_pc.splits)
  have "case rg_running s (r_path m) of None \<Rightarrow> True
    | Some u \<Rightarrow> \<not> w_once (rg_world s) (r_path m) \<and> (\<exists>v' m'. rg_pc s u = Initialising v' m' \<and> r_path m' = r_path m)"
    using assms(1) unfolding reg_inv_def once_ok_def by blast
  with t(2) obtain v' m' where u: "rg_pc s u = Initialising v' m'" "r_path m' = r_path m" by auto
  then show "open_step L G cfg canon urls u s \<noteq> None" by (simp add: open_step_def split: process.split)
  assume step: "open_step L G cfg canon urls u s = Some (Returns s')"
  have "t \<noteq> u" using t u by auto
  with step have "rg_pc s' t = AtOnce v m" using open_step_decreases [OF step] t(1) by simp
  moreover have "w_once (rg_world s') (r_path m)"
    using step u by (auto simp: open_step_def move_def split: process.splits)
  ultimately show "open_step L G cfg canon urls t s' \<noteq> None" by (simp add: open_step_def)
qed

section \<open>Concrete openings, for witnesses\<close>

text \<open>Every thread opens the same repository; what a sequence of moves leads to.\<close>

lemma open_moves_run:
  "open_moves L G cfg canon urls ts s = Some (Returns s') \<Longrightarrow> reg_run L G cfg canon urls s0 es s \<Longrightarrow>
   reg_run L G cfg canon urls s0 (es @ map Some ts) s'"
proof (induction ts arbitrary: s es)
  case (Cons t ts)
  then obtain s1 where s1: "open_step L G cfg canon urls t s = Some (Returns s1)"
    "open_moves L G cfg canon urls ts s1 = Some (Returns s')" by (auto split: option.splits process.splits if_splits)
  from Cons.IH [OF s1(2) reg_run.more [OF Cons.prems(2) reg_step.moves [OF s1(1)]]] show ?case by simp
qed simp

definition demo_openings :: "nat list \<Rightarrow> (oid list \<times> (string \<times> oid) list) registry process option" where
  "demo_openings ts = open_moves plain_status (demo_git demo_reply) demo_config (github_url_canonicalizer id)
     (\<lambda>_. https_url ''github.com'' ''/o/r'') ts (reg_start demo_world)"

lemma demo_openings_run:
  assumes "demo_openings ts = Some (Returns s)"
  shows "reg_run plain_status (demo_git demo_reply) demo_config (github_url_canonicalizer id)
    (\<lambda>_. https_url ''github.com'' ''/o/r'') (reg_start demo_world) (map Some ts) s"
  using open_moves_run [OF assms [unfolded demo_openings_def] reg_run.none] by simp

lemma demo_world_ok: "registry_ok demo_world"
  by (simp add: registry_ok_def demo_world_def)

lemma demo_openings_two:
  "case demo_openings [0, 1, 0, 1, 1, 1, 0, 0, 0, 0] of
     Some (Returns s) \<Rightarrow> rg_pc s 0 = Opened demo_repo \<and> rg_pc s 1 = Opened demo_repo \<and> rg_inits s (r_path demo_repo) = 1
   | _ \<Rightarrow> False"
  by code_simp

lemma demo_openings_wait:
  "case demo_openings [0, 0, 0, 0, 0, 0, 1, 1] of
     Some (Returns s) \<Rightarrow> \<not> returned (rg_pc s 1) \<and>
       open_step plain_status (demo_git demo_reply) demo_config (github_url_canonicalizer id)
         (\<lambda>_. https_url ''github.com'' ''/o/r'') 1 s = None
   | _ \<Rightarrow> False"
  by code_simp

lemma demo_openings_early:
  "case demo_openings [0, 0, 1, 1, 1, 1] of
     Some (Returns s) \<Rightarrow> rg_pc s 1 = Opened demo_repo \<and>
       \<not> rg_fetch_pool s (r_path demo_repo) \<and> \<not> rg_serve_pool s (r_path demo_repo)
   | _ \<Rightarrow> False"
  by code_simp

section \<open>Properties\<close>

text \<open>
  C18: whatever the interleaving of the openings, every initialisation runs at most once;
  a request that has its repository has the one in the map, under the path of the canonical
  URL it asked for, its initialisation has ended and nobody runs it again; and the request
  that stored the repository has it with both worker pools.
\<close>

theorem opening_initialises_once:
  assumes "reg_run L G cfg canon urls (reg_start w) es s" and "registry_ok w"
  shows "rg_inits s p \<le> 1 \<and>
    (\<forall>m. rg_pc s t = Opened m \<longrightarrow>
       (\<exists>v. canon (urls t) = Inr v \<and> r_path m = local_disk_path (cfg_root cfg) v) \<and>
       w_repos (rg_world s) (r_path m) = Some m \<and> w_once (rg_world s) (r_path m) \<and> rg_running s (r_path m) = None \<and>
       (rg_creator s (r_path m) = Some t \<longrightarrow> rg_fetch_pool s (r_path m) \<and> rg_serve_pool s (r_path m)))"
proof -
  from reg_run_inv [OF assms(1) reg_start_inv [OF assms(2)]]
  have ok: "thread_ok cfg canon urls s t" "once_ok (w_once w) s" by (simp_all add: reg_inv_def)
  have "rg_inits s p \<le> 1" using ok(2) by (simp add: once_ok_def)
  moreover have "rg_running s q = None" if "w_once (rg_world s) q" for q
    using ok(2) that unfolding once_ok_def by (metis (no_types, lifting) option.case_eq_if)
  ultimately show ?thesis using ok(1) by (auto simp: thread_ok_def has_repo_def has_pools_def)
qed

theorem opening_initialises_once_witness:
  "\<exists>s. demo_openings [0, 1, 0, 1, 1, 1, 0, 0, 0, 0] = Some (Returns s) \<and>
     w_repos (rg_world s) (r_path demo_repo) = Some demo_repo \<and> rg_inits s (r_path demo_repo) = 1"
proof -
  obtain s where s: "demo_openings [0, 1, 0, 1, 1, 1, 0, 0, 0, 0] = Some (Returns s)" "rg_pc s 0 = Opened demo_repo"
    "rg_inits s (r_path demo_repo) = 1"
    using demo_openings_two by (auto split: option.splits process.splits)
  from opening_initialises_once [OF demo_openings_run [OF s(1)] demo_world_ok] s show ?thesis by blast
qed

text \<open>
  C20: openings get done: no request makes more than seven steps, and one that has not
  returned can move, or waits for the one request that runs the initialisation of its
  repository, which can move, and once that has moved and the process goes on, the waiting
  request can: the \<open>once\<close> never deadlocks.
\<close>

theorem openings_get_done:
  assumes "reg_run L G cfg canon urls (reg_start w) es s" and "registry_ok w"
  shows "count_list es (Some t) \<le> 7 \<and>
    (returned (rg_pc s t) \<or> open_step L G cfg canon urls t s \<noteq> None \<or>
     (\<exists>u. waits_for s t u \<and> open_step L G cfg canon urls u s \<noteq> None \<and>
       (\<forall>s'. open_step L G cfg canon urls u s = Some (Returns s') \<longrightarrow> open_step L G cfg canon urls t s' \<noteq> None)))"
proof
  show "count_list es (Some t) \<le> 7" using reg_run_steps [OF assms(1), of t] by (simp add: reg_start_def)
  have "reg_inv cfg canon urls (w_once w) s" by (rule reg_run_inv [OF assms(1) reg_start_inv [OF assms(2)]])
  from waits_for_moves [OF this, of t _ L G]
  show "returned (rg_pc s t) \<or> open_step L G cfg canon urls t s \<noteq> None \<or>
     (\<exists>u. waits_for s t u \<and> open_step L G cfg canon urls u s \<noteq> None \<and>
       (\<forall>s'. open_step L G cfg canon urls u s = Some (Returns s') \<longrightarrow> open_step L G cfg canon urls t s' \<noteq> None))"
    using open_step_blocked [of L G cfg canon urls t s] by blast
qed

text \<open>One request initialises while another waits.\<close>

theorem openings_get_done_witness:
  "\<exists>s u. demo_openings [0, 0, 0, 0, 0, 0, 1, 1] = Some (Returns s) \<and> waits_for s 1 u \<and>
     open_step plain_status (demo_git demo_reply) demo_config (github_url_canonicalizer id)
       (\<lambda>_. https_url ''github.com'' ''/o/r'') u s \<noteq> None"
proof -
  obtain s where s: "demo_openings [0, 0, 0, 0, 0, 0, 1, 1] = Some (Returns s)" "\<not> returned (rg_pc s 1)"
    "open_step plain_status (demo_git demo_reply) demo_config (github_url_canonicalizer id)
       (\<lambda>_. https_url ''github.com'' ''/o/r'') 1 s = None"
    using demo_openings_wait by (auto split: option.splits process.splits)
  from openings_get_done [OF demo_openings_run [OF s(1)] demo_world_ok, of 1] s show ?thesis by blast
qed

text \<open>
  C19: the steps refine the operation: a request that nothing interferes with ends with the
  world and the result that \<open>openManagedRepository\<close> computes, or ends the process with it.
\<close>

theorem opening_refines:
  assumes "rg_pc s t = Called" and "stored_ok s"
    and "\<And>v. canon (urls t) = Inr v \<Longrightarrow> rg_running s (local_disk_path (cfg_root cfg) v) = None"
  shows "\<exists>ts. set ts = {t} \<and>
    (case open_managed_repository L G cfg canon (urls t) (rg_world s) of
       Exits \<Rightarrow> open_moves L G cfg canon urls ts s = Some Exits
     | Returns (res, w') \<Rightarrow>
         \<exists>s'. open_moves L G cfg canon urls ts s = Some (Returns s') \<and> rg_world s' = w' \<and>
           rg_pc s' t = (case res of Inl e \<Rightarrow> Refused e | Inr m \<Rightarrow> Opened m))"
proof (cases "canon (urls t)")
  case (Inl e)
  with assms(1) show ?thesis
    by (intro exI [of _ "[t]"]) (simp add: open_step_def open_managed_repository_def move_def)
next
  case (Inr v)
  let ?path = "local_disk_path (cfg_root cfg) v"
  obtain m w1 where get: "get_managed_repo ?path v (rg_world s) = (m, w1)" by fastforce
  have call: "open_moves L G cfg canon urls [t] s = Some (Returns (move t (BeforeStore v) s))"
    using assms(1) Inr by (simp add: open_step_def)
  obtain ts s1 where store: "open_moves L G cfg canon urls ts (move t (BeforeStore v) s) = Some (Returns s1)"
    and s1: "rg_pc s1 t = AtOnce v m" "rg_world s1 = w1" "rg_running s1 ?path = None" "r_path m = ?path" "set ts = {t}"
  proof (rule stores_alone [where L = L and G = G and canon = canon and urls = urls])
    show "rg_pc (move t (BeforeStore v) s) t = BeforeStore v" by (simp add: move_def)
    show "get_managed_repo ?path v (rg_world (move t (BeforeStore v) s)) = (m, w1)" using get by (simp add: move_def)
    show "stored_ok (move t (BeforeStore v) s)" using assms(2) by (simp add: stored_ok_def move_def)
  qed (use assms(3) [OF Inr] in \<open>simp add: move_def\<close>)
  have moves: "open_moves L G cfg canon urls ([t] @ ts @ us) s = open_moves L G cfg canon urls us s1" for us
    by (simp only: open_moves_trans [OF call] open_moves_trans [OF store])
  obtain us where us: "set us = {t}" "case once_do ?path (init_repository L G ?path v) w1 of
      Exits \<Rightarrow> open_moves L G cfg canon urls us s1 = Some Exits
    | Returns w' \<Rightarrow> \<exists>s'. open_moves L G cfg canon urls us s1 = Some (Returns s') \<and> rg_world s' = w' \<and> rg_pc s' t = Opened m"
    using once_alone [OF s1(1), of L G cfg canon urls] s1(2,3,4) by auto
  then show ?thesis
    using s1(5) get Inr moves [of us]
    by (intro exI [of _ "[t] @ ts @ us"]) (auto simp: open_managed_repository_def Let_def split: process.splits)
qed

theorem opening_refines_witness:
  "\<exists>ts s'. demo_openings ts = Some (Returns s') \<and> rg_world s' = opened_world"
proof -
  let ?s = "reg_start demo_world"
  have start: "rg_pc ?s 0 = Called" "stored_ok ?s" "rg_running ?s p = None" "rg_world ?s = demo_world" for p
    using demo_world_ok by (simp_all add: reg_start_def stored_ok_def)
  obtain m where m: "open_managed_repository plain_status (demo_git demo_reply) demo_config (github_url_canonicalizer id)
      (https_url ''github.com'' ''/o/r'') demo_world = Returns (Inr m, opened_world)"
    using demo_open by blast
  from opening_refines [where canon = "github_url_canonicalizer id" and urls = "\<lambda>_. https_url ''github.com'' ''/o/r''"
      and L = plain_status and G = "demo_git demo_reply" and cfg = demo_config, OF start(1,2,3)]
  show ?thesis unfolding start(4) m demo_openings_def by auto
qed

text \<open>
  A request that finds the repository in the map does not wait for its pools: it can have
  the repository while both are still nil, and then calls a method of a nil pool.
\<close>

theorem opened_without_pools:
  "\<exists>es s. reg_run plain_status (demo_git demo_reply) demo_config (github_url_canonicalizer id)
      (\<lambda>_. https_url ''github.com'' ''/o/r'') (reg_start demo_world) es s \<and>
    rg_pc s 1 = Opened demo_repo \<and> \<not> rg_fetch_pool s (r_path demo_repo) \<and> \<not> rg_serve_pool s (r_path demo_repo)"
proof -
  obtain s where s: "demo_openings [0, 0, 1, 1, 1, 1] = Some (Returns s)" "rg_pc s 1 = Opened demo_repo"
    "\<not> rg_fetch_pool s (r_path demo_repo)" "\<not> rg_serve_pool s (r_path demo_repo)"
    using demo_openings_early by (auto split: option.splits process.splits)
  from demo_openings_run [OF s(1)] s(2-4) show ?thesis by blast
qed

end
