(* ===== verification/Scheduler.thy ===== *)
theory Scheduler
  imports Opening
begin

text \<open>
  Fetches in the background: \<open>FetchManagedRepositoryAsync\<close> and \<open>RunEvery\<close> (\<open>goblet.go\<close>),
  \<open>FetchRepositories\<close> and the start of the server (\<open>goblet-server/main.go\<close>). A channel of
  errors is the list of what is sent on it, \<open>None\<close> for nil. The fetches of different
  repositories have pools of their own; they are run here in the order they are submitted.
\<close>

section \<open>FetchManagedRepositoryAsync\<close>

text \<open>
  What a call meets: the tasks waiting in the pool, the time it looks at the repository,
  what happens until the pool picks the task up, that time, the times of the fetch, and
  whether there is a gc.log to read after it.
\<close>

record 'd async_env =
  ae_waiting :: nat
  ae_now :: time
  ae_queue :: "'d world \<Rightarrow> 'd world"
  ae_pickup :: time
  ae_start :: time
  ae_end :: time
  ae_gc_log :: "'d \<Rightarrow> string \<Rightarrow> bool"

definition recent :: "managed_repo \<Rightarrow> time \<Rightarrow> 'd world \<Rightarrow> bool" where
  "recent r now w = (now - last_update_time r w < 15 * minute)"

definition async_task ::
  "status_lib \<Rightarrow> ('d, 'r) git_lib \<Rightarrow> server_config \<Rightarrow> managed_repo \<Rightarrow> bool \<Rightarrow> 'd async_env \<Rightarrow> 'd world \<Rightarrow>
     go_error option list \<times> 'd world" where
  "async_task L G cfg r must_fetch E w =
     (let w0 = log_elapsed ''FetchManagedRepository queuing'' (r_path r) w;
          (sent, w1) =
            (if must_fetch then
               (case fetch_upstream L G cfg r (ae_start E) (ae_end E) []
                       (count_operation (r_path r) [''op:background_fetch'', ''must:1''] w0) of (err, w') \<Rightarrow> ([err], w'))
             else if recent r (ae_pickup E) w0 then ([None], w0)
             else (case fetch_upstream L G cfg r (ae_start E) (ae_end E) []
                       (count_operation (r_path r) [''op:background_fetch'', ''must:0''] w0) of (err, w') \<Rightarrow> ([err], w')))
      in if ae_gc_log E (w_disk w1) (path_join [r_path r, ''gc.log'']) then
           (case run_gc L G cfg r w1 of (err, w2) \<Rightarrow> (sent @ [err], w2))
         else (sent, w1))"

definition fetch_managed_repository_async ::
  "status_lib \<Rightarrow> ('d, 'r) git_lib \<Rightarrow> server_config \<Rightarrow> canonicalizer \<Rightarrow> url \<Rightarrow> bool \<Rightarrow> 'd async_env \<Rightarrow>
     'd world \<Rightarrow> (go_error option list \<times> 'd world) process" where
  "fetch_managed_repository_async L G cfg canon u must_fetch E w =
     (case open_managed_repository L G cfg canon u w of
        Exits \<Rightarrow> Exits
      | Returns (Inl e, w1) \<Rightarrow> Returns ([Some e], w1)
      | Returns (Inr repo, w1) \<Rightarrow>
          if \<not> must_fetch \<and> ae_waiting E > 0 then Returns ([None], w1)
          else if \<not> must_fetch \<and> recent repo (ae_now E) w1 then Returns ([None], w1)
          else Returns (async_task L G cfg repo must_fetch E (ae_queue E w1)))"

section \<open>FetchRepositories\<close>

text \<open>The channels, one for each repository; \<open>parse_url\<close> is \<open>url.Parse\<close>.\<close>

fun submit_all ::
  "status_lib \<Rightarrow> ('d, 'r) git_lib \<Rightarrow> server_config \<Rightarrow> canonicalizer \<Rightarrow> (string \<Rightarrow> go_error + url) \<Rightarrow> bool \<Rightarrow>
     (string \<Rightarrow> 'd async_env) \<Rightarrow> string list \<Rightarrow> 'd world \<Rightarrow> (go_error option list list \<times> 'd world) process" where
  "submit_all L G cfg canon parse_url must_fetch env [] w = Returns ([], w)"
| "submit_all L G cfg canon parse_url must_fetch env (repository # rest) w =
     (case (case parse_url repository of
              Inl e \<Rightarrow> Returns ([Some e], w)
            | Inr u \<Rightarrow> fetch_managed_repository_async L G cfg canon u must_fetch (env repository) w) of
        Exits \<Rightarrow> Exits
      | Returns (sent, w1) \<Rightarrow>
          (case submit_all L G cfg canon parse_url must_fetch env rest w1 of
             Exits \<Rightarrow> Exits
           | Returns (chans, w2) \<Rightarrow> Returns (sent # chans, w2)))"

text \<open>One receive from each channel; the errors that are not nil, in order.\<close>

definition fetch_repositories ::
  "status_lib \<Rightarrow> ('d, 'r) git_lib \<Rightarrow> server_config \<Rightarrow> canonicalizer \<Rightarrow> (string \<Rightarrow> go_error + url) \<Rightarrow> bool \<Rightarrow>
     (string \<Rightarrow> 'd async_env) \<Rightarrow> string list \<Rightarrow> 'd world \<Rightarrow> (go_error list \<times> 'd world) process" where
  "fetch_repositories L G cfg canon parse_url must_fetch env repositories w =
     (case submit_all L G cfg canon parse_url must_fetch env repositories w of
        Exits \<Rightarrow> Exits
      | Returns (chans, w') \<Rightarrow> Returns (List.map_filter hd chans, w'))"

section \<open>RunEvery\<close>

text \<open>What the loop selects: the timer, or the stop channel, after which it returns.\<close>

datatype tick = Tick time | Stop

fun run_every :: "(time \<Rightarrow> 's \<Rightarrow> 's) \<Rightarrow> tick list \<Rightarrow> 's \<Rightarrow> 's" where
  "run_every f [] s = s"
| "run_every f (Tick t # ts) s = run_every f ts (f t s)"
| "run_every f (Stop # ts) s = s"

section \<open>The start of the server\<close>

text \<open>\<open>ConfigFile\<close> (\<open>config.go\<close>), as the JSON file gives it.\<close>

record config_file =
  cf_port :: int
  cf_cache_root :: string
  cf_token_expiry_delta_seconds :: int
  cf_enable_metrics :: bool
  cf_pack_objects_hook :: string
  cf_pack_objects_cache :: string
  cf_repositories :: "string list"

definition config_of :: "config_file \<Rightarrow> server_config" where
  "config_of cf = \<lparr>cfg_root = cf_cache_root cf, cfg_pack_objects_hook = cf_pack_objects_hook cf,
     cfg_pack_objects_cache = cf_pack_objects_cache cf, cfg_error_reporter = True, cfg_request_logger = True,
     cfg_operation_logger = True\<rparr>"

text \<open>Opening the configured repositories: any error ends the process.\<close>

fun open_all ::
  "status_lib \<Rightarrow> ('d, 'r) git_lib \<Rightarrow> server_config \<Rightarrow> canonicalizer \<Rightarrow> (string \<Rightarrow> go_error + url) \<Rightarrow>
     string list \<Rightarrow> 'd world \<Rightarrow> 'd world process" where
  "open_all L G cfg canon parse_url [] w = Returns w"
| "open_all L G cfg canon parse_url (repository # rest) w =
     (case parse_url repository of
        Inl e \<Rightarrow> Exits
      | Inr u \<Rightarrow>
          (case open_managed_repository L G cfg canon u w of
             Exits \<Rightarrow> Exits
           | Returns (Inl e, w1) \<Rightarrow> Exits
           | Returns (Inr m, w1) \<Rightarrow> open_all L G cfg canon parse_url rest w1))"

text \<open>From the loaded configuration to the point where the routes are registered.\<close>

definition server_start ::
  "status_lib \<Rightarrow> ('d, 'r) git_lib \<Rightarrow> canonicalizer \<Rightarrow> (string \<Rightarrow> go_error + url) \<Rightarrow> (string \<Rightarrow> 'd async_env) \<Rightarrow>
     config_file \<Rightarrow> 'd world \<Rightarrow> 'd world process" where
  "server_start L G canon parse_url env cf w =
     (if cf_pack_objects_hook cf \<noteq> [] \<and> cf_pack_objects_cache cf = [] then Exits
      else case open_all L G (config_of cf) canon parse_url (cf_repositories cf) w of
             Exits \<Rightarrow> Exits
           | Returns w1 \<Rightarrow>
               (case fetch_repositories L G (config_of cf) canon parse_url True env (cf_repositories cf) w1 of
                  Exits \<Rightarrow> Exits
                | Returns (errs, w2) \<Rightarrow> if errs \<noteq> [] then Exits else Returns w2))"

section \<open>Lemmas\<close>

lemma recent_unchanged [simp]:
  "recent r now (log_elapsed op p w) = recent r now w" "recent r now (count_operation p tags w) = recent r now w"
  by (simp_all add: recent_def last_update_time_def)

lemma async_task_first:
  "fst (async_task L G cfg r must_fetch E w) \<noteq> []"
  "hd (fst (async_task L G cfg r must_fetch E w)) =
    (if must_fetch \<or> \<not> recent r (ae_pickup E) w then fst (fetch_upstream L G cfg r (ae_start E) (ae_end E) [] w) else None)"
  by (simp_all add: async_task_def Let_def split_beta)

lemma async_sends:
  assumes "fetch_managed_repository_async L G cfg canon u must_fetch E w = Returns (sent, w')"
  shows "sent \<noteq> []"
proof -
  obtain res w1 where op: "open_managed_repository L G cfg canon u w = Returns (res, w1)"
    using assms(1) by (auto simp: fetch_managed_repository_async_def split: process.splits)
  show ?thesis
  proof (cases res)
    case (Inr m)
    have "fst (async_task L G cfg m must_fetch E (ae_queue E w1)) \<noteq> []" by (rule async_task_first(1))
    with Inr op assms show ?thesis by (auto simp: fetch_managed_repository_async_def split: if_splits)
  qed (use op assms in \<open>auto simp: fetch_managed_repository_async_def\<close>)
qed

text \<open>A step of the list of repositories that ended well with \<open>must_fetch\<close>.\<close>

definition fetched_from ::
  "status_lib \<Rightarrow> ('d, 'r) git_lib \<Rightarrow> server_config \<Rightarrow> canonicalizer \<Rightarrow> (string \<Rightarrow> go_error + url) \<Rightarrow>
     (string \<Rightarrow> 'd async_env) \<Rightarrow> string \<Rightarrow> bool" where
  "fetched_from L G cfg canon parse_url env repository \<longleftrightarrow>
     (\<exists>u m w w1. parse_url repository = Inr u \<and>
        open_managed_repository L G cfg canon u w = Returns (Inr m, w1) \<and>
        fst (fetch_upstream L G cfg m (ae_start (env repository)) (ae_end (env repository)) []
          (ae_queue (env repository) w1)) = None)"

lemma must_fetch_silent:
  assumes "fetch_managed_repository_async L G cfg canon u True E w = Returns (sent, w')" and "hd sent = None"
  shows "\<exists>m w1. open_managed_repository L G cfg canon u w = Returns (Inr m, w1) \<and>
    fst (fetch_upstream L G cfg m (ae_start E) (ae_end E) [] (ae_queue E w1)) = None"
proof -
  obtain res w1 where op: "open_managed_repository L G cfg canon u w = Returns (res, w1)"
    using assms(1) by (auto simp: fetch_managed_repository_async_def split: process.splits)
  then obtain m where m: "res = Inr m"
    using assms by (cases res) (auto simp: fetch_managed_repository_async_def)
  with op assms(1) have "sent = fst (async_task L G cfg m True E (ae_queue E w1))"
    by (simp add: fetch_managed_repository_async_def)
  with op m assms(2) show ?thesis using async_task_first(2) [of L G cfg m True E "ae_queue E w1"] by auto
qed

lemma submit_all_silent:
  assumes "submit_all L G cfg canon parse_url True env repositories w = Returns (chans, w')"
    and "\<forall>c \<in> set chans. hd c = None" and "r \<in> set repositories"
  shows "fetched_from L G cfg canon parse_url env r"
  using assms
proof (induction repositories arbitrary: w chans)
  case (Cons repository rest)
  obtain sent w1 chans' where
    one: "(case parse_url repository of Inl e \<Rightarrow> Returns ([Some e], w)
       | Inr u \<Rightarrow> fetch_managed_repository_async L G cfg canon u True (env repository) w) = Returns (sent, w1)"
    and rest: "submit_all L G cfg canon parse_url True env rest w1 = Returns (chans', w')"
    and chans: "chans = sent # chans'"
    using Cons.prems(1) by (auto split: process.splits prod.splits)
  have "hd sent = None" using Cons.prems(2) chans by simp
  with one obtain u where u: "parse_url repository = Inr u"
    and run: "fetch_managed_repository_async L G cfg canon u True (env repository) w = Returns (sent, w1)"
    by (auto split: sum.splits)
  from must_fetch_silent [OF run \<open>hd sent = None\<close>] u
  have "fetched_from L G cfg canon parse_url env repository" unfolding fetched_from_def by blast
  with Cons.IH [OF rest] Cons.prems(2,3) chans show ?case by auto
qed simp

lemma run_every_stop: "run_every f (ts @ Stop # us) s = run_every f ts s"
  by (induction f ts s rule: run_every.induct) simp_all

section \<open>What the first fetches leave\<close>

text \<open>
  What a start may do to the registry and the update times: repositories are added,
  initialised and fetched, at one of the instants \<open>S\<close>. Each first fetch does no more, and
  may rely on the others, which run meanwhile, to do no more.
\<close>

definition start_grows :: "int set \<Rightarrow> 'd world \<Rightarrow> 'd world \<Rightarrow> bool" where
  "start_grows S w w' \<longleftrightarrow>
     (\<forall>p m. w_repos w p = Some m \<longrightarrow> w_repos w' p = Some m) \<and> (\<forall>p. w_once w p \<longrightarrow> w_once w' p) \<and>
     (registry_ok w \<longrightarrow> registry_ok w') \<and>
     (\<forall>p. w_last_update w' p = w_last_update w p \<or> w_last_update w' p \<in> S)"

lemma start_grows_refl: "start_grows S w w"
  by (simp add: start_grows_def)

lemma start_grows_trans: "start_grows S w w1 \<Longrightarrow> start_grows S w1 w2 \<Longrightarrow> start_grows S w w2"
  by (auto simp: start_grows_def) metis+

lemma start_grows_outside:
  "w_repos w' = w_repos w \<Longrightarrow> w_once w' = w_once w \<Longrightarrow>
   (\<And>p. w_last_update w' p = w_last_update w p \<or> w_last_update w' p \<in> S) \<Longrightarrow> start_grows S w w'"
  by (simp add: start_grows_def registry_ok_def)

text \<open>The repository is in the registry, initialised, and was fetched at one of the instants.\<close>

definition fetched_at :: "int set \<Rightarrow> string \<Rightarrow> 'd world \<Rightarrow> bool" where
  "fetched_at S path w \<longleftrightarrow> w_repos w path \<noteq> None \<and> w_once w path \<and> w_last_update w path \<in> S"

lemma fetched_at_grows: "fetched_at S path w \<Longrightarrow> start_grows S w w' \<Longrightarrow> fetched_at S path w'"
  unfolding fetched_at_def start_grows_def by (metis option.exhaust option.distinct(1))

lemma open_start_grows:
  assumes "open_managed_repository L G cfg canon u w = Returns (res, w')"
  shows "start_grows S w w' \<and>
    (\<forall>m. res = Inr m \<longrightarrow> registry_ok w \<longrightarrow>
       (\<exists>v. canon u = Inr v \<and> r_path m = local_disk_path (cfg_root cfg) v \<and> w_repos w' (r_path m) = Some m \<and> w_once w' (r_path m)))"
proof (cases "canon u")
  case (Inr v)
  let ?path = "local_disk_path (cfg_root cfg) v"
  obtain m w0 where get: "get_managed_repo ?path v w = (m, w0)" by fastforce
  obtain w2 where once: "once_do ?path (init_repository L G ?path v) w0 = Returns w2" and res: "res = Inr m" "w' = w2"
    using assms by (auto simp: open_managed_repository_def Inr get Let_def split: process.splits)
  note fields = once_do_fields [OF once]
  have kept: "w_repos w0 p = Some k" if "w_repos w p = Some k" for p k
    using get that by (auto simp: get_managed_repo_def Let_def split: option.splits)
  have same: "w_once w0 = w_once w" "w_last_update w0 = w_last_update w"
    using get by (auto simp: get_managed_repo_def Let_def split: option.splits)
  have "registry_ok w'" if "registry_ok w"
    using get_managed_repo_ok(1) [OF get that] by (simp add: registry_ok_def res fields)
  then have "start_grows S w w'" using kept by (simp add: start_grows_def res fields same)
  then show ?thesis using get_managed_repo_ok [OF get] Inr by (simp add: res fields)
qed (use assms in \<open>auto simp: open_managed_repository_def start_grows_def\<close>)

lemma run_gc_start_fields [simp]:
  "w_repos (snd (run_gc L G cfg r w)) = w_repos w" "w_once (snd (run_gc L G cfg r w)) = w_once w"
  "w_last_update (snd (run_gc L G cfg r w)) = w_last_update w"
  by (simp_all add: run_gc_def start_operation_def Let_def split_beta)

text \<open>A first fetch whose message is nil.\<close>

lemma async_task_fetched:
  assumes "async_task L G cfg m True E w = (sent, w')" and "hd sent = None"
  shows "w_repos w' = w_repos w \<and> w_once w' = w_once w \<and>
    w_last_update w' = (w_last_update w)(r_path m := unix_of (ae_start E))"
proof -
  let ?v = "count_operation (r_path m) [''op:background_fetch'', ''must:1'']
    (log_elapsed ''FetchManagedRepository queuing'' (r_path m) w)"
  obtain err w1 where run: "fetch_upstream L G cfg m (ae_start E) (ae_end E) [] ?v = (err, w1)" by fastforce
  have "err = None" using assms run by (auto simp: async_task_def Let_def split: if_splits prod.splits)
  with fetch_upstream_last [of L G cfg m "ae_start E" "ae_end E" "[]" ?v] fetch_upstream_fields [of L G cfg m "ae_start E" "ae_end E" "[]" ?v] run
  have w1: "w_repos w1 = w_repos w" "w_once w1 = w_once w" "w_last_update w1 = (w_last_update w)(r_path m := unix_of (ae_start E))"
    by simp_all
  have "w' = w1 \<or> w' = snd (run_gc L G cfg m w1)"
    using assms run by (auto simp: async_task_def Let_def split: if_splits prod.splits)
  with w1 show ?thesis by auto
qed

lemma first_fetch:
  assumes "fetch_managed_repository_async L G cfg canon u True E w = Returns (sent, w')" and "hd sent = None"
    and "unix_of (ae_start E) \<in> S" and "\<And>v. start_grows S v (ae_queue E v)" and "registry_ok w"
  shows "start_grows S w w' \<and> (\<exists>v. canon u = Inr v \<and> fetched_at S (local_disk_path (cfg_root cfg) v) w')"
proof -
  obtain res w1 where op: "open_managed_repository L G cfg canon u w = Returns (res, w1)"
    using assms(1) by (auto simp: fetch_managed_repository_async_def split: process.splits)
  then obtain m where m: "res = Inr m"
    using assms(1,2) by (cases res) (auto simp: fetch_managed_repository_async_def)
  with op assms(1) have task: "async_task L G cfg m True E (ae_queue E w1) = (sent, w')"
    by (simp add: fetch_managed_repository_async_def)
  from open_start_grows [OF op, of S] m assms(5) obtain v where open1: "start_grows S w w1" "canon u = Inr v"
    "r_path m = local_disk_path (cfg_root cfg) v" "w_repos w1 (r_path m) = Some m" "w_once w1 (r_path m)" by blast
  note fetched = async_task_fetched [OF task assms(2)]
  have "start_grows S (ae_queue E w1) w'" using fetched assms(3) by (intro start_grows_outside) auto
  moreover have "start_grows S w (ae_queue E w1)" by (rule start_grows_trans [OF open1(1) assms(4)])
  ultimately have "start_grows S w w'" by (rule start_grows_trans [rotated])
  moreover have "fetched_at S (r_path m) w'"
    using fetched assms(3,4) open1(4,5) unfolding start_grows_def fetched_at_def by (metis fun_upd_same option.distinct(1))
  ultimately show ?thesis using open1(2,3) by auto
qed

text \<open>All of them: what has been fetched stays so.\<close>

definition fetched_repository ::
  "server_config \<Rightarrow> canonicalizer \<Rightarrow> (string \<Rightarrow> go_error + url) \<Rightarrow> int set \<Rightarrow> 'd world \<Rightarrow> string \<Rightarrow> bool" where
  "fetched_repository cfg canon parse_url S w repository \<longleftrightarrow>
     (\<exists>u v. parse_url repository = Inr u \<and> canon u = Inr v \<and> fetched_at S (local_disk_path (cfg_root cfg) v) w)"

lemma submit_all_fetched:
  assumes "submit_all L G cfg canon parse_url True env repositories w = Returns (chans, w')"
    and "\<forall>c \<in> set chans. hd c = None" and "registry_ok w"
    and "\<And>r. r \<in> set repositories \<Longrightarrow> unix_of (ae_start (env r)) \<in> S"
    and "\<And>r v. r \<in> set repositories \<Longrightarrow> start_grows S v (ae_queue (env r) v)"
  shows "start_grows S w w' \<and> (\<forall>r \<in> set repositories. fetched_repository cfg canon parse_url S w' r)"
  using assms
proof (induction repositories arbitrary: w chans)
  case Nil
  then show ?case by (simp add: start_grows_refl)
next
  case (Cons repository rest)
  obtain sent w1 chans' where
    one: "(case parse_url repository of Inl e \<Rightarrow> Returns ([Some e], w)
       | Inr u \<Rightarrow> fetch_managed_repository_async L G cfg canon u True (env repository) w) = Returns (sent, w1)"
    and rest: "submit_all L G cfg canon parse_url True env rest w1 = Returns (chans', w')"
    and chans: "chans = sent # chans'"
    using Cons.prems(1) by (auto split: process.splits prod.splits)
  have sent: "hd sent = None" using Cons.prems(2) chans by simp
  with one obtain u where u: "parse_url repository = Inr u"
    and run: "fetch_managed_repository_async L G cfg canon u True (env repository) w = Returns (sent, w1)"
    by (auto split: sum.splits)
  from first_fetch [OF run sent Cons.prems(4,5,3)] obtain v where
    g1: "start_grows S w w1" and v: "canon u = Inr v" "fetched_at S (local_disk_path (cfg_root cfg) v) w1" by auto
  have "registry_ok w1" using g1 Cons.prems(3) by (simp add: start_grows_def)
  with Cons.IH [OF rest] Cons.prems(2,4,5) chans
  have IH: "start_grows S w1 w'" "\<forall>r \<in> set rest. fetched_repository cfg canon parse_url S w' r" by auto
  have "fetched_repository cfg canon parse_url S w' repository"
    unfolding fetched_repository_def using u v fetched_at_grows [OF _ IH(1)] by blast
  with IH start_grows_trans [OF g1 IH(1)] show ?case by simp
qed

lemma open_all_grows:
  "open_all L G cfg canon parse_url repositories w = Returns w' \<Longrightarrow> start_grows S w w'"
proof (induction repositories arbitrary: w)
  case (Cons repository rest)
  then obtain u m w1 where "open_managed_repository L G cfg canon u w = Returns (Inr m, w1)"
    and "open_all L G cfg canon parse_url rest w1 = Returns w'"
    by (auto split: sum.splits process.splits prod.splits)
  then show ?case using Cons.IH open_start_grows start_grows_trans by blast
qed (simp add: start_grows_refl)

lemma server_start_fetched:
  assumes "server_start L G canon parse_url env cf w = Returns w'" and "registry_ok w"
    and "S = (\<lambda>r. unix_of (ae_start (env r))) ` set (cf_repositories cf)"
    and "\<And>r v. r \<in> set (cf_repositories cf) \<Longrightarrow> start_grows S v (ae_queue (env r) v)"
  shows "(cf_pack_objects_hook cf \<noteq> [] \<longrightarrow> cf_pack_objects_cache cf \<noteq> []) \<and>
    (\<forall>r \<in> set (cf_repositories cf). fetched_repository (config_of cf) canon parse_url S w' r)"
proof -
  obtain w1 chans where opened: "open_all L G (config_of cf) canon parse_url (cf_repositories cf) w = Returns w1"
    and run: "submit_all L G (config_of cf) canon parse_url True env (cf_repositories cf) w1 = Returns (chans, w')"
    and none: "List.map_filter hd chans = []" and hook: "cf_pack_objects_hook cf \<noteq> [] \<longrightarrow> cf_pack_objects_cache cf \<noteq> []"
    using assms(1)
    by (auto simp: server_start_def fetch_repositories_def split: if_splits process.splits prod.splits)
  have "\<forall>c \<in> set chans. hd c = None"
    using none by (induction chans) (auto simp: List.map_filter_simps split: option.splits)
  moreover have "registry_ok w1" using open_all_grows [OF opened] assms(2) by (simp add: start_grows_def)
  ultimately show ?thesis
    using submit_all_fetched [OF run, of S] assms(3,4) hook by auto
qed

section \<open>Properties\<close>

text \<open>
  The server does not begin to serve unless every configured repository was opened and
  its fetch from the upstream succeeded; with a hook but no cache for it, it does not start
  at all.
\<close>

theorem server_starts_fetched:
  assumes "server_start L G canon parse_url env cf w = Returns w'" and "r \<in> set (cf_repositories cf)"
  shows "fetched_from L G (config_of cf) canon parse_url env r \<and>
    (cf_pack_objects_hook cf \<noteq> [] \<longrightarrow> cf_pack_objects_cache cf \<noteq> [])"
proof -
  obtain w1 w2 chans where run: "submit_all L G (config_of cf) canon parse_url True env (cf_repositories cf) w1
      = Returns (chans, w2)" and none: "List.map_filter hd chans = []"
    using assms(1)
    by (auto simp: server_start_def fetch_repositories_def split: if_splits process.splits prod.splits)
  have "\<forall>c \<in> set chans. hd c = None"
    using none by (induction chans) (auto simp: List.map_filter_simps split: option.splits)
  from submit_all_silent [OF run this assms(2)] assms(1) show ?thesis
    by (auto simp: server_start_def split: if_splits)
qed

section \<open>A concrete start, for witnesses\<close>

definition demo_async :: "nat \<Rightarrow> time \<Rightarrow> 'd async_env" where
  "demo_async waiting now = \<lparr>ae_waiting = waiting, ae_now = now, ae_queue = (\<lambda>w. w), ae_pickup = now, ae_start = now,
     ae_end = now, ae_gc_log = (\<lambda>_ _. False)\<rparr>"

definition demo_config_file :: config_file where
  "demo_config_file = \<lparr>cf_port = 8080, cf_cache_root = ''/cache'', cf_token_expiry_delta_seconds = 300,
     cf_enable_metrics = False, cf_pack_objects_hook = [], cf_pack_objects_cache = [],
     cf_repositories = [''https://github.com/o/r'']\<rparr>"

definition demo_parse_url :: "string \<Rightarrow> go_error + url" where
  "demo_parse_url s = (if s = ''https://github.com/o/r'' then Inr (https_url ''github.com'' ''/o/r'')
     else Inl (PlainError ''bad url''))"

lemma demo_opens:
  "\<exists>m w'. open_managed_repository plain_status (demo_git demo_reply) demo_config (github_url_canonicalizer id)
     (https_url ''github.com'' ''/o/r'') w = Returns (Inr m, w')"
proof -
  let ?path = "local_disk_path (cfg_root demo_config) (https_url ''github.com'' ''/o/r'')"
  have "fs_stat (demo_git demo_reply) d p = NotExist" and "fs_mkdir_all (demo_git demo_reply) p d = (None, d)" for d p
    by (simp_all add: demo_git_def)
  then have "\<exists>w'. once_do p (init_repository plain_status (demo_git demo_reply) p u) v = Returns w'" for p u v
    by (auto simp: once_do_def init_repository_def Let_def split_beta)
  moreover obtain m w0 where "get_managed_repo ?path (https_url ''github.com'' ''/o/r'') w = (m, w0)" by fastforce
  ultimately show ?thesis by (metis (no_types, lifting) open_canonical demo_canon)
qed

lemma demo_async_fetches:
  "\<exists>w'. fetch_managed_repository_async plain_status (demo_git demo_reply) demo_config (github_url_canonicalizer id)
     (https_url ''github.com'' ''/o/r'') True (demo_async 0 0) w = Returns ([None], w')"
proof -
  obtain m w1 where op: "open_managed_repository plain_status (demo_git demo_reply) demo_config (github_url_canonicalizer id)
      (https_url ''github.com'' ''/o/r'') w = Returns (Inr m, w1)" using demo_opens by blast
  let ?v = "count_operation (r_path m) [''op:background_fetch'', ''must:1'']
    (log_elapsed ''FetchManagedRepository queuing'' (r_path m) w1)"
  have "fst (fetch_upstream plain_status (demo_git demo_reply) demo_config m 0 0 [] ?v) = None"
    by (simp add: demo_git_def git_error_def git_in_def fetch_args_def)
  then obtain w2 where "fetch_upstream plain_status (demo_git demo_reply) demo_config m 0 0 [] ?v = (None, w2)"
    by (metis prod.collapse)
  with op show ?thesis by (simp add: fetch_managed_repository_async_def async_task_def demo_async_def)
qed

lemma demo_config_of: "config_of demo_config_file = demo_config"
  by (simp add: config_of_def demo_config_file_def demo_config_def)

lemma demo_starts:
  "\<exists>w. server_start plain_status (demo_git demo_reply) (github_url_canonicalizer id) demo_parse_url
     (\<lambda>_. demo_async 0 0) demo_config_file demo_world = Returns w"
proof -
  obtain m w1 where op: "open_managed_repository plain_status (demo_git demo_reply) demo_config (github_url_canonicalizer id)
      (https_url ''github.com'' ''/o/r'') demo_world = Returns (Inr m, w1)" using demo_opens by blast
  obtain w2 where "fetch_managed_repository_async plain_status (demo_git demo_reply) demo_config (github_url_canonicalizer id)
     (https_url ''github.com'' ''/o/r'') True (demo_async 0 0) w1 = Returns ([None], w2)" using demo_async_fetches by blast
  with op demo_config_of show ?thesis
    by (simp add: server_start_def fetch_repositories_def demo_config_file_def demo_parse_url_def List.map_filter_simps)
qed

theorem server_starts_fetched_witness:
  "fetched_from plain_status (demo_git demo_reply) demo_config (github_url_canonicalizer id) demo_parse_url
     (\<lambda>_. demo_async 0 0) ''https://github.com/o/r''"
proof -
  obtain w2 where "server_start plain_status (demo_git demo_reply) (github_url_canonicalizer id) demo_parse_url
      (\<lambda>_. demo_async 0 0) demo_config_file demo_world = Returns w2" using demo_starts by blast
  from server_starts_fetched [OF this, of "''https://github.com/o/r''"] demo_config_of show ?thesis
    by (simp add: demo_config_file_def)
qed

text \<open>
  A background fetch leaves a repository alone that was updated less than fifteen
  minutes ago or that has fetches waiting: it only opens it and reports no error.
\<close>

theorem background_fetch_skips:
  assumes "open_managed_repository L G cfg canon u w = Returns (Inr m, w1)"
    and "ae_waiting E > 0 \<or> ae_now E - last_update_time m w1 < 15 * minute"
  shows "fetch_managed_repository_async L G cfg canon u False E w = Returns ([None], w1)"
  using assms by (auto simp: fetch_managed_repository_async_def recent_def)

theorem background_fetch_skips_witness:
  "fetch_managed_repository_async plain_status (demo_git demo_reply) demo_config (github_url_canonicalizer id)
     (https_url ''github.com'' ''/o/r'') False (demo_async 1 0) demo_world = Returns ([None], opened_world)"
proof -
  obtain m where "open_managed_repository plain_status (demo_git demo_reply) demo_config (github_url_canonicalizer id)
      (https_url ''github.com'' ''/o/r'') demo_world = Returns (Inr m, opened_world)"
    using demo_open by blast
  from background_fetch_skips [OF this, of "demo_async 1 0"] show ?thesis by (simp add: demo_async_def)
qed

end
