(* ===== verification/Pools.thy ===== *)
theory Pools
  imports Handler Scheduler
begin

text \<open>
  The work on one managed repository that runs concurrently: the tasks of its fetch pool
  (the on-demand fetches of \<open>handleV2Command\<close> and the background fetches of
  \<open>FetchManagedRepositoryAsync\<close>), \<open>RecoverFromBundle\<close>, and the mutex that \<open>fetchUpstream\<close>,
  \<open>runGC\<close> and \<open>RecoverFromBundle\<close> take. A step is one operation of the code between two
  points where others can run; everything else that happens (local fetches being served,
  operations on other repositories) is a step of the environment.
\<close>

section \<open>Pools and jobs\<close>

text \<open>
  The worker pool is that of the library \<open>pond\<close>: which of the waiting tasks a pool with so
  many workers starts, given the number of tasks that run, and whether it accepts one more.
\<close>

record pool_lib =
  pool_pick :: "nat \<Rightarrow> nat \<Rightarrow> nat list \<Rightarrow> nat option"
  pool_accepts :: "nat \<Rightarrow> nat \<Rightarrow> bool"

text \<open>
  Its documented behaviour: never more running tasks than workers, and a waiting task is
  started when a worker is free. The order is not fixed.
\<close>

definition pool_law :: "pool_lib \<Rightarrow> bool" where
  "pool_law P \<longleftrightarrow>
     (\<forall>n k q i. pool_pick P n k q = Some i \<longrightarrow> i < length q \<and> k < n) \<and>
     (\<forall>n k q. k < n \<longrightarrow> q \<noteq> [] \<longrightarrow> pool_pick P n k q \<noteq> None)"

text \<open>\<open>pond.New(1, 1000, ...)\<close> for \<open>fetchUpstreamPool\<close>.\<close>

definition fetch_pool_workers :: nat where
  "fetch_pool_workers = 1"

definition fetch_pool_capacity :: nat where
  "fetch_pool_capacity = 1000"

datatype job =
    OnDemand "oid list" "string list"
  | Background bool
  | Recovery string

text \<open>
  Where a job is. The instant is the \<open>startTime\<close> of \<open>fetchUpstream\<close>, the error that of the
  operation that has ended.
\<close>

datatype job_pc =
    NotStarted | Queued | Picked
  | WantLock | FetchAll time | FetchOrigin time | Stamp time "go_error option" | Unlock "go_error option"
  | SendFetched "go_error option"
  | GcLog | WantGcLock | RunGc | GcUnlock "go_error option" | SendGc "go_error option"
  | RecStart | RecWantLock | RecFetch | RecUnlock "go_error option" | RecDone "go_error option"
  | Done

record 'd repo_pool =
  rp_world :: "'d world"
  rp_lock :: "nat option"
  rp_queue :: "nat list"
  rp_running :: "nat list"
  rp_pc :: "nat \<Rightarrow> job_pc"
  rp_sent :: "nat \<Rightarrow> go_error option list"
  rp_received :: "nat \<Rightarrow> nat"

definition at :: "nat \<Rightarrow> job_pc \<Rightarrow> 'd repo_pool \<Rightarrow> 'd repo_pool" where
  "at i c s = s\<lparr>rp_pc := (rp_pc s)(i := c)\<rparr>"

definition send :: "nat \<Rightarrow> go_error option \<Rightarrow> 'd repo_pool \<Rightarrow> 'd repo_pool" where
  "send i e s = s\<lparr>rp_sent := (rp_sent s)(i := rp_sent s i @ [e])\<rparr>"

text \<open>
  Each background fetch has a channel of its own, that \<open>FetchRepositories\<close> makes with room
  for one message: a job that sends waits until there is room.
\<close>

definition error_chan_capacity :: nat where
  "error_chan_capacity = 1"

fun sends :: "job_pc \<Rightarrow> bool" where
  "sends (SendFetched e) = True"
| "sends (SendGc e) = True"
| "sends _ = False"

definition can_send :: "nat \<Rightarrow> 'd repo_pool \<Rightarrow> bool" where
  "can_send i s \<longleftrightarrow> length (rp_sent s i) < error_chan_capacity + rp_received s i"

definition leave :: "nat \<Rightarrow> 'd repo_pool \<Rightarrow> 'd repo_pool" where
  "leave i s = (at i Done s)\<lparr>rp_running := remove1 i (rp_running s)\<rparr>"

text \<open>\<open>mu.Lock\<close>: the job goes on at the given point once it has the lock.\<close>

definition acquire :: "nat \<Rightarrow> job_pc \<Rightarrow> 'd repo_pool \<Rightarrow> 'd repo_pool option" where
  "acquire i c s = (if rp_lock s = None then Some (at i c (s\<lparr>rp_lock := Some i\<rparr>)) else None)"

definition release :: "'d repo_pool \<Rightarrow> 'd repo_pool" where
  "release s = s\<lparr>rp_lock := None\<rparr>"

definition in_world :: "('d world \<Rightarrow> 'd world) \<Rightarrow> 'd repo_pool \<Rightarrow> 'd repo_pool" where
  "in_world f s = s\<lparr>rp_world := f (rp_world s)\<rparr>"

section \<open>The steps of \<open>fetchUpstream\<close>\<close>

text \<open>Once the lock is held, up to the first fetch; and after the second.\<close>

definition fetch_begin :: "status_lib \<Rightarrow> managed_repo \<Rightarrow> time \<Rightarrow> 'd world \<Rightarrow> 'd world" where
  "fetch_begin L r now w =
     (let w1 = log_stats L ''fetchBlocked'' None w;
          staled = now - last_update_time r w1
      in if staled < hour * 24 * 365 then w1\<lparr>w_stats := w_stats w1 @ [StaleGauge staled]\<rparr> else w1)"

definition fetch_end_of :: "status_lib \<Rightarrow> managed_repo \<Rightarrow> time \<Rightarrow> time \<Rightarrow> go_error option \<Rightarrow> 'd world \<Rightarrow> 'd world" where
  "fetch_end_of L r start_time end_time err w =
     (let w1 = w\<lparr>w_stats := w_stats w @ [FetchDistribution (end_time - start_time)]\<rparr>;
          w2 = log_stats L ''fetch'' err w1;
          w3 = (if err = None then w2\<lparr>w_last_update := (w_last_update w2)(r_path r := unix_of start_time)\<rparr> else w2)
      in log_elapsed ''fetchUpstream'' (r_path r) w3)"

lemma fetch_upstream_steps:
  "fetch_upstream L G cfg r t t' wants w =
     (let w1 = snd (fetch_upstream_internal L G cfg r ''all'' wants (fetch_begin L r t w));
          (err, w2) = fetch_upstream_internal L G cfg r ''origin'' wants w1
      in (err, fetch_end_of L r t t' err w2))"
  by (simp add: fetch_upstream_def fetch_begin_def fetch_end_of_def Let_def split_beta)

section \<open>One step of a job\<close>

definition wants_of :: "job \<Rightarrow> oid list" where
  "wants_of j = (case j of OnDemand hashes refs \<Rightarrow> hashes | _ \<Rightarrow> [])"

text \<open>
  \<open>None\<close>: the job cannot move now, because it waits for a worker or for the lock, or is not
  there. \<open>gc_log\<close> says whether the file \<open>gc.log\<close> can be read. A message is sent after the
  operation has released the lock; that the job waits there for room is in \<open>pool_step\<close>.
\<close>

definition job_step ::
  "status_lib \<Rightarrow> ('d, 'r) git_lib \<Rightarrow> server_config \<Rightarrow> managed_repo \<Rightarrow> ('d \<Rightarrow> string \<Rightarrow> bool) \<Rightarrow> (nat \<Rightarrow> job) \<Rightarrow>
     time \<Rightarrow> nat \<Rightarrow> 'd repo_pool \<Rightarrow> 'd repo_pool option" where
  "job_step L G cfg r gc_log jobs now i s =
     (case rp_pc s i of
        NotStarted \<Rightarrow> None
      | Queued \<Rightarrow> None
      | Done \<Rightarrow> None
      | Picked \<Rightarrow>
          (case jobs i of
             OnDemand hashes refs \<Rightarrow>
               (case has_all_wants L G r hashes refs (log_elapsed ''FetchUpstream queuing'' (r_path r) (rp_world s)) of
                  (check, w) \<Rightarrow>
                    let s1 = s\<lparr>rp_world := w\<rparr> in
                    Some (if check = Inr False
                          then at i WantLock (in_world (count_operation (r_path r)
                                 [''op:ondemand_fetch'', ''triggered_by:hasallwants'']) s1)
                          else leave i s1))
           | Background must_fetch \<Rightarrow>
               let s1 = in_world (log_elapsed ''FetchManagedRepository queuing'' (r_path r)) s in
               Some (if must_fetch
                     then at i WantLock (in_world (count_operation (r_path r) [''op:background_fetch'', ''must:1'']) s1)
                     else if recent r now (rp_world s1) then at i (SendFetched None) s1
                     else at i WantLock (in_world (count_operation (r_path r) [''op:background_fetch'', ''must:0'']) s1))
           | Recovery bundle \<Rightarrow> None)
      | WantLock \<Rightarrow> map_option (in_world (fetch_begin L r now)) (acquire i (FetchAll now) s)
      | FetchAll t \<Rightarrow>
          Some (at i (FetchOrigin t) (in_world (snd \<circ> fetch_upstream_internal L G cfg r ''all'' (wants_of (jobs i))) s))
      | FetchOrigin t \<Rightarrow>
          (case fetch_upstream_internal L G cfg r ''origin'' (wants_of (jobs i)) (rp_world s) of
             (err, w) \<Rightarrow> Some (at i (Stamp t err) (s\<lparr>rp_world := w\<rparr>)))
      | Stamp t err \<Rightarrow> Some (at i (Unlock err) (in_world (fetch_end_of L r t now err) s))
      | Unlock err \<Rightarrow>
          (case jobs i of
             OnDemand hashes refs \<Rightarrow> Some (leave i (release s))
           | _ \<Rightarrow> Some (at i (SendFetched err) (release s)))
      | SendFetched err \<Rightarrow> Some (at i GcLog (send i err s))
      | GcLog \<Rightarrow>
          Some (if gc_log (w_disk (rp_world s)) (path_join [r_path r, ''gc.log'']) then at i WantGcLock s else leave i s)
      | WantGcLock \<Rightarrow> acquire i RunGc s
      | RunGc \<Rightarrow> (case run_gc L G cfg r (rp_world s) of (err, w) \<Rightarrow> Some (at i (GcUnlock err) (s\<lparr>rp_world := w\<rparr>)))
      | GcUnlock err \<Rightarrow> Some (at i (SendGc err) (release s))
      | SendGc err \<Rightarrow> Some (leave i (send i err s))
      | RecStart \<Rightarrow> Some (at i RecWantLock (in_world (snd \<circ> start_operation cfg ''ReadBundle'') s))
      | RecWantLock \<Rightarrow> acquire i RecFetch s
      | RecFetch \<Rightarrow>
          (case jobs i of
             Recovery bundle \<Rightarrow>
               (case run_git L G (cfg_operation_logger cfg) (r_path r)
                       [''fetch'', ''--progress'', ''-f'', bundle, ''refs/*:refs/*''] (rp_world s) of
                  (err, w) \<Rightarrow> Some (at i (RecUnlock err) (s\<lparr>rp_world := w\<rparr>)))
           | _ \<Rightarrow> None)
      | RecUnlock err \<Rightarrow> Some (at i (RecDone err) (release s))
      | RecDone err \<Rightarrow> Some (at i Done (in_world (op_event (cfg_operation_logger cfg) (OpDone err)) s)))"

section \<open>The system\<close>

text \<open>
  What happens: a job is submitted, picked up by a worker, or moves; \<open>FetchRepositories\<close> reads
  the channel of a job, which it does once; or something else.
\<close>

datatype pool_event = Submitted nat | PickedUp nat | Fetches nat | Moved nat | Received nat | Elsewhere

text \<open>A move is a fetch from the upstream when the job gets the lock in \<open>fetchUpstream\<close>.\<close>

definition move_event :: "nat \<Rightarrow> 'd repo_pool \<Rightarrow> pool_event" where
  "move_event i s = (if rp_pc s i = WantLock then Fetches i else Moved i)"

inductive pool_step ::
  "status_lib \<Rightarrow> ('d, 'r) git_lib \<Rightarrow> server_config \<Rightarrow> managed_repo \<Rightarrow> ('d \<Rightarrow> string \<Rightarrow> bool) \<Rightarrow> pool_lib \<Rightarrow> (nat \<Rightarrow> job) \<Rightarrow>
     ('d world \<Rightarrow> 'd world \<Rightarrow> bool) \<Rightarrow> 'd repo_pool \<Rightarrow> pool_event \<Rightarrow> 'd repo_pool \<Rightarrow> bool"
  for L G cfg r gc_log P jobs others
where
  submit: "rp_pc s i = NotStarted \<Longrightarrow> \<forall>b. jobs i \<noteq> Recovery b \<Longrightarrow>
    pool_accepts P fetch_pool_capacity (length (rp_queue s)) \<Longrightarrow>
    pool_step L G cfg r gc_log P jobs others s (Submitted i) (at i Queued (s\<lparr>rp_queue := rp_queue s @ [i]\<rparr>))"
| recover: "rp_pc s i = NotStarted \<Longrightarrow> jobs i = Recovery b \<Longrightarrow>
    pool_step L G cfg r gc_log P jobs others s (Submitted i) (at i RecStart s)"
| pick: "pool_pick P fetch_pool_workers (length (rp_running s)) (rp_queue s) = Some k \<Longrightarrow> i = rp_queue s ! k \<Longrightarrow>
    pool_step L G cfg r gc_log P jobs others s (PickedUp i)
      (at i Picked (s\<lparr>rp_queue := remove1 i (rp_queue s), rp_running := rp_running s @ [i]\<rparr>))"
| run: "job_step L G cfg r gc_log jobs now i s = Some s' \<Longrightarrow> sends (rp_pc s i) \<longrightarrow> can_send i s \<Longrightarrow>
    pool_step L G cfg r gc_log P jobs others s (move_event i s) s'"
| receive: "rp_received s i = 0 \<Longrightarrow> rp_sent s i \<noteq> [] \<Longrightarrow>
    pool_step L G cfg r gc_log P jobs others s (Received i) (s\<lparr>rp_received := (rp_received s)(i := 1)\<rparr>)"
| other: "others (rp_world s) w' \<Longrightarrow>
    pool_step L G cfg r gc_log P jobs others s Elsewhere (s\<lparr>rp_world := w'\<rparr>)"

definition pool_start :: "'d world \<Rightarrow> 'd repo_pool" where
  "pool_start w = \<lparr>rp_world = w, rp_lock = None, rp_queue = [], rp_running = [], rp_pc = (\<lambda>_. NotStarted),
     rp_sent = (\<lambda>_. []), rp_received = (\<lambda>_. 0)\<rparr>"

inductive pool_run ::
  "status_lib \<Rightarrow> ('d, 'r) git_lib \<Rightarrow> server_config \<Rightarrow> managed_repo \<Rightarrow> ('d \<Rightarrow> string \<Rightarrow> bool) \<Rightarrow> pool_lib \<Rightarrow> (nat \<Rightarrow> job) \<Rightarrow>
     ('d world \<Rightarrow> 'd world \<Rightarrow> bool) \<Rightarrow> 'd repo_pool \<Rightarrow> pool_event list \<Rightarrow> 'd repo_pool \<Rightarrow> bool"
  for L G cfg r gc_log P jobs others
where
  none: "pool_run L G cfg r gc_log P jobs others s [] s"
| more: "pool_run L G cfg r gc_log P jobs others s es s1 \<Longrightarrow> pool_step L G cfg r gc_log P jobs others s1 e s2 \<Longrightarrow>
    pool_run L G cfg r gc_log P jobs others s (es @ [e]) s2"

section \<open>What one step of a job does\<close>

text \<open>Between lock and unlock; and held by a worker of the pool.\<close>

fun critical :: "job_pc \<Rightarrow> bool" where
  "critical (FetchAll t) = True"
| "critical (FetchOrigin t) = True"
| "critical (Stamp t e) = True"
| "critical (Unlock e) = True"
| "critical RunGc = True"
| "critical (GcUnlock e) = True"
| "critical RecFetch = True"
| "critical (RecUnlock e) = True"
| "critical _ = False"

fun active :: "job_pc \<Rightarrow> bool" where
  "active NotStarted = False"
| "active Queued = False"
| "active RecStart = False"
| "active RecWantLock = False"
| "active RecFetch = False"
| "active (RecUnlock e) = False"
| "active (RecDone e) = False"
| "active Done = False"
| "active _ = True"

text \<open>The points only a background fetch comes to, once it has its result.\<close>

fun reports :: "job_pc \<Rightarrow> bool" where
  "reports (SendFetched e) = True"
| "reports GcLog = True"
| "reports WantGcLock = True"
| "reports RunGc = True"
| "reports (GcUnlock e) = True"
| "reports (SendGc e) = True"
| "reports _ = False"

text \<open>The points a job of each kind can be at.\<close>

fun fits :: "job \<Rightarrow> job_pc \<Rightarrow> bool" where
  "fits j NotStarted = True"
| "fits j Done = True"
| "fits (Recovery b) c = (c = RecStart \<or> c = RecWantLock \<or> c = RecFetch \<or> (\<exists>e. c = RecUnlock e \<or> c = RecDone e))"
| "fits (OnDemand hs rs) c = ((active c \<or> c = Queued) \<and> \<not> reports c)"
| "fits (Background m) c = (active c \<or> c = Queued)"


text \<open>How many messages the job has sent by then.\<close>

fun sent_before :: "job_pc \<Rightarrow> nat \<Rightarrow> bool" where
  "sent_before GcLog n = (n = 1)"
| "sent_before WantGcLock n = (n = 1)"
| "sent_before RunGc n = (n = 1)"
| "sent_before (GcUnlock e) n = (n = 1)"
| "sent_before (SendGc e) n = (n = 1)"
| "sent_before Done n = (n \<le> 2)"
| "sent_before _ n = (n = 0)"

lemmas pool_ops = at_def send_def leave_def acquire_def release_def in_world_def

text \<open>Everything but the world is the same for every step.\<close>

lemma job_step_pc:
  assumes "job_step L G cfg r gc_log jobs now i s = Some s'"
  shows "rp_pc s' = (rp_pc s)(i := rp_pc s' i) \<and> rp_queue s' = rp_queue s"
  using assms
  by (cases "rp_pc s i"; cases "jobs i")
    (auto simp: job_step_def pool_ops Let_def split: prod.splits if_splits)

lemma job_step_lock:
  assumes "job_step L G cfg r gc_log jobs now i s = Some s'"
  shows "if critical (rp_pc s i) = critical (rp_pc s' i) then rp_lock s' = rp_lock s
    else if critical (rp_pc s' i) then rp_lock s = None \<and> rp_lock s' = Some i else rp_lock s' = None"
  using assms
  by (cases "rp_pc s i"; cases "jobs i")
    (auto simp: job_step_def pool_ops Let_def split: prod.splits if_splits)

lemma job_step_workers:
  assumes "job_step L G cfg r gc_log jobs now i s = Some s'"
  shows "(active (rp_pc s' i) \<longrightarrow> active (rp_pc s i)) \<and>
    rp_running s' = (if active (rp_pc s i) \<and> \<not> active (rp_pc s' i) then remove1 i (rp_running s) else rp_running s)"
  using assms
  by (cases "rp_pc s i"; cases "jobs i")
    (auto simp: job_step_def pool_ops Let_def split: prod.splits if_splits)

lemma job_step_fits:
  assumes "job_step L G cfg r gc_log jobs now i s = Some s'" and "fits (jobs i) (rp_pc s i)"
  shows "fits (jobs i) (rp_pc s' i) \<and> rp_pc s' i \<noteq> Queued \<and> rp_pc s' i \<noteq> NotStarted"
  using assms
  by (cases "rp_pc s i"; cases "jobs i")
    (auto simp: job_step_def pool_ops Let_def split: prod.splits if_splits)


lemma job_step_sent:
  assumes "job_step L G cfg r gc_log jobs now i s = Some s'"
  shows "rp_received s' = rp_received s \<and> (\<forall>j. j \<noteq> i \<longrightarrow> rp_sent s' j = rp_sent s j) \<and>
    (sent_before (rp_pc s i) (length (rp_sent s i)) \<longrightarrow> sent_before (rp_pc s' i) (length (rp_sent s' i))) \<and>
    length (rp_sent s i) \<le> length (rp_sent s' i)"
  using assms
  by (cases "rp_pc s i"; cases "jobs i")
    (auto simp: job_step_def pool_ops Let_def split: prod.splits if_splits)

section \<open>The invariant\<close>

text \<open>
  The lock is held by exactly the job between lock and unlock; the workers run exactly the
  active jobs, never more than there are workers; the queue holds exactly the queued ones;
  a channel is read at most once, and has got what its job has sent by then.
\<close>

definition lock_inv :: "'d repo_pool \<Rightarrow> bool" where
  "lock_inv s \<longleftrightarrow> (\<forall>i. rp_lock s = Some i \<longleftrightarrow> critical (rp_pc s i))"

definition workers_inv :: "'d repo_pool \<Rightarrow> bool" where
  "workers_inv s \<longleftrightarrow> distinct (rp_running s) \<and> (\<forall>i. i \<in> set (rp_running s) \<longleftrightarrow> active (rp_pc s i)) \<and>
     length (rp_running s) \<le> fetch_pool_workers"

definition queue_inv :: "'d repo_pool \<Rightarrow> bool" where
  "queue_inv s \<longleftrightarrow> distinct (rp_queue s) \<and> (\<forall>i. i \<in> set (rp_queue s) \<longleftrightarrow> rp_pc s i = Queued)"

definition kinds_inv :: "(nat \<Rightarrow> job) \<Rightarrow> 'd repo_pool \<Rightarrow> bool" where
  "kinds_inv jobs s \<longleftrightarrow> (\<forall>i. fits (jobs i) (rp_pc s i))"

definition chan_inv :: "'d repo_pool \<Rightarrow> bool" where
  "chan_inv s \<longleftrightarrow> (\<forall>i. rp_received s i \<le> 1 \<and> rp_received s i \<le> length (rp_sent s i) \<and>
     sent_before (rp_pc s i) (length (rp_sent s i)))"

definition pool_inv :: "(nat \<Rightarrow> job) \<Rightarrow> 'd repo_pool \<Rightarrow> bool" where
  "pool_inv jobs s \<longleftrightarrow> lock_inv s \<and> workers_inv s \<and> queue_inv s \<and> kinds_inv jobs s \<and> chan_inv s"

lemma pool_inv_start: "pool_inv jobs (pool_start w)"
  by (simp add: pool_inv_def lock_inv_def workers_inv_def queue_inv_def kinds_inv_def chan_inv_def pool_start_def)

lemma lock_inv_move:
  assumes "job_step L G cfg r gc_log jobs now i s = Some s'" and "lock_inv s"
  shows "lock_inv s'"
proof -
  have pc: "rp_pc s' j = rp_pc s j" if "j \<noteq> i" for j
    using job_step_pc [OF assms(1)] that by (metis fun_upd_apply)
  show ?thesis
    unfolding lock_inv_def
  proof
    fix j
    show "rp_lock s' = Some j \<longleftrightarrow> critical (rp_pc s' j)"
      using job_step_lock [OF assms(1)] pc [of j] assms(2) [unfolded lock_inv_def, rule_format, of i]
        assms(2) [unfolded lock_inv_def, rule_format, of j]
      by (cases "j = i") (auto split: if_splits)
  qed
qed

lemma workers_inv_move:
  assumes "job_step L G cfg r gc_log jobs now i s = Some s'" and "workers_inv s"
  shows "workers_inv s'"
proof -
  have pc: "rp_pc s' = (rp_pc s)(i := rp_pc s' i)" using job_step_pc [OF assms(1)] by blast
  have "(j \<in> set (rp_running s')) = active (rp_pc s' j)" for j
    using job_step_workers [OF assms(1)] assms(2) fun_cong [OF pc, of j] unfolding workers_inv_def
    by (cases "j = i") (auto split: if_splits)
  with job_step_workers [OF assms(1)] assms(2) show ?thesis
    unfolding workers_inv_def by (auto simp: length_remove1 split: if_splits)
qed

lemma queue_inv_move:
  assumes "job_step L G cfg r gc_log jobs now i s = Some s'" and "queue_inv s" and "kinds_inv jobs s"
  shows "queue_inv s'"
proof -
  have pc: "rp_pc s' = (rp_pc s)(i := rp_pc s' i)" "rp_queue s' = rp_queue s"
    using job_step_pc [OF assms(1)] by blast+
  have "rp_pc s i \<noteq> Queued" using assms(1) by (auto simp: job_step_def)
  moreover have "rp_pc s' i \<noteq> Queued" using job_step_fits [OF assms(1)] assms(3) by (auto simp: kinds_inv_def)
  ultimately show ?thesis
    using assms(2) pc(2) fun_cong [OF pc(1)] unfolding queue_inv_def by (metis fun_upd_apply)
qed

lemma kinds_inv_move:
  assumes "job_step L G cfg r gc_log jobs now i s = Some s'" and "kinds_inv jobs s"
  shows "kinds_inv jobs s'"
  unfolding kinds_inv_def
proof
  fix j
  have pc: "rp_pc s' = (rp_pc s)(i := rp_pc s' i)" using job_step_pc [OF assms(1)] by blast
  show "fits (jobs j) (rp_pc s' j)"
    using job_step_fits [OF assms(1)] assms(2) fun_cong [OF pc, of j]
    by (cases "j = i") (auto simp: kinds_inv_def)
qed

lemma chan_inv_move:
  assumes "job_step L G cfg r gc_log jobs now i s = Some s'" and "chan_inv s"
  shows "chan_inv s'"
  unfolding chan_inv_def
proof
  fix j
  have pc: "rp_pc s' = (rp_pc s)(i := rp_pc s' i)" using job_step_pc [OF assms(1)] by blast
  from assms(2) have "rp_received s j \<le> 1 \<and> rp_received s j \<le> length (rp_sent s j) \<and>
    sent_before (rp_pc s j) (length (rp_sent s j))"
    by (simp add: chan_inv_def)
  then show "rp_received s' j \<le> 1 \<and> rp_received s' j \<le> length (rp_sent s' j) \<and>
    sent_before (rp_pc s' j) (length (rp_sent s' j))"
    using job_step_sent [OF assms(1)] fun_cong [OF pc, of j] by (cases "j = i") auto
qed

lemma pool_inv_pick:
  assumes law: "pool_law P" and inv: "pool_inv jobs s"
    and pick: "pool_pick P fetch_pool_workers (length (rp_running s)) (rp_queue s) = Some k" and i: "i = rp_queue s ! k"
  shows "pool_inv jobs (at i Picked (s\<lparr>rp_queue := remove1 i (rp_queue s), rp_running := rp_running s @ [i]\<rparr>))"
proof -
  have k: "k < length (rp_queue s)" "length (rp_running s) < fetch_pool_workers"
    using law pick unfolding pool_law_def by blast+
  then have "i \<in> set (rp_queue s)" using i nth_mem by blast
  then have q: "rp_pc s i = Queued" using inv unfolding pool_inv_def queue_inv_def by blast
  then have idle: "\<not> active (rp_pc s i)" "\<not> critical (rp_pc s i)" by simp_all
  define s' where "s' = at i Picked (s\<lparr>rp_queue := remove1 i (rp_queue s), rp_running := rp_running s @ [i]\<rparr>)"
  have fields: "rp_pc s' = (rp_pc s)(i := Picked)" "rp_lock s' = rp_lock s" "rp_queue s' = remove1 i (rp_queue s)"
    "rp_running s' = rp_running s @ [i]" "rp_received s' = rp_received s" "rp_sent s' = rp_sent s"
    by (simp_all add: s'_def at_def)
  have "lock_inv s'"
    using inv idle by (simp add: pool_inv_def lock_inv_def fields)
  moreover have "workers_inv s'"
    using inv idle k by (auto simp: pool_inv_def workers_inv_def fields)
  moreover have "queue_inv s'"
    using inv by (auto simp: pool_inv_def queue_inv_def fields)
  moreover have "fits (jobs i) (rp_pc s i)" using inv by (simp add: pool_inv_def kinds_inv_def)
  with q have "fits (jobs i) Picked" by (cases "jobs i") simp_all
  then have "kinds_inv jobs s'"
    using inv by (simp add: pool_inv_def kinds_inv_def fields)
  moreover have "sent_before (rp_pc s i) (length (rp_sent s i))" using inv by (simp add: pool_inv_def chan_inv_def)
  with q have "chan_inv s'" using inv by (simp add: pool_inv_def chan_inv_def fields)
  ultimately show ?thesis by (simp add: pool_inv_def s'_def)
qed

lemma pool_inv_step:
  assumes "pool_law P" and "pool_step L G cfg r gc_log P jobs others s e s'" and "pool_inv jobs s"
  shows "pool_inv jobs s'"
  using assms(2)
proof cases
  case (submit i)
  with assms(3) have "fits (jobs i) Queued" by (cases "jobs i") auto
  moreover have "rp_sent s i = []" using assms(3) submit by (auto simp: pool_inv_def chan_inv_def dest!: spec [of _ i])
  ultimately show ?thesis using submit assms(3)
    by (auto simp: pool_inv_def lock_inv_def workers_inv_def queue_inv_def kinds_inv_def chan_inv_def at_def)
next
  case (recover i b)
  then have "rp_sent s i = []" using assms(3) by (auto simp: pool_inv_def chan_inv_def dest!: spec [of _ i])
  with recover assms(3) show ?thesis
    by (auto simp: pool_inv_def lock_inv_def workers_inv_def queue_inv_def kinds_inv_def chan_inv_def at_def)
next
  case (pick k i)
  with assms(1,3) pool_inv_pick show ?thesis by blast
next
  case (run now i)
  with assms(3) show ?thesis
    using lock_inv_move [OF run(2)] workers_inv_move [OF run(2)] queue_inv_move [OF run(2)] kinds_inv_move [OF run(2)]
      chan_inv_move [OF run(2)]
    by (simp add: pool_inv_def)
next
  case (receive i)
  with assms(3) show ?thesis
    by (auto simp: pool_inv_def lock_inv_def workers_inv_def queue_inv_def kinds_inv_def chan_inv_def Suc_le_eq)
next
  case (other w')
  with assms(3) show ?thesis
    by (simp add: pool_inv_def lock_inv_def workers_inv_def queue_inv_def kinds_inv_def chan_inv_def)
qed

lemma pool_inv_run:
  assumes "pool_run L G cfg r gc_log P jobs others s es s'" and "pool_law P" and "pool_inv jobs s"
  shows "pool_inv jobs s'"
  using assms by (induction rule: pool_run.induct) (auto intro: pool_inv_step)

section \<open>Progress\<close>









section \<open>One fetch for many requests\<close>

lemma fetch_begin_disk [simp]: "w_disk (fetch_begin L r now w) = w_disk w"
  by (simp add: fetch_begin_def Let_def)

lemma fetch_end_disk [simp]: "w_disk (fetch_end_of L r t t' err w) = w_disk w"
  by (simp add: fetch_end_of_def Let_def)

lemma start_operation_disk [simp]: "w_disk (snd (start_operation cfg n w)) = w_disk w"
  by (simp add: start_operation_def)

lemma run_gc_disk [simp]:
  "w_disk (snd (run_gc L G cfg r w)) =
     git_disk G (git_in (r_path r) [''gc'', ''--prune='' @ [CHR 0x27] @ ''15.minutes.ago'' @ [CHR 0x27]]) (w_disk w)"
  using run_git_fields(1) [of L G _ "r_path r" "[''gc'', ''--prune='' @ [CHR 0x27] @ ''15.minutes.ago'' @ [CHR 0x27]]"]
  by (simp add: run_gc_def start_operation_def Let_def split_beta)

text \<open>What is wanted, by whom, and whether it is there.\<close>

definition wanted_by :: "(nat \<Rightarrow> job) \<Rightarrow> oid list \<Rightarrow> string list \<Rightarrow> nat \<Rightarrow> bool" where
  "wanted_by jobs hashes refs i \<longleftrightarrow> jobs i = OnDemand hashes refs"

definition wants_there :: "status_lib \<Rightarrow> ('d, 'r) git_lib \<Rightarrow> managed_repo \<Rightarrow> oid list \<Rightarrow> string list \<Rightarrow> 'd \<Rightarrow> bool" where
  "wants_there L G r hashes refs d \<longleftrightarrow> wants_check L G d (r_path r) hashes refs = Inr True"

definition fetches_for :: "(nat \<Rightarrow> job) \<Rightarrow> oid list \<Rightarrow> string list \<Rightarrow> pool_event list \<Rightarrow> nat" where
  "fetches_for jobs hashes refs es =
     length (filter (\<lambda>e. case e of Fetches i \<Rightarrow> wanted_by jobs hashes refs i | _ \<Rightarrow> False) es)"

text \<open>A run that stays among the disks with a property.\<close>

inductive steady_run ::
  "status_lib \<Rightarrow> ('d, 'r) git_lib \<Rightarrow> server_config \<Rightarrow> managed_repo \<Rightarrow> ('d \<Rightarrow> string \<Rightarrow> bool) \<Rightarrow> pool_lib \<Rightarrow> (nat \<Rightarrow> job) \<Rightarrow>
     ('d world \<Rightarrow> 'd world \<Rightarrow> bool) \<Rightarrow> ('d \<Rightarrow> bool) \<Rightarrow> 'd repo_pool \<Rightarrow> pool_event list \<Rightarrow> 'd repo_pool \<Rightarrow> bool"
  for L G cfg r gc_log P jobs others Q
where
  still: "Q (w_disk (rp_world s)) \<Longrightarrow> steady_run L G cfg r gc_log P jobs others Q s [] s"
| onward: "steady_run L G cfg r gc_log P jobs others Q s es s1 \<Longrightarrow> pool_step L G cfg r gc_log P jobs others s1 e s2 \<Longrightarrow>
    Q (w_disk (rp_world s2)) \<Longrightarrow> steady_run L G cfg r gc_log P jobs others Q s (es @ [e]) s2"

lemma steady_run_run:
  "steady_run L G cfg r gc_log P jobs others Q s es s' \<Longrightarrow>
     pool_run L G cfg r gc_log P jobs others s es s' \<and> Q (w_disk (rp_world s'))"
  by (induction rule: steady_run.induct) (auto intro: pool_run.intros)

text \<open>
  Since the state s the fetches for some objects are none, and who is about to fetch them
  was so then; or there was one, by such a job, and nobody is about to.
\<close>

definition spared :: "(nat \<Rightarrow> job) \<Rightarrow> oid list \<Rightarrow> string list \<Rightarrow> 'd repo_pool \<Rightarrow> nat \<Rightarrow> 'd repo_pool \<Rightarrow> bool" where
  "spared jobs hashes refs s n s' \<longleftrightarrow>
     n = 0 \<and> (\<forall>i. wanted_by jobs hashes refs i \<and> rp_pc s' i = WantLock \<longrightarrow> rp_pc s i = WantLock) \<or>
     n = 1 \<and> (\<exists>i. wanted_by jobs hashes refs i \<and> rp_pc s i = WantLock) \<and>
       (\<forall>i. wanted_by jobs hashes refs i \<longrightarrow> rp_pc s' i \<noteq> WantLock)"

lemma one_active:
  assumes "pool_inv jobs s" and "active (rp_pc s i)" and "active (rp_pc s j)"
  shows "i = j"
proof -
  have "i \<in> set (rp_running s)" "j \<in> set (rp_running s)" "length (rp_running s) \<le> 1"
    using assms by (simp_all add: pool_inv_def workers_inv_def fetch_pool_workers_def)
  then show ?thesis by (cases "rp_running s") auto
qed

lemma job_step_misses:
  assumes "job_step L G cfg r gc_log jobs now i s = Some s'" and "rp_pc s' i = WantLock" and "wanted_by jobs hashes refs i"
  shows "\<not> wants_there L G r hashes refs (w_disk (rp_world s))"
  using assms
  by (cases "rp_pc s i")
    (auto simp: job_step_def pool_ops has_all_wants_def wanted_by_def wants_there_def Let_def
      split: prod.splits job.splits if_splits)

lemma spared_move:
  assumes step: "job_step L G cfg r gc_log jobs now i s1 = Some s2" and inv: "pool_inv jobs s1"
    and there: "wants_there L G r hashes refs (w_disk (rp_world s1))" and spared: "spared jobs hashes refs s n s1"
  shows "spared jobs hashes refs s (n + fetches_for jobs hashes refs [move_event i s1]) s2"
proof -
  have count: "fetches_for jobs hashes refs [move_event i s1] = (if rp_pc s1 i = WantLock \<and> wanted_by jobs hashes refs i then 1 else 0)"
    by (simp add: fetches_for_def move_event_def)
  have none: "rp_pc s2 i \<noteq> WantLock" if "wanted_by jobs hashes refs i"
    using job_step_misses [OF step _ that] there by blast
  have old: "rp_pc s1 j = WantLock \<and> j \<noteq> i" if "wanted_by jobs hashes refs j" "rp_pc s2 j = WantLock" for j
    using job_step_pc [OF step] none that by (cases "j = i") (auto, metis fun_upd_apply)
  have alone: "j = i" if "rp_pc s1 i = WantLock" "rp_pc s1 j = WantLock" for j
    using one_active [OF inv, of j i] that by simp
  show ?thesis
    using spared old alone unfolding count spared_def by (auto; blast)
qed

lemma spared_idle:
  assumes "spared jobs hashes refs s n s1" and "rp_pc s2 = (rp_pc s1)(i := c)" and "c \<noteq> WantLock"
  shows "spared jobs hashes refs s n s2"
  using assms by (auto simp: spared_def)

lemma spared_step:
  assumes "pool_step L G cfg r gc_log P jobs others s1 e s2" and "pool_inv jobs s1"
    and "wants_there L G r hashes refs (w_disk (rp_world s1))" and "spared jobs hashes refs s n s1"
  shows "spared jobs hashes refs s (n + fetches_for jobs hashes refs [e]) s2"
  using assms(1)
proof cases
  case (submit i)
  then show ?thesis using spared_idle [OF assms(4), of s2 i Queued] by (simp add: fetches_for_def at_def)
next
  case (recover i b)
  then show ?thesis using spared_idle [OF assms(4), of s2 i RecStart] by (simp add: fetches_for_def at_def)
next
  case (pick k i)
  then show ?thesis using spared_idle [OF assms(4), of s2 i Picked] by (simp add: fetches_for_def at_def)
next
  case (run now i)
  with spared_move [OF run(2) assms(2-4)] show ?thesis by simp
qed (use assms(4) in \<open>simp_all add: spared_def fetches_for_def\<close>)

lemma spared_run:
  assumes "steady_run L G cfg r gc_log P jobs others (wants_there L G r hashes refs) s es s'" and "pool_law P"
    and "pool_inv jobs s"
  shows "spared jobs hashes refs s (fetches_for jobs hashes refs es) s'"
  using assms
proof (induction rule: steady_run.induct)
  case (still s)
  show ?case by (simp add: spared_def fetches_for_def)
next
  case (onward s es s1 e s2)
  from steady_run_run [OF onward.hyps(1)] have run: "pool_run L G cfg r gc_log P jobs others s es s1"
    and there: "wants_there L G r hashes refs (w_disk (rp_world s1))" by simp_all
  from spared_step [OF onward.hyps(2) pool_inv_run [OF run onward.prems] there onward.IH [OF onward.prems]]
  show ?case by (simp add: fetches_for_def)
qed

section \<open>A job that nothing interferes with\<close>

fun job_moves ::
  "status_lib \<Rightarrow> ('d, 'r) git_lib \<Rightarrow> server_config \<Rightarrow> managed_repo \<Rightarrow> ('d \<Rightarrow> string \<Rightarrow> bool) \<Rightarrow> (nat \<Rightarrow> job) \<Rightarrow>
     nat \<Rightarrow> time list \<Rightarrow> 'd repo_pool \<Rightarrow> 'd repo_pool option" where
  "job_moves L G cfg r gc_log jobs i [] s = Some s"
| "job_moves L G cfg r gc_log jobs i (t # ts) s =
     (case job_step L G cfg r gc_log jobs t i s of
        None \<Rightarrow> None
      | Some s' \<Rightarrow> job_moves L G cfg r gc_log jobs i ts s')"

text \<open>From the lock to the unlock.\<close>

lemma job_fetches_alone:
  assumes "rp_pc s i = WantLock" and "rp_lock s = None"
    and "fetch_upstream L G cfg r t t' (wants_of (jobs i)) (rp_world s) = (err, w')"
  shows "job_moves L G cfg r gc_log jobs i [t, t, t, t'] s =
    Some (at i (Unlock err) (s\<lparr>rp_lock := Some i, rp_world := w'\<rparr>))"
  using assms
  by (auto simp: fetch_upstream_steps job_step_def pool_ops Let_def split_beta)

lemma job_collects_alone:
  assumes "rp_pc s i = GcLog" and "rp_lock s = None"
    and "gc_log (w_disk (rp_world s)) (path_join [r_path r, ''gc.log''])"
    and "run_gc L G cfg r (rp_world s) = (err, w')"
  shows "job_moves L G cfg r gc_log jobs i [t, t, t, t, t] s =
    Some (leave i (send i err (s\<lparr>rp_world := w'\<rparr>)))"
  using assms by (simp add: job_step_def pool_ops)

lemma job_moves_append:
  "job_moves L G cfg r gc_log jobs i (ts @ us) s =
     (case job_moves L G cfg r gc_log jobs i ts s of
        None \<Rightarrow> None
      | Some s' \<Rightarrow> job_moves L G cfg r gc_log jobs i us s')"
  by (induction ts arbitrary: s) (simp_all split: option.splits)

lemma job_moves_trans:
  "job_moves L G cfg r gc_log jobs i ts s = Some s1 \<Longrightarrow> job_moves L G cfg r gc_log jobs i us s1 = Some s2 \<Longrightarrow>
     job_moves L G cfg r gc_log jobs i (ts @ us) s = Some s2"
  by (simp add: job_moves_append)

lemma job_moves_exI:
  "job_moves L G cfg r gc_log jobs i ts s = Some s1 \<Longrightarrow> Q s1 \<Longrightarrow>
     \<exists>ts s'. job_moves L G cfg r gc_log jobs i ts s = Some s' \<and> Q s'"
  by blast

text \<open>What is left to do after the first message of a background fetch.\<close>

lemma job_gc_alone:
  assumes "rp_pc s i = GcLog" and "rp_lock s = None"
  shows "\<exists>ts s'. job_moves L G cfg r gc_log jobs i ts s = Some s' \<and> rp_pc s' i = Done \<and> rp_lock s' = None \<and>
    (rp_sent s' i, rp_world s') =
      (if gc_log (w_disk (rp_world s)) (path_join [r_path r, ''gc.log'']) then
         (case run_gc L G cfg r (rp_world s) of (err, w) \<Rightarrow> (rp_sent s i @ [err], w))
       else (rp_sent s i, rp_world s))"
proof (cases "gc_log (w_disk (rp_world s)) (path_join [r_path r, ''gc.log''])")
  case True
  obtain err w where gc: "run_gc L G cfg r (rp_world s) = (err, w)" by fastforce
  show ?thesis
    by (rule job_moves_exI [OF job_collects_alone [where jobs = jobs and t = 0 and gc_log = gc_log, OF assms True gc]])
      (simp add: True gc assms(2) pool_ops)
next
  case False
  have "job_moves L G cfg r gc_log jobs i [0] s = Some (leave i s)"
    using assms False by (simp add: job_step_def)
  from job_moves_exI [OF this] show ?thesis using False assms(2) by (simp add: pool_ops)
qed

section \<open>Runs by computation, for witnesses\<close>

text \<open>A pool that starts the longest waiting task.\<close>

definition fifo_pool :: pool_lib where
  "fifo_pool = \<lparr>pool_pick = (\<lambda>n k q. if k < n \<and> q \<noteq> [] then Some 0 else None), pool_accepts = (\<lambda>n k. k < n)\<rparr>"

lemma fifo_pool_law: "pool_law fifo_pool"
  by (auto simp: pool_law_def fifo_pool_def split: if_splits)

fun pool_do ::
  "status_lib \<Rightarrow> ('d, 'r) git_lib \<Rightarrow> server_config \<Rightarrow> managed_repo \<Rightarrow> ('d \<Rightarrow> string \<Rightarrow> bool) \<Rightarrow> pool_lib \<Rightarrow> (nat \<Rightarrow> job) \<Rightarrow>
     time \<Rightarrow> pool_event \<Rightarrow> 'd repo_pool \<Rightarrow> 'd repo_pool option" where
  "pool_do L G cfg r gc_log P jobs now (Submitted i) s =
     (if rp_pc s i \<noteq> NotStarted then None
      else case jobs i of
             Recovery b \<Rightarrow> Some (at i RecStart s)
           | _ \<Rightarrow> if pool_accepts P fetch_pool_capacity (length (rp_queue s))
                  then Some (at i Queued (s\<lparr>rp_queue := rp_queue s @ [i]\<rparr>)) else None)"
| "pool_do L G cfg r gc_log P jobs now (PickedUp i) s =
     (case pool_pick P fetch_pool_workers (length (rp_running s)) (rp_queue s) of
        None \<Rightarrow> None
      | Some k \<Rightarrow>
          if rp_queue s ! k = i
          then Some (at i Picked (s\<lparr>rp_queue := remove1 i (rp_queue s), rp_running := rp_running s @ [i]\<rparr>)) else None)"
| "pool_do L G cfg r gc_log P jobs now (Received i) s =
     (if rp_received s i = 0 \<and> rp_sent s i \<noteq> [] then Some (s\<lparr>rp_received := (rp_received s)(i := 1)\<rparr>) else None)"
| "pool_do L G cfg r gc_log P jobs now (Fetches i) s =
     (if rp_pc s i = WantLock then job_step L G cfg r gc_log jobs now i s else None)"
| "pool_do L G cfg r gc_log P jobs now (Moved i) s =
     (if rp_pc s i = WantLock \<or> sends (rp_pc s i) \<and> \<not> can_send i s then None
      else job_step L G cfg r gc_log jobs now i s)"
| "pool_do L G cfg r gc_log P jobs now Elsewhere s = None"

lemma pool_do_step:
  assumes "pool_do L G cfg r gc_log P jobs now e s = Some s'"
  shows "pool_step L G cfg r gc_log P jobs others s e s'"
proof (cases e)
  case (Submitted i)
  with assms show ?thesis
    by (cases "jobs i") (auto intro: pool_step.submit pool_step.recover split: if_splits)
next
  case (PickedUp i)
  with assms show ?thesis using pool_step.pick by (fastforce split: option.splits if_splits)
next
  case (Fetches i)
  with assms show ?thesis
    using pool_step.run [of L G cfg r gc_log jobs now i s s'] by (simp add: move_event_def split: if_splits)
next
  case (Moved i)
  with assms have "sends (rp_pc s i) \<longrightarrow> can_send i s" "job_step L G cfg r gc_log jobs now i s = Some s'" "move_event i s = e"
    by (auto simp: move_event_def split: if_splits)
  with pool_step.run show ?thesis by metis
next
  case (Received i)
  with assms pool_step.receive [of s i] show ?thesis by (auto split: if_splits)
qed (use assms in simp)

fun pool_does ::
  "status_lib \<Rightarrow> ('d, 'r) git_lib \<Rightarrow> server_config \<Rightarrow> managed_repo \<Rightarrow> ('d \<Rightarrow> string \<Rightarrow> bool) \<Rightarrow> pool_lib \<Rightarrow> (nat \<Rightarrow> job) \<Rightarrow>
     time \<Rightarrow> pool_event list \<Rightarrow> 'd repo_pool \<Rightarrow> 'd repo_pool option" where
  "pool_does L G cfg r gc_log P jobs now [] s = Some s"
| "pool_does L G cfg r gc_log P jobs now (e # es) s =
     (case pool_do L G cfg r gc_log P jobs now e s of
        None \<Rightarrow> None
      | Some s' \<Rightarrow> pool_does L G cfg r gc_log P jobs now es s')"

lemma pool_does_run:
  "pool_run L G cfg r gc_log P jobs others s0 es0 s \<Longrightarrow> pool_does L G cfg r gc_log P jobs now es s = Some s' \<Longrightarrow>
     pool_run L G cfg r gc_log P jobs others s0 (es0 @ es) s'"
proof (induction es arbitrary: es0 s)
  case (Cons e es)
  then obtain s1 where "pool_do L G cfg r gc_log P jobs now e s = Some s1"
    and rest: "pool_does L G cfg r gc_log P jobs now es s1 = Some s'" by (auto split: option.splits)
  from pool_run.more [OF Cons.prems(1) pool_do_step [OF this(1)]] Cons.IH [OF _ rest, of "es0 @ [e]"]
  show ?case by simp
qed simp

fun pool_keeps ::
  "status_lib \<Rightarrow> ('d, 'r) git_lib \<Rightarrow> server_config \<Rightarrow> managed_repo \<Rightarrow> ('d \<Rightarrow> string \<Rightarrow> bool) \<Rightarrow> pool_lib \<Rightarrow> (nat \<Rightarrow> job) \<Rightarrow>
     time \<Rightarrow> ('d \<Rightarrow> bool) \<Rightarrow> pool_event list \<Rightarrow> 'd repo_pool \<Rightarrow> bool" where
  "pool_keeps L G cfg r gc_log P jobs now Q [] s = True"
| "pool_keeps L G cfg r gc_log P jobs now Q (e # es) s =
     (case pool_do L G cfg r gc_log P jobs now e s of
        None \<Rightarrow> False
      | Some s' \<Rightarrow> Q (w_disk (rp_world s')) \<and> pool_keeps L G cfg r gc_log P jobs now Q es s')"

lemma pool_keeps_run:
  "steady_run L G cfg r gc_log P jobs others Q s0 es0 s \<Longrightarrow> pool_keeps L G cfg r gc_log P jobs now Q es s \<Longrightarrow>
     \<exists>s'. steady_run L G cfg r gc_log P jobs others Q s0 (es0 @ es) s'"
proof (induction es arbitrary: es0 s)
  case (Cons e es)
  then obtain s1 where "pool_do L G cfg r gc_log P jobs now e s = Some s1" "Q (w_disk (rp_world s1))"
    "pool_keeps L G cfg r gc_log P jobs now Q es s1" by (auto split: option.splits)
  with Cons.IH [OF steady_run.onward [OF Cons.prems(1) pool_do_step], of now e s1] show ?case by simp
qed auto

text \<open>Two requests for the object the upstream has, a background fetch and a recovery.\<close>

definition demo_jobs :: "nat \<Rightarrow> job" where
  "demo_jobs i = (if i < 2 then OnDemand [Oid [255]] [] else if i = 2 then Background True else Recovery ''/tmp/b'')"

definition demo_events :: "pool_event list" where
  "demo_events = [Submitted 0, Submitted 1, PickedUp 0, Moved 0, Fetches 0, Moved 0, Moved 0, Moved 0, Moved 0, PickedUp 1,
     Moved 1]"

abbreviation demo_does :: "pool_event list \<Rightarrow> (oid list \<times> (string \<times> oid) list) repo_pool option" where
  "demo_does es \<equiv> pool_does plain_status (demo_git demo_reply) demo_config demo_repo (\<lambda>_ _. False) fifo_pool demo_jobs
     (90 * second) es (pool_start demo_world)"

lemmas demo_pool_simps = demo_events_def demo_jobs_def fifo_pool_def pool_start_def fetch_pool_workers_def
  fetch_pool_capacity_def job_step_def has_all_wants_def wants_check_def

lemma demo_served:
  "map_option (\<lambda>s. (rp_pc s 0, rp_pc s 1)) (demo_does demo_events) = Some (Done, Done)"
  by code_simp

lemma demo_run:
  "demo_does es = Some s \<Longrightarrow>
     pool_run plain_status (demo_git demo_reply) demo_config demo_repo (\<lambda>_ _. False) fifo_pool demo_jobs (\<lambda>_ _. False)
       (pool_start demo_world) es s"
  using pool_does_run [OF pool_run.none, where now = "90 * second"] by simp

text \<open>When the first request has fetched the object, the second finds it.\<close>

lemma demo_stays:
  "case demo_does (take 7 demo_events) of
     None \<Rightarrow> False
   | Some s \<Rightarrow> rp_pc s 0 = Stamp (90 * second) None \<and>
       wants_there plain_status (demo_git demo_reply) demo_repo [Oid [255]] [] (w_disk (rp_world s)) \<and>
       pool_keeps plain_status (demo_git demo_reply) demo_config demo_repo (\<lambda>_ _. False) fifo_pool demo_jobs (90 * second)
         (wants_there plain_status (demo_git demo_reply) demo_repo [Oid [255]] []) (drop 7 demo_events) s"
  by code_simp




section \<open>A background fetch alone\<close>

text \<open>A background fetch up to its first message: skipped, or the fetch, which is counted.\<close>

definition background_fetch ::
  "status_lib \<Rightarrow> ('d, 'r) git_lib \<Rightarrow> server_config \<Rightarrow> managed_repo \<Rightarrow> bool \<Rightarrow> 'd async_env \<Rightarrow> 'd world \<Rightarrow>
     go_error option \<times> 'd world" where
  "background_fetch L G cfg r must_fetch E w =
     (let v = log_elapsed ''FetchManagedRepository queuing'' (r_path r) w in
      if \<not> must_fetch \<and> recent r (ae_pickup E) w then (None, v)
      else fetch_upstream L G cfg r (ae_start E) (ae_end E) []
             (count_operation (r_path r) [''op:background_fetch'', if must_fetch then ''must:1'' else ''must:0''] v))"

lemma async_task_parts:
  "async_task L G cfg r must_fetch E w =
     (case background_fetch L G cfg r must_fetch E w of (err, w1) \<Rightarrow>
        if ae_gc_log E (w_disk w1) (path_join [r_path r, ''gc.log'']) then
          (case run_gc L G cfg r w1 of (err', w2) \<Rightarrow> ([err, err'], w2))
        else ([err], w1))"
  by (auto simp: async_task_def background_fetch_def Let_def split: prod.splits)

lemma background_alone:
  assumes "rp_pc s i = Picked" and "rp_lock s = None" and "jobs i = Background must_fetch"
  shows "\<exists>ts s1. job_moves L G cfg r (ae_gc_log E) jobs i ts s = Some s1 \<and> rp_pc s1 i = GcLog \<and> rp_lock s1 = None \<and>
    rp_world s1 = snd (background_fetch L G cfg r must_fetch E (rp_world s)) \<and>
    rp_sent s1 i = rp_sent s i @ [fst (background_fetch L G cfg r must_fetch E (rp_world s))]"
proof (cases "\<not> must_fetch \<and> recent r (ae_pickup E) (rp_world s)")
  case True
  define v where "v = log_elapsed ''FetchManagedRepository queuing'' (r_path r) (rp_world s)"
  from True assms have "job_moves L G cfg r (ae_gc_log E) jobs i [ae_pickup E, 0] s = Some (at i GcLog (send i None (s\<lparr>rp_world := v\<rparr>)))"
    by (simp add: job_step_def v_def pool_ops Let_def)
  from job_moves_exI [OF this] show ?thesis
    using True assms(2) by (simp add: pool_ops background_fetch_def v_def Let_def)
next
  case False
  let ?moves = "job_moves L G cfg r (ae_gc_log E) jobs i"
  define v where "v = count_operation (r_path r) [''op:background_fetch'', if must_fetch then ''must:1'' else ''must:0'']
    (log_elapsed ''FetchManagedRepository queuing'' (r_path r) (rp_world s))"
  define s1 where "s1 = at i WantLock (s\<lparr>rp_world := v\<rparr>)"
  obtain err w2 where fetch: "fetch_upstream L G cfg r (ae_start E) (ae_end E) [] v = (err, w2)" by fastforce
  define s2 where "s2 = at i (Unlock err) (s1\<lparr>rp_lock := Some i, rp_world := w2\<rparr>)"
  have "?moves [ae_pickup E] s = Some s1"
    using False assms by (auto simp: job_step_def s1_def v_def in_world_def Let_def)
  moreover have "?moves [ae_start E, ae_start E, ae_start E, ae_end E] s1 = Some s2"
    unfolding s2_def using assms(2,3) fetch
    by (intro job_fetches_alone) (simp_all add: s1_def pool_ops wants_of_def)
  moreover have "?moves [0, 0] s2 = Some (at i GcLog (send i err (release s2)))"
    using assms(3) by (simp add: job_step_def s2_def pool_ops)
  ultimately obtain ts where moves: "?moves ts s = Some (at i GcLog (send i err (release s2)))"
    using job_moves_trans by metis
  have "background_fetch L G cfg r must_fetch E (rp_world s) = (err, w2)"
    using False fetch by (auto simp: background_fetch_def v_def Let_def)
  then show ?thesis by (intro job_moves_exI [OF moves]) (simp add: s2_def s1_def pool_ops)
qed

section \<open>Properties\<close>

text \<open>
  C13: whatever tasks are submitted and however they are interleaved, at most one job is
  between lock and unlock: no two of the upstream fetches, the garbage collections and the
  recoveries from a bundle ever run git in the repository at the same time.
\<close>

theorem upstream_operations_exclusive:
  assumes "pool_law P" and "pool_run L G cfg r gc_log P jobs others (pool_start w) es s"
    and "critical (rp_pc s i)" and "critical (rp_pc s j)"
  shows "i = j \<and> rp_lock s = Some i"
proof -
  have "lock_inv s" using pool_inv_run [OF assms(2,1) pool_inv_start] by (simp add: pool_inv_def)
  with assms(3,4) show ?thesis unfolding lock_inv_def by (metis option.inject)
qed

theorem upstream_operations_exclusive_witness:
  "\<exists>s. demo_does (take 6 demo_events) = Some s \<and> rp_lock s = Some 0"
proof -
  have "map_option (\<lambda>s. rp_pc s 0) (demo_does (take 6 demo_events)) = Some (FetchOrigin (90 * second))"
    by code_simp
  then obtain s where s: "demo_does (take 6 demo_events) = Some s" "rp_pc s 0 = FetchOrigin (90 * second)" by auto
  from upstream_operations_exclusive [OF fifo_pool_law demo_run [OF s(1)], of 0 0] s show ?thesis by simp
qed

text \<open>
  C14: one fetch serves all: from a moment on from which what is wanted stays on the disk,
  of all the requests for the same objects that wait or come, at most one fetches from the
  upstream, and only if its check had missed them before; none does when that moment is the
  end of a fetch, because there is one worker and the check each task begins with lets the
  others off. Nothing is assumed of git or of the upstream.
\<close>

theorem one_fetch_per_miss:
  assumes "pool_law P" and "pool_run L G cfg r gc_log P jobs others (pool_start w) es1 s1"
    and "steady_run L G cfg r gc_log P jobs others (wants_there L G r hashes refs) s1 es2 s2"
  shows "fetches_for jobs hashes refs es2 \<le> (if \<exists>i. wanted_by jobs hashes refs i \<and> rp_pc s1 i = WantLock then 1 else 0) \<and>
    (rp_pc s1 k = Stamp t err \<longrightarrow> fetches_for jobs hashes refs es2 = 0)"
proof -
  have inv: "pool_inv jobs s1" by (rule pool_inv_run [OF assms(2,1) pool_inv_start])
  from spared_run [OF assms(3,1) inv] have "spared jobs hashes refs s1 (fetches_for jobs hashes refs es2) s2" .
  moreover have "rp_pc s1 i \<noteq> WantLock" if "rp_pc s1 k = Stamp t err" for i
    using one_active [OF inv, of i k] that by auto
  ultimately show ?thesis by (auto simp: spared_def)
qed

theorem one_fetch_per_miss_witness:
  "demo_does demo_events \<noteq> None \<and> fetches_for demo_jobs [Oid [255]] [] (drop 7 demo_events) = 0"
proof -
  obtain s where s: "demo_does (take 7 demo_events) = Some s" "rp_pc s 0 = Stamp (90 * second) None"
    and there: "wants_there plain_status (demo_git demo_reply) demo_repo [Oid [255]] [] (w_disk (rp_world s))"
    and keeps: "pool_keeps plain_status (demo_git demo_reply) demo_config demo_repo (\<lambda>_ _. False) fifo_pool demo_jobs (90 * second)
      (wants_there plain_status (demo_git demo_reply) demo_repo [Oid [255]] []) (drop 7 demo_events) s"
    using demo_stays by (auto split: option.splits)
  obtain s2 where "steady_run plain_status (demo_git demo_reply) demo_config demo_repo (\<lambda>_ _. False) fifo_pool demo_jobs
      (\<lambda>_ _. False) (wants_there plain_status (demo_git demo_reply) demo_repo [Oid [255]] []) s (drop 7 demo_events) s2"
    using pool_keeps_run [OF steady_run.still [where s = s and Q = "wants_there plain_status (demo_git demo_reply) demo_repo [Oid [255]] []", OF there] keeps]
    by auto
  from one_fetch_per_miss [OF fifo_pool_law demo_run [OF s(1)] this, of 0] s(2) demo_served show ?thesis by auto
qed




text \<open>
  C22: the steps refine the operations: an on-demand task that nothing interferes with ends
  with the world that \<open>fetch_task\<close> computes, which is what \<open>handleV2Command\<close> waits for, and
  releases its worker and the lock.
\<close>

theorem pool_refines_fetch_task:
  assumes "rp_pc s i = Picked" and "rp_lock s = None" and "jobs i = OnDemand hashes refs"
    and "env_at E = (\<lambda>_ v. v)"
  shows "\<exists>ts s'. job_moves (lib_status X) (lib_git X) cfg r gc_log jobs i ts s = Some s' \<and>
    rp_pc s' i = Done \<and> rp_lock s' = None \<and> rp_running s' = remove1 i (rp_running s) \<and>
    rp_world s' = fetch_task X cfg E r hashes refs (rp_world s)"
proof -
  let ?moves = "job_moves (lib_status X) (lib_git X) cfg r gc_log jobs i"
  obtain check w1 where check: "has_all_wants (lib_status X) (lib_git X) r hashes refs
      (log_elapsed ''FetchUpstream queuing'' (r_path r) (rp_world s)) = (check, w1)"
    by fastforce
  show ?thesis
  proof (cases "check = Inr False")
    case False
    with check assms have "?moves [0] s = Some (leave i (s\<lparr>rp_world := w1\<rparr>))"
      by (simp add: job_step_def)
    moreover have "fetch_task X cfg E r hashes refs (rp_world s) = w1"
      using False check assms(4) by (auto simp: fetch_task_def split: sum.splits bool.splits)
    ultimately show ?thesis
      using assms(2) by (intro exI [of _ "[0]"] exI [of _ "leave i (s\<lparr>rp_world := w1\<rparr>)"]) (simp add: pool_ops)
  next
    case True
    define v where "v = count_operation (r_path r) [''op:ondemand_fetch'', ''triggered_by:hasallwants''] w1"
    define s1 where "s1 = at i WantLock (s\<lparr>rp_world := v\<rparr>)"
    obtain err w2 where fetch: "fetch_upstream (lib_status X) (lib_git X) cfg r (fetch_start E) (fetch_end E) hashes v = (err, w2)"
      by fastforce
    define s2 where "s2 = at i (Unlock err) (s1\<lparr>rp_lock := Some i, rp_world := w2\<rparr>)"
    have "?moves [0] s = Some s1"
      using True check assms by (simp add: job_step_def s1_def v_def in_world_def)
    moreover have "?moves [fetch_start E, fetch_start E, fetch_start E, fetch_end E] s1 = Some s2"
      unfolding s2_def using assms(2,3) fetch
      by (intro job_fetches_alone) (simp_all add: s1_def pool_ops wants_of_def)
    moreover have "?moves [0] s2 = Some (leave i (release s2))"
      using assms(3) by (simp add: job_step_def s2_def pool_ops)
    ultimately obtain ts where moves: "?moves ts s = Some (leave i (release s2))"
      using job_moves_trans by metis
    have "fetch_task X cfg E r hashes refs (rp_world s) = w2"
      using True check assms(4) fetch by (simp add: fetch_task_def v_def)
    then show ?thesis by (intro job_moves_exI [OF moves]) (simp add: s2_def s1_def pool_ops)
  qed
qed

theorem pool_refines_fetch_task_witness:
  "\<exists>ts s'. job_moves plain_status (demo_git demo_reply) demo_config demo_repo (\<lambda>_ _. False) demo_jobs 0 ts
      (at 0 Picked (pool_start demo_world)) = Some s' \<and>
    rp_pc s' 0 = Done \<and>
    rp_world s' = fetch_task (demo_libs demo_reply) demo_config demo_env demo_repo [Oid [255]] [] demo_world"
proof -
  let ?s = "at 0 Picked (pool_start demo_world)"
  have "rp_pc ?s 0 = Picked" "rp_lock ?s = None" "demo_jobs 0 = OnDemand [Oid [255]] []" "rp_world ?s = demo_world"
    by (simp_all add: at_def pool_start_def demo_jobs_def)
  with pool_refines_fetch_task [of ?s 0 demo_jobs "[Oid [255]]" "[]" demo_env "demo_libs demo_reply" demo_config demo_repo
      "\<lambda>_ _. False"]
  show ?thesis by (auto simp: demo_env_def)
qed

text \<open>
  C23: the same for a background fetch: alone, it ends with the world and the messages on its
  channel that \<open>async_task\<close> computes, the garbage collection after a gc.log included.
\<close>

theorem pool_refines_async_task:
  assumes "rp_pc s i = Picked" and "rp_lock s = None" and "jobs i = Background must_fetch"
  shows "\<exists>ts s'. job_moves L G cfg r (ae_gc_log E) jobs i ts s = Some s' \<and> rp_pc s' i = Done \<and> rp_lock s' = None \<and>
    (\<exists>sent. async_task L G cfg r must_fetch E (rp_world s) = (sent, rp_world s') \<and> rp_sent s' i = rp_sent s i @ sent)"
proof -
  let ?moves = "job_moves L G cfg r (ae_gc_log E) jobs i"
  let ?first = "background_fetch L G cfg r must_fetch E (rp_world s)"
  from background_alone [of s i jobs must_fetch, OF assms] obtain ts s1 where s1: "?moves ts s = Some s1" "rp_pc s1 i = GcLog" "rp_lock s1 = None"
    "rp_world s1 = snd ?first" "rp_sent s1 i = rp_sent s i @ [fst ?first]" by blast
  from job_gc_alone [OF s1(2,3)] obtain us s2 where s2: "?moves us s1 = Some s2" "rp_pc s2 i = Done" "rp_lock s2 = None"
    "(rp_sent s2 i, rp_world s2) = (if ae_gc_log E (w_disk (snd ?first)) (path_join [r_path r, ''gc.log'']) then
       (case run_gc L G cfg r (snd ?first) of (err, w) \<Rightarrow> (rp_sent s1 i @ [err], w)) else (rp_sent s1 i, snd ?first))"
    unfolding s1(4) by blast
  have "\<exists>sent. async_task L G cfg r must_fetch E (rp_world s) = (sent, rp_world s2) \<and> rp_sent s2 i = rp_sent s i @ sent"
    using s2(4) s1(5) async_task_parts [of L G cfg r must_fetch E "rp_world s"] by (auto split: if_splits prod.splits)
  with s2 job_moves_trans [OF s1(1) s2(1)] show ?thesis by blast
qed

theorem pool_refines_async_task_witness:
  "\<exists>ts s' sent. job_moves plain_status (demo_git demo_reply) demo_config demo_repo (ae_gc_log (demo_async 0 (90 * second)))
      demo_jobs 2 ts (at 2 Picked (pool_start demo_world)) = Some s' \<and>
    async_task plain_status (demo_git demo_reply) demo_config demo_repo True (demo_async 0 (90 * second)) demo_world =
      (sent, rp_world s') \<and> rp_sent s' 2 = sent"
proof -
  let ?s = "at 2 Picked (pool_start demo_world)"
  have "rp_pc ?s 2 = Picked" "rp_lock ?s = None" "demo_jobs 2 = Background True" "rp_world ?s = demo_world" "rp_sent ?s 2 = []"
    by (simp_all add: at_def pool_start_def demo_jobs_def)
  with pool_refines_async_task [of ?s 2 demo_jobs True plain_status "demo_git demo_reply" demo_config demo_repo
      "demo_async 0 (90 * second)"]
  show ?thesis by auto
qed

end
