(* ===== verification/Json.thy ===== *)
theory Json
  imports Prelude
begin

text \<open>
  The parser of \<open>encoding/json\<close>, as far as reading a configuration needs it: tokens, the
  pushdown automaton over them with its limit on nesting, and the decoding of strings with
  their escapes and the replacement of invalid UTF-8.
\<close>

section \<open>Values and tokens\<close>

text \<open>Numbers keep their text.\<close>

datatype json = JNull | JBool bool | JNum string | JStr string | JArr "json list" | JObj "(string \<times> json) list"

datatype token = TLBrace | TRBrace | TLBrack | TRBrack | TColon | TComma | TStr string | TNum string | TTrue | TFalse | TNull

section \<open>Strings\<close>

text \<open>
  The length of the well-formed UTF-8 sequence at the start, 0 when there is none.
\<close>

definition continues :: "nat \<Rightarrow> bool" where
  "continues b \<longleftrightarrow> 128 \<le> b \<and> b \<le> 191"

fun rune_size :: "nat list \<Rightarrow> nat" where
  "rune_size (a # bs) =
     (if a < 128 then 1
      else case bs of
        b # cs \<Rightarrow>
          if 194 \<le> a \<and> a \<le> 223 then (if continues b then 2 else 0)
          else (case cs of
                  c # ds \<Rightarrow>
                    if a = 224 then (if 160 \<le> b \<and> b \<le> 191 \<and> continues c then 3 else 0)
                    else if a = 237 then (if 128 \<le> b \<and> b \<le> 159 \<and> continues c then 3 else 0)
                    else if 225 \<le> a \<and> a \<le> 239 then (if continues b \<and> continues c then 3 else 0)
                    else (case ds of
                            d # _ \<Rightarrow>
                              if a = 240 then (if 144 \<le> b \<and> b \<le> 191 \<and> continues c \<and> continues d then 4 else 0)
                              else if a = 244 then (if 128 \<le> b \<and> b \<le> 143 \<and> continues c \<and> continues d then 4 else 0)
                              else if 241 \<le> a \<and> a \<le> 243 then (if continues b \<and> continues c \<and> continues d then 4 else 0)
                              else 0
                          | [] \<Rightarrow> 0)
                | [] \<Rightarrow> 0)
      | [] \<Rightarrow> 0)"
| "rune_size [] = 0"

definition replacement :: bytes where
  "replacement = [CHR 0xEF, CHR 0xBF, CHR 0xBD]"

text \<open>\<open>utf8.EncodeRune\<close>; surrogates and numbers out of range are replaced.\<close>

definition encode_rune :: "nat \<Rightarrow> bytes" where
  "encode_rune r =
     (if r < 128 then [char_of r]
      else if r < 2048 then [char_of (192 + r div 64), char_of (128 + r mod 64)]
      else if 55296 \<le> r \<and> r \<le> 57343 \<or> 1114111 < r then replacement
      else if r < 65536 then [char_of (224 + r div 4096), char_of (128 + r div 64 mod 64), char_of (128 + r mod 64)]
      else [char_of (240 + r div 262144), char_of (128 + r div 4096 mod 64), char_of (128 + r div 64 mod 64),
            char_of (128 + r mod 64)])"

definition hex_val :: "char \<Rightarrow> nat option" where
  "hex_val c = (let n = (of_char c :: nat) in
     if 48 \<le> n \<and> n \<le> 57 then Some (n - 48) else if 97 \<le> n \<and> n \<le> 102 then Some (n - 87)
     else if 65 \<le> n \<and> n \<le> 70 then Some (n - 55) else None)"

fun hex4 :: "string \<Rightarrow> nat option" where
  "hex4 (a # b # c # d # _) =
     (case (hex_val a, hex_val b, hex_val c, hex_val d) of
        (Some w, Some x, Some y, Some z) \<Rightarrow> Some (w * 4096 + x * 256 + y * 16 + z)
      | _ \<Rightarrow> None)"
| "hex4 _ = None"

text \<open>The escape of a second surrogate, when it makes a pair with the first.\<close>

definition pair_of :: "nat \<Rightarrow> string \<Rightarrow> nat option" where
  "pair_of r s =
     (if 55296 \<le> r \<and> r < 56320 \<and> take 2 s = [CHR 0x5C, CHR ''u''] then
        (case hex4 (drop 2 s) of
           Some r2 \<Rightarrow> if 56320 \<le> r2 \<and> r2 < 57344 then Some (65536 + (r - 55296) * 1024 + (r2 - 56320)) else None
         | None \<Rightarrow> None)
      else None)"

definition escape_char :: "char \<Rightarrow> char option" where
  "escape_char c =
     (if c = CHR 0x22 \<or> c = CHR 0x5C \<or> c = CHR ''/'' then Some c
      else if c = CHR ''b'' then Some CHR 0x08
      else if c = CHR ''f'' then Some CHR 0x0C
      else if c = CHR ''n'' then Some CHR 0x0A
      else if c = CHR ''r'' then Some CHR 0x0D
      else if c = CHR ''t'' then Some CHR 0x09
      else None)"

text \<open>\<open>unquote\<close>: the text between the quotes, whose escapes the scanner has checked.\<close>

function (sequential) unquote :: "string \<Rightarrow> bytes" where
  "unquote [] = []"
| "unquote (c # s) =
     (if c = CHR 0x5C then
        (case s of
           [] \<Rightarrow> []
         | e # s' \<Rightarrow>
             if e = CHR ''u'' then
               (case hex4 s' of
                  None \<Rightarrow> []
                | Some r \<Rightarrow>
                    (case pair_of r (drop 4 s') of
                       Some r' \<Rightarrow> encode_rune r' @ unquote (drop 10 s')
                     | None \<Rightarrow> encode_rune r @ unquote (drop 4 s')))
             else (case escape_char e of None \<Rightarrow> [] | Some x \<Rightarrow> x # unquote s'))
      else (let n = rune_size (map of_char (c # s)) in
            if n = 0 then replacement @ unquote s else take n (c # s) @ unquote (drop (n - 1) s)))"
  by pat_completeness auto
termination by (relation "measure length") auto

text \<open>
  The text of a string up to its closing quote, and what follows: no control characters, and
  only the escapes of JSON.
\<close>

fun string_text :: "string \<Rightarrow> (string \<times> string) option" where
  "string_text [] = None"
| "string_text [c] = (if c = CHR 0x22 then Some ([], []) else None)"
| "string_text (c # e # s) =
     (if c = CHR 0x22 then Some ([], e # s)
      else if (of_char c :: nat) < 32 then None
      else if c = CHR 0x5C then
        (if e = CHR ''u'' then
           (if hex4 s = None then None else map_option (\<lambda>(t, r). (c # e # t, r)) (string_text s))
         else if escape_char e = None then None
         else map_option (\<lambda>(t, r). (c # e # t, r)) (string_text s))
      else map_option (\<lambda>(t, r). (c # t, r)) (string_text (e # s)))"

lemma string_text_shorter: "string_text s = Some (t, r) \<Longrightarrow> length r < length s"
  by (induction s arbitrary: t r rule: string_text.induct) (fastforce split: if_splits)+

section \<open>Numbers\<close>

definition is_digit :: "char \<Rightarrow> bool" where
  "is_digit c \<longleftrightarrow> digit_val c \<noteq> None"

definition number_char :: "char \<Rightarrow> bool" where
  "number_char c \<longleftrightarrow> is_digit c \<or> c \<in> set ''+-.eE''"

definition digits :: "string \<Rightarrow> bool" where
  "digits s \<longleftrightarrow> s \<noteq> [] \<and> list_all is_digit s"

text \<open>The parts of a number: its sign, its integer, its fraction and its exponent.\<close>

definition valid_exponent :: "string \<Rightarrow> bool" where
  "valid_exponent s \<longleftrightarrow>
     s = [] \<or> (hd s \<in> set ''eE'' \<and> digits (if tl s \<noteq> [] \<and> hd (tl s) \<in> set ''+-'' then tl (tl s) else tl s))"

definition valid_fraction :: "string \<Rightarrow> bool" where
  "valid_fraction s \<longleftrightarrow>
     (if s \<noteq> [] \<and> hd s = CHR ''.'' then digits (takeWhile is_digit (tl s)) \<and> valid_exponent (dropWhile is_digit (tl s))
      else valid_exponent s)"

definition valid_number :: "string \<Rightarrow> bool" where
  "valid_number s =
     (let s' = (if has_prefix s ''-'' then tl s else s);
          int_part = takeWhile is_digit s'
      in digits int_part \<and> (hd int_part = CHR ''0'' \<longrightarrow> length int_part = 1) \<and> valid_fraction (dropWhile is_digit s'))"

section \<open>Tokens of a text\<close>

definition json_space :: "char \<Rightarrow> bool" where
  "json_space c \<longleftrightarrow> c \<in> {CHR '' '', CHR 0x09, CHR 0x0A, CHR 0x0D}"

definition punctuation :: "char \<Rightarrow> token option" where
  "punctuation c =
     map_of [(CHR ''{'', TLBrace), (CHR ''}'', TRBrace), (CHR ''['', TLBrack), (CHR '']'', TRBrack),
       (CHR '':'', TColon), (CHR '','', TComma)] c"

function (sequential) tokens :: "string \<Rightarrow> token list option" where
  "tokens [] = Some []"
| "tokens (c # s) =
     (if json_space c then tokens s
      else case punctuation c of
        Some t \<Rightarrow> map_option (\<lambda>ts. t # ts) (tokens s)
      | None \<Rightarrow>
          if c = CHR 0x22 then
            (case string_text s of
               None \<Rightarrow> None
             | Some (t, r) \<Rightarrow> map_option (\<lambda>ts. TStr (unquote t) # ts) (tokens r))
          else if number_char c then
            (if valid_number (takeWhile number_char (c # s)) then
               map_option (\<lambda>ts. TNum (takeWhile number_char (c # s)) # ts) (tokens (dropWhile number_char s))
             else None)
          else if has_prefix (c # s) ''true'' then map_option (\<lambda>ts. TTrue # ts) (tokens (drop 3 s))
          else if has_prefix (c # s) ''false'' then map_option (\<lambda>ts. TFalse # ts) (tokens (drop 4 s))
          else if has_prefix (c # s) ''null'' then map_option (\<lambda>ts. TNull # ts) (tokens (drop 3 s))
          else None)"
  by pat_completeness auto
termination
  by (relation "measure length") (auto simp: le_imp_less_Suc length_dropWhile_le dest: string_text_shorter)

declare tokens.simps(2) [simp del]

section \<open>The automaton\<close>

text \<open>
  Open containers, the innermost first: an array with its elements so far, an object whose
  next value is that of a key; and what the automaton waits for. Lists are reversed.
\<close>

datatype frame = FArr "json list" | FObj "(string \<times> json) list" | FField "(string \<times> json) list" string

datatype mode = Value | ArrStart | ObjStart | Key | Colon string | Complete json

type_synonym machine = "frame list \<times> mode"

definition max_nesting :: nat where
  "max_nesting = 10000"

definition open_container :: "frame list \<Rightarrow> frame \<Rightarrow> mode \<Rightarrow> machine option" where
  "open_container fs f m = (if length fs < max_nesting then Some (f # fs, m) else None)"

definition begin_value :: "frame list \<Rightarrow> token \<Rightarrow> machine option" where
  "begin_value fs t =
     (case t of
        TLBrace \<Rightarrow> open_container fs (FObj []) ObjStart
      | TLBrack \<Rightarrow> open_container fs (FArr []) ArrStart
      | TStr s \<Rightarrow> Some (fs, Complete (JStr s))
      | TNum s \<Rightarrow> Some (fs, Complete (JNum s))
      | TTrue \<Rightarrow> Some (fs, Complete (JBool True))
      | TFalse \<Rightarrow> Some (fs, Complete (JBool False))
      | TNull \<Rightarrow> Some (fs, Complete JNull)
      | _ \<Rightarrow> None)"

definition after_value :: "token \<Rightarrow> frame list \<Rightarrow> json \<Rightarrow> machine option" where
  "after_value t fs v =
     (case fs of
        FArr vs # fs' \<Rightarrow>
          (case t of
             TComma \<Rightarrow> Some (FArr (v # vs) # fs', Value)
           | TRBrack \<Rightarrow> Some (fs', Complete (JArr (rev (v # vs))))
           | _ \<Rightarrow> None)
      | FField kvs k # fs' \<Rightarrow>
          (case t of
             TComma \<Rightarrow> Some (FObj ((k, v) # kvs) # fs', Key)
           | TRBrace \<Rightarrow> Some (fs', Complete (JObj (rev ((k, v) # kvs))))
           | _ \<Rightarrow> None)
      | _ \<Rightarrow> None)"

definition json_step :: "token \<Rightarrow> machine \<Rightarrow> machine option" where
  "json_step t m =
     (case m of (fs, mode) \<Rightarrow>
        case mode of
          Value \<Rightarrow> begin_value fs t
        | ArrStart \<Rightarrow> if t = TRBrack then Some (tl fs, Complete (JArr [])) else begin_value fs t
        | ObjStart \<Rightarrow>
            (case t of
               TRBrace \<Rightarrow> Some (tl fs, Complete (JObj []))
             | TStr k \<Rightarrow> Some (fs, Colon k)
             | _ \<Rightarrow> None)
        | Key \<Rightarrow> (case t of TStr k \<Rightarrow> Some (fs, Colon k) | _ \<Rightarrow> None)
        | Colon k \<Rightarrow>
            (case fs of
               FObj kvs # fs' \<Rightarrow> if t = TColon then Some (FField kvs k # fs', Value) else None
             | _ \<Rightarrow> None)
        | Complete v \<Rightarrow> after_value t fs v)"

fun json_run :: "token list \<Rightarrow> machine \<Rightarrow> machine option" where
  "json_run [] m = Some m"
| "json_run (t # ts) m = (case json_step t m of None \<Rightarrow> None | Some m' \<Rightarrow> json_run ts m')"

definition json_parse :: "bytes \<Rightarrow> json option" where
  "json_parse b =
     (case tokens b of
        None \<Rightarrow> None
      | Some ts \<Rightarrow> (case json_run ts ([], Value) of Some ([], Complete v) \<Rightarrow> Some v | _ \<Rightarrow> None))"

section \<open>Writing values\<close>

text \<open>The tokens of a value, and how deep it nests.\<close>

fun commas :: "token list list \<Rightarrow> token list" where
  "commas [] = []"
| "commas [ts] = ts"
| "commas (ts # tss) = ts @ TComma # commas tss"

fun json_tokens :: "json \<Rightarrow> token list" where
  "json_tokens JNull = [TNull]"
| "json_tokens (JBool b) = [if b then TTrue else TFalse]"
| "json_tokens (JNum s) = [TNum s]"
| "json_tokens (JStr s) = [TStr s]"
| "json_tokens (JArr js) = TLBrack # commas (map json_tokens js) @ [TRBrack]"
| "json_tokens (JObj kvs) = TLBrace # commas (map (\<lambda>(k, v). TStr k # TColon # json_tokens v) kvs) @ [TRBrace]"

fun nesting :: "json \<Rightarrow> nat" where
  "nesting (JArr js) = Suc (fold max (map nesting js) 0)"
| "nesting (JObj kvs) = Suc (fold max (map (\<lambda>(k, v). nesting v) kvs) 0)"
| "nesting _ = 0"

lemma fold_max_le: "x \<in> set xs \<Longrightarrow> x \<le> fold max xs (a :: nat)"
proof -
  have ge: "a \<le> fold max xs a" for xs and a :: nat
    by (induction xs arbitrary: a) (simp, metis fold_simps(2) max.bounded_iff max.commute)
  show "x \<in> set xs \<Longrightarrow> x \<le> fold max xs a"
    by (induction xs arbitrary: a) (auto intro: order.trans [OF max.cobounded1 ge])
qed

lemma nesting_arr: "j \<in> set js \<Longrightarrow> nesting j < nesting (JArr js)"
  using fold_max_le [of "nesting j" "map nesting js" 0] by (simp add: less_Suc_eq_le)

lemma nesting_obj: "(k, v) \<in> set kvs \<Longrightarrow> nesting v < nesting (JObj kvs)"
  using fold_max_le [of "nesting v" "map (\<lambda>(k, v). nesting v) kvs" 0] by (force simp: less_Suc_eq_le)

lemmas step_defs = json_step_def begin_value_def open_container_def after_value_def

lemma json_tokens_start: "\<exists>t ts. json_tokens j = t # ts \<and> t \<noteq> TRBrack \<and> t \<noteq> TRBrace"
  by (cases j) auto

lemma run_first: "ts = t # ts' \<Longrightarrow> t \<noteq> TRBrack \<Longrightarrow> json_run ts (fs, ArrStart) = json_run ts (fs, Value)"
  by (simp add: json_step_def)

text \<open>The automaton reads back the tokens of a value, in any context.\<close>

lemma run_elements:
  assumes "\<And>j fs ts. j \<in> set js \<Longrightarrow> length fs + nesting j \<le> max_nesting \<Longrightarrow>
      json_run (json_tokens j @ ts) (fs, Value) = json_run ts (fs, Complete j)"
    and "\<forall>j \<in> set js. Suc (length fs) + nesting j \<le> max_nesting" and "js \<noteq> []"
  shows "json_run (commas (map json_tokens js) @ TRBrack # ts) (FArr vs # fs, Value) =
    json_run ts (fs, Complete (JArr (rev vs @ js)))"
  using assms
proof (induction js arbitrary: vs)
  case (Cons j js)
  have j: "json_run (json_tokens j @ ts') (FArr vs # fs, Value) = json_run ts' (FArr vs # fs, Complete j)" for ts'
    using Cons.prems(1) [of j "FArr vs # fs"] Cons.prems(2) by simp
  show ?case
  proof (cases js)
    case Nil
    then show ?thesis by (simp add: j step_defs)
  next
    case (Cons j' js')
    have "json_run (commas (map json_tokens js) @ TRBrack # ts) (FArr (j # vs) # fs, Value) =
        json_run ts (fs, Complete (JArr (rev (j # vs) @ js)))"
      using Cons Cons.prems by (intro Cons.IH) auto
    then show ?thesis by (simp add: Cons j step_defs)
  qed
qed simp

lemma run_fields:
  assumes "\<And>k j fs ts. (k, j) \<in> set kvs \<Longrightarrow> length fs + nesting j \<le> max_nesting \<Longrightarrow>
      json_run (json_tokens j @ ts) (fs, Value) = json_run ts (fs, Complete j)"
    and "\<forall>(k, j) \<in> set kvs. Suc (length fs) + nesting j \<le> max_nesting" and "kvs \<noteq> []"
    and "mode = Key \<or> mode = ObjStart"
  shows "json_run (commas (map (\<lambda>(k, v). TStr k # TColon # json_tokens v) kvs) @ TRBrace # ts) (FObj vs # fs, mode) =
    json_run ts (fs, Complete (JObj (rev vs @ kvs)))"
  using assms
proof (induction kvs arbitrary: vs mode)
  case (Cons kv kvs)
  obtain k j where kv: "kv = (k, j)" by fastforce
  have j: "json_run (json_tokens j @ ts') (FField vs k # fs, Value) = json_run ts' (FField vs k # fs, Complete j)" for ts'
    using Cons.prems(1) [of k j "FField vs k # fs"] Cons.prems(2) kv by simp
  have start: "json_run (TStr k # TColon # ts') (FObj vs # fs, mode) = json_run ts' (FField vs k # fs, Value)" for ts'
    using Cons.prems(4) by (auto simp: step_defs)
  show ?case
  proof (cases kvs)
    case Nil
    then show ?thesis by (simp add: kv start j del: json_run.simps) (simp add: step_defs)
  next
    case (Cons kv' kvs')
    have "json_run (commas (map (\<lambda>(k, v). TStr k # TColon # json_tokens v) kvs) @ TRBrace # ts) (FObj ((k, j) # vs) # fs, Key) =
        json_run ts (fs, Complete (JObj (rev ((k, j) # vs) @ kvs)))"
      using Cons Cons.prems by (intro Cons.IH) auto
    then show ?thesis by (simp add: kv start j Cons del: json_run.simps) (simp add: step_defs)
  qed
qed simp

lemma run_value:
  "length fs + nesting j \<le> max_nesting \<Longrightarrow> json_run (json_tokens j @ ts) (fs, Value) = json_run ts (fs, Complete j)"
proof (induction j arbitrary: fs ts rule: json_tokens.induct)
  case (5 js)
  have room: "length fs < max_nesting" using 5(2) by simp
  have all: "\<forall>j \<in> set js. Suc (length fs) + nesting j \<le> max_nesting"
    using 5(2) nesting_arr by fastforce
  show ?case
  proof (cases js)
    case Nil
    then show ?thesis using room by (simp add: step_defs)
  next
    case (Cons j js')
    obtain t ts' where t: "commas (map json_tokens js) = t # ts'" "t \<noteq> TRBrack"
      using json_tokens_start [of j] by (cases js') (auto simp: Cons)
    have "json_run (json_tokens (JArr js) @ ts) (fs, Value) =
        json_run (commas (map json_tokens js) @ TRBrack # ts) (FArr [] # fs, ArrStart)"
      using room by (simp add: step_defs)
    also have "\<dots> = json_run (commas (map json_tokens js) @ TRBrack # ts) (FArr [] # fs, Value)"
      using t by (intro run_first) auto
    also have "\<dots> = json_run ts (fs, Complete (JArr (rev [] @ js)))"
      using 5(1) all Cons by (intro run_elements) auto
    finally show ?thesis by simp
  qed
next
  case (6 kvs)
  have room: "length fs < max_nesting" using 6(2) by simp
  have all: "\<forall>(k, j) \<in> set kvs. Suc (length fs) + nesting j \<le> max_nesting"
    using 6(2) nesting_obj by fastforce
  have "json_run (json_tokens (JObj kvs) @ ts) (fs, Value) =
      json_run (commas (map (\<lambda>(k, v). TStr k # TColon # json_tokens v) kvs) @ TRBrace # ts) (FObj [] # fs, ObjStart)"
    using room by (simp add: step_defs)
  also have "\<dots> = json_run ts (fs, Complete (JObj kvs))"
  proof (cases "kvs = []")
    case False
    have "json_run (commas (map (\<lambda>(k, v). TStr k # TColon # json_tokens v) kvs) @ TRBrace # ts) (FObj [] # fs, ObjStart) =
        json_run ts (fs, Complete (JObj (rev [] @ kvs)))"
      using 6(1) all False by (intro run_fields) auto
    then show ?thesis by simp
  qed (simp add: step_defs)
  finally show ?case .
qed (simp_all add: step_defs)

section \<open>Writing texts\<close>

definition quote_char :: "char \<Rightarrow> string" where
  "quote_char c = (if c = CHR 0x22 \<or> c = CHR 0x5C then [CHR 0x5C, c] else [c])"

definition quote :: "string \<Rightarrow> string" where
  "quote s = concat (map quote_char s)"

fun token_text :: "token \<Rightarrow> string" where
  "token_text TLBrace = ''{''"
| "token_text TRBrace = ''}''"
| "token_text TLBrack = ''[''"
| "token_text TRBrack = '']''"
| "token_text TColon = '':''"
| "token_text TComma = '',''"
| "token_text (TStr s) = [CHR 0x22] @ quote s @ [CHR 0x22]"
| "token_text (TNum s) = s"
| "token_text TTrue = ''true''"
| "token_text TFalse = ''false''"
| "token_text TNull = ''null''"

text \<open>Strings of printable ASCII characters.\<close>

definition printable :: "string \<Rightarrow> bool" where
  "printable s \<longleftrightarrow> list_all (\<lambda>c. 32 \<le> (of_char c :: nat) \<and> (of_char c :: nat) < 127) s"

lemma string_text_quote:
  "printable s \<Longrightarrow> string_text (quote s @ CHR 0x22 # r) = Some (quote s, r)"
proof (induction s)
  case Nil
  then show ?case by (cases r) (simp_all add: quote_def)
next
  case (Cons c s)
  have rest: "string_text (quote s @ CHR 0x22 # r) = Some (quote s, r)" using Cons by (simp add: printable_def)
  obtain e t where e: "quote s @ CHR 0x22 # r = e # t" by (cases "quote s") auto
  have c: "\<not> (of_char c :: nat) < 32" using Cons.prems by (simp add: printable_def)
  show ?case
  proof (cases "c = CHR 0x22 \<or> c = CHR 0x5C")
    case True
    then have "quote (c # s) = CHR 0x5C # c # quote s" by (auto simp: quote_def quote_char_def)
    moreover have "escape_char c \<noteq> None" and "c \<noteq> CHR ''u''" using True by (auto simp: escape_char_def)
    ultimately show ?thesis using rest by simp
  next
    case False
    then have "quote (c # s) = c # quote s" by (simp add: quote_def quote_char_def)
    then show ?thesis using False rest c e by simp
  qed
qed

lemma unquote_quote: "printable s \<Longrightarrow> unquote (quote s) = s"
proof (induction s)
  case Nil
  then show ?case by (simp add: quote_def)
next
  case (Cons c s)
  have rest: "unquote (quote s) = s" using Cons by (simp add: printable_def)
  show ?case
  proof (cases "c = CHR 0x22 \<or> c = CHR 0x5C")
    case True
    then have "quote (c # s) = CHR 0x5C # c # quote s" by (auto simp: quote_def quote_char_def)
    moreover have "escape_char c = Some c" and "c \<noteq> CHR ''u''" using True by (auto simp: escape_char_def)
    ultimately show ?thesis using rest by simp
  next
    case False
    then have "quote (c # s) = c # quote s" by (simp add: quote_def quote_char_def)
    moreover have "rune_size (map of_char (c # quote s)) = 1" using Cons.prems by (simp add: printable_def)
    ultimately show ?thesis using False rest by simp
  qed
qed

lemma tokens_punctuation: "punctuation c = Some t \<Longrightarrow> tokens (c # s) = map_option (\<lambda>ts. t # ts) (tokens s)"
proof -
  assume c: "punctuation c = Some t"
  have "punctuation d = None" if "json_space d" for d
    using that by (auto simp: json_space_def punctuation_def)
  then have "\<not> json_space c" by (metis c option.distinct(1))
  with tokens.simps(2) [of c s] c show ?thesis by (simp only: if_False option.case)
qed

lemma tokens_words:
  "tokens (''true'' @ s) = map_option (\<lambda>ts. TTrue # ts) (tokens s)"
  "tokens (''false'' @ s) = map_option (\<lambda>ts. TFalse # ts) (tokens s)"
  "tokens (''null'' @ s) = map_option (\<lambda>ts. TNull # ts) (tokens s)"
proof -
  have "\<forall>c \<in> {CHR ''t'', CHR ''f'', CHR ''n''}. \<not> json_space c \<and> punctuation c = None \<and> c \<noteq> CHR 0x22 \<and> \<not> number_char c"
    by code_simp
  then have plain: "\<not> json_space c \<and> punctuation c = None \<and> c \<noteq> CHR 0x22 \<and> \<not> number_char c"
    if "c \<in> {CHR ''t'', CHR ''f'', CHR ''n''}" for c using that by (rule bspec)
  have words: "has_prefix (CHR ''t'' # ''rue'' @ s) ''true''" "\<not> has_prefix (CHR ''f'' # ''alse'' @ s) ''true''"
    "has_prefix (CHR ''f'' # ''alse'' @ s) ''false''" "\<not> has_prefix (CHR ''n'' # ''ull'' @ s) ''true''"
    "\<not> has_prefix (CHR ''n'' # ''ull'' @ s) ''false''" "has_prefix (CHR ''n'' # ''ull'' @ s) ''null''"
    by (simp_all add: has_prefix_def)
  have rest: "drop 3 (''rue'' @ s) = s" "drop 4 (''alse'' @ s) = s" "drop 3 (''ull'' @ s) = s" by simp_all
  have "tokens (CHR ''t'' # ''rue'' @ s) = map_option (\<lambda>ts. TTrue # ts) (tokens s)"
    using plain [of "CHR ''t''"] by (subst tokens.simps) (simp only: words rest if_True if_False option.case insertI1 simp_thms)
  then show "tokens (''true'' @ s) = map_option (\<lambda>ts. TTrue # ts) (tokens s)" by (simp only: append_Cons)
  have "tokens (CHR ''f'' # ''alse'' @ s) = map_option (\<lambda>ts. TFalse # ts) (tokens s)"
    using plain [of "CHR ''f''"] by (subst tokens.simps) (simp only: words rest if_True if_False option.case insert_iff simp_thms)
  then show "tokens (''false'' @ s) = map_option (\<lambda>ts. TFalse # ts) (tokens s)" by (simp only: append_Cons)
  have "tokens (CHR ''n'' # ''ull'' @ s) = map_option (\<lambda>ts. TNull # ts) (tokens s)"
    using plain [of "CHR ''n''"] by (subst tokens.simps) (simp only: words rest if_True if_False option.case insert_iff simp_thms)
  then show "tokens (''null'' @ s) = map_option (\<lambda>ts. TNull # ts) (tokens s)" by (simp only: append_Cons)
qed

text \<open>A token is read back when what follows cannot continue a number.\<close>

definition writable :: "token \<Rightarrow> bool" where
  "writable t \<longleftrightarrow> (case t of TStr s \<Rightarrow> printable s | TNum s \<Rightarrow> valid_number s \<and> list_all number_char s | _ \<Rightarrow> True)"

lemma number_char_plain: "number_char c \<Longrightarrow> \<not> json_space c \<and> punctuation c = None \<and> c \<noteq> CHR 0x22"
proof -
  let ?special = "{CHR '' '', CHR 0x09, CHR 0x0A, CHR 0x0D, CHR ''{'', CHR ''}'', CHR ''['', CHR '']'', CHR '':'', CHR '','', CHR 0x22}"
  have "\<not> number_char d" if "d \<in> ?special" for d
    using that by (auto simp: number_char_def is_digit_def digit_val_def)
  then have "c \<notin> ?special" if "number_char c" using that by blast
  moreover assume "number_char c"
  ultimately show ?thesis by (simp add: json_space_def punctuation_def)
qed

lemma tokens_token:
  assumes "writable t" and "\<And>s'. t = TNum s' \<Longrightarrow> s = [] \<or> \<not> number_char (hd s)"
  shows "tokens (token_text t @ s) = map_option (\<lambda>ts. t # ts) (tokens s)"
proof (cases t)
  case (TStr x)
  then have x: "printable x" using assms(1) by (simp add: writable_def)
  show ?thesis
    using string_text_quote [OF x, of s] unquote_quote [OF x] by (simp add: TStr tokens.simps(2) json_space_def punctuation_def)
next
  case (TNum x)
  have x: "valid_number x" "list_all number_char x" using assms(1) by (simp_all add: writable_def TNum)
  obtain c x' where c: "x = c # x'" using x(1) by (cases x) (auto simp: valid_number_def digits_def has_prefix_def)
  have stop: "s = [] \<or> \<not> number_char (hd s)" by (rule assms(2) [OF TNum])
  have all: "\<And>d. d \<in> set x' \<Longrightarrow> number_char d" "number_char c" using x(2) by (auto simp: c list_all_iff)
  have take: "takeWhile number_char (x' @ s) = x'" and drop: "dropWhile number_char (x' @ s) = s"
    using all(1) stop by (cases s; simp add: takeWhile_append2 dropWhile_append2)+
  show ?thesis
    using number_char_plain [OF all(2)] all(2) x(1) by (simp add: TNum c take drop tokens.simps(2))
qed (simp_all only: token_text.simps tokens_words, simp_all add: tokens_punctuation punctuation_def del: tokens.simps)

text \<open>After a number comes a comma or the end of a container.\<close>

definition may_follow :: "token \<Rightarrow> token \<Rightarrow> bool" where
  "may_follow t t' \<longleftrightarrow> (case t of TNum _ \<Rightarrow> t' \<in> {TComma, TRBrack, TRBrace} | _ \<Rightarrow> True)"

lemma may_follow_simps [simp]:
  "may_follow t TComma" "may_follow t TRBrack" "may_follow t TRBrace" "may_follow TComma t" "may_follow TLBrack t"
  "may_follow TLBrace t" "may_follow TColon t" "may_follow (TStr s) t"
  by (simp_all add: may_follow_def split: token.split)

lemma commas_follow: "\<forall>ts \<in> set tss. successively may_follow ts \<Longrightarrow> successively may_follow (commas tss)"
  by (induction tss rule: commas.induct) (auto simp: successively_append_iff successively_Cons)

lemma json_tokens_follow: "successively may_follow (json_tokens j)"
proof (induction j rule: json_tokens.induct)
  case (5 js)
  then have "successively may_follow (commas (map json_tokens js))" by (intro commas_follow) auto
  then show ?case by (simp add: successively_Cons successively_append_iff)
next
  case (6 kvs)
  have "successively may_follow (TStr k # TColon # json_tokens v)" if "(k, v) \<in> set kvs" for k v
    using 6 [OF that] by (simp add: successively_Cons)
  then have "successively may_follow (commas (map (\<lambda>(k, v). TStr k # TColon # json_tokens v) kvs))"
    by (intro commas_follow) auto
  then show ?case by (simp add: successively_Cons successively_append_iff)
qed simp_all

lemma tokens_texts:
  "\<forall>t \<in> set ts. writable t \<Longrightarrow> successively may_follow ts \<Longrightarrow> tokens (concat (map token_text ts)) = Some ts"
proof (induction ts)
  case (Cons t ts)
  have stop: "concat (map token_text ts) = [] \<or> \<not> number_char (hd (concat (map token_text ts)))" if "t = TNum x" for x
  proof (cases ts)
    case (Cons t' ts')
    then have "t' \<in> {TComma, TRBrack, TRBrace}" using Cons.prems(2) that by (simp add: may_follow_def)
    moreover have "\<forall>c \<in> {CHR '','', CHR '']'', CHR ''}''}. \<not> number_char c" by code_simp
    ultimately show ?thesis using Cons by auto
  qed simp
  have "tokens (concat (map token_text ts)) = Some ts"
    using Cons.prems by (intro Cons.IH) (auto simp: successively_Cons)
  moreover have "writable t" using Cons.prems(1) by simp
  ultimately show ?case using tokens_token [OF _ stop] by simp
qed simp

definition json_text :: "json \<Rightarrow> bytes" where
  "json_text j = concat (map token_text (json_tokens j))"

lemma json_roundtrip:
  assumes "\<forall>t \<in> set (json_tokens j). writable t" and "nesting j \<le> max_nesting"
  shows "json_parse (json_text j) = Some j"
proof -
  have "tokens (json_text j) = Some (json_tokens j)"
    using tokens_texts [OF assms(1) json_tokens_follow] by (simp only: json_text_def)
  moreover have "json_run (json_tokens j) ([], Value) = Some ([], Complete j)"
    using run_value [of "[]" j "[]"] assms(2) by simp
  ultimately show ?thesis by (simp add: json_parse_def)
qed

end
