(* ===== verification/Config.thy ===== *)
theory Config
  imports Json Scheduler
begin

text \<open>
  \<open>LoadConfigFile\<close> (\<open>config.go\<close>): the configuration file read from JSON, as
  \<open>encoding/json\<close> stores it into the fields of \<open>ConfigFile\<close> by their tags.
\<close>

section \<open>Matching keys\<close>

text \<open>
  \<open>equalFoldRight\<close>: letters of a name match in either case, and an s or k also the long s
  or the sign of Kelvin.
\<close>

definition fold_case :: "char \<Rightarrow> nat" where
  "fold_case c = (let n = (of_char c :: nat) in if 97 \<le> n \<and> n \<le> 122 then n - 32 else n)"

function (sequential) equal_fold :: "string \<Rightarrow> string \<Rightarrow> bool" where
  "equal_fold [] t = (t = [])"
| "equal_fold (c # s) [] = False"
| "equal_fold (c # s) (d # t) =
     (if (of_char d :: nat) < 128 then fold_case c = fold_case d \<and> equal_fold s t
      else if c \<in> set ''sS'' \<and> take 2 (d # t) = [CHR 0xC5, CHR 0xBF] then equal_fold s (drop 1 t)
      else if c \<in> set ''kK'' \<and> take 3 (d # t) = [CHR 0xE2, CHR 0x84, CHR 0xAA] then equal_fold s (drop 2 t)
      else False)"
  by pat_completeness auto
termination by (relation "measure (length \<circ> fst)") auto

text \<open>The tags; an exact match is preferred, then the first that matches in any case.\<close>

definition config_fields :: "string list" where
  "config_fields = [''port'', ''cache_root'', ''token_expiry_delta_seconds'', ''enable_metrics'',
     ''pack_objects_hook'', ''pack_objects_cache'', ''repositories'']"

definition find_field :: "string \<Rightarrow> string option" where
  "find_field key =
     (if key \<in> set config_fields then Some key else List.find (\<lambda>name. equal_fold name key) config_fields)"

section \<open>Storing values\<close>

text \<open>
  A syntax error, found before anything is stored; or the first value that does not fit its
  field (what it is, the field and its type), while the others are stored.
\<close>

datatype json_error = JsonSyntax | JsonType string string string

definition kind_of :: "json \<Rightarrow> string" where
  "kind_of j = (case j of
      JNull \<Rightarrow> ''null'' | JBool _ \<Rightarrow> ''bool'' | JNum _ \<Rightarrow> ''number'' | JStr _ \<Rightarrow> ''string''
    | JArr _ \<Rightarrow> ''array'' | JObj _ \<Rightarrow> ''object'')"

definition first_error :: "json_error option \<Rightarrow> json_error option \<Rightarrow> json_error option" where
  "first_error e e' = (case e of None \<Rightarrow> e' | Some _ \<Rightarrow> e)"

text \<open>Null leaves a field as it is, except a slice.\<close>

definition store_int :: "string \<Rightarrow> json \<Rightarrow> int \<Rightarrow> int \<times> json_error option" where
  "store_int f j old =
     (case j of
        JNull \<Rightarrow> (old, None)
      | JNum s \<Rightarrow> (case parse_int s of (n, ok) \<Rightarrow> if ok then (n, None) else (old, Some (JsonType (''number '' @ s) f ''int'')))
      | _ \<Rightarrow> (old, Some (JsonType (kind_of j) f ''int'')))"

definition store_string :: "string \<Rightarrow> json \<Rightarrow> string \<Rightarrow> string \<times> json_error option" where
  "store_string f j old =
     (case j of
        JNull \<Rightarrow> (old, None)
      | JStr s \<Rightarrow> (s, None)
      | _ \<Rightarrow> (old, Some (JsonType (kind_of j) f ''string'')))"

definition store_bool :: "string \<Rightarrow> json \<Rightarrow> bool \<Rightarrow> bool \<times> json_error option" where
  "store_bool f j old =
     (case j of
        JNull \<Rightarrow> (old, None)
      | JBool b \<Rightarrow> (b, None)
      | _ \<Rightarrow> (old, Some (JsonType (kind_of j) f ''bool'')))"

text \<open>The elements are stored over those the slice has; new ones are empty first.\<close>

fun store_elements :: "string \<Rightarrow> json list \<Rightarrow> string list \<Rightarrow> string list \<times> json_error option" where
  "store_elements f [] old = ([], None)"
| "store_elements f (j # js) old =
     (let (s, e) = store_string f j (if old = [] then [] else hd old);
          (ss, e') = store_elements f js (tl old)
      in (s # ss, first_error e e'))"

definition store_strings :: "string \<Rightarrow> json \<Rightarrow> string list \<Rightarrow> string list \<times> json_error option" where
  "store_strings f j old =
     (case j of
        JNull \<Rightarrow> ([], None)
      | JArr js \<Rightarrow> store_elements f js old
      | _ \<Rightarrow> (old, Some (JsonType (kind_of j) f ''[]string'')))"

definition store_field :: "string \<Rightarrow> json \<Rightarrow> config_file \<Rightarrow> config_file \<times> json_error option" where
  "store_field key j cf =
     (case find_field key of
        None \<Rightarrow> (cf, None)
      | Some f \<Rightarrow>
          if f = ''port'' then map_prod (\<lambda>v. cf\<lparr>cf_port := v\<rparr>) id (store_int f j (cf_port cf))
          else if f = ''cache_root'' then map_prod (\<lambda>v. cf\<lparr>cf_cache_root := v\<rparr>) id (store_string f j (cf_cache_root cf))
          else if f = ''token_expiry_delta_seconds'' then
            map_prod (\<lambda>v. cf\<lparr>cf_token_expiry_delta_seconds := v\<rparr>) id (store_int f j (cf_token_expiry_delta_seconds cf))
          else if f = ''enable_metrics'' then
            map_prod (\<lambda>v. cf\<lparr>cf_enable_metrics := v\<rparr>) id (store_bool f j (cf_enable_metrics cf))
          else if f = ''pack_objects_hook'' then
            map_prod (\<lambda>v. cf\<lparr>cf_pack_objects_hook := v\<rparr>) id (store_string f j (cf_pack_objects_hook cf))
          else if f = ''pack_objects_cache'' then
            map_prod (\<lambda>v. cf\<lparr>cf_pack_objects_cache := v\<rparr>) id (store_string f j (cf_pack_objects_cache cf))
          else map_prod (\<lambda>v. cf\<lparr>cf_repositories := v\<rparr>) id (store_strings f j (cf_repositories cf)))"

fun store_fields :: "(string \<times> json) list \<Rightarrow> config_file \<Rightarrow> config_file \<times> json_error option" where
  "store_fields [] cf = (cf, None)"
| "store_fields ((key, j) # kvs) cf =
     (let (cf1, e) = store_field key j cf;
          (cf2, e') = store_fields kvs cf1
      in (cf2, first_error e e'))"

definition store_config :: "json \<Rightarrow> config_file \<Rightarrow> config_file \<times> json_error option" where
  "store_config j cf =
     (case j of
        JNull \<Rightarrow> (cf, None)
      | JObj kvs \<Rightarrow> store_fields kvs cf
      | _ \<Rightarrow> (cf, Some (JsonType (kind_of j) [] ''goblet.ConfigFile'')))"

definition unmarshal_config :: "bytes \<Rightarrow> config_file \<Rightarrow> config_file \<times> json_error option" where
  "unmarshal_config b cf =
     (case json_parse b of
        None \<Rightarrow> (cf, Some JsonSyntax)
      | Some j \<Rightarrow> store_config j cf)"

section \<open>LoadConfigFile\<close>

definition zero_config :: config_file where
  "zero_config = \<lparr>cf_port = 0, cf_cache_root = [], cf_token_expiry_delta_seconds = 0, cf_enable_metrics = False,
     cf_pack_objects_hook = [], cf_pack_objects_cache = [], cf_repositories = []\<rparr>"

datatype load_error = ReadError go_error | DecodeError json_error

definition load_config_file :: "(string \<Rightarrow> go_error + bytes) \<Rightarrow> string \<Rightarrow> config_file \<times> load_error option" where
  "load_config_file read_file path =
     (case read_file path of
        Inl e \<Rightarrow> (zero_config, Some (ReadError e))
      | Inr bytes \<Rightarrow> map_prod id (map_option DecodeError) (unmarshal_config bytes zero_config))"

section \<open>Writing a configuration\<close>

text \<open>\<open>json.Marshal\<close> of \<open>ConfigFile\<close>: fields tagged omitempty are left out when they are empty.\<close>

definition config_json :: "config_file \<Rightarrow> json" where
  "config_json cf = JObj
     ([(''port'', JNum (show_int (cf_port cf))), (''cache_root'', JStr (cf_cache_root cf)),
       (''token_expiry_delta_seconds'', JNum (show_int (cf_token_expiry_delta_seconds cf)))] @
      (if cf_enable_metrics cf then [(''enable_metrics'', JBool True)] else []) @
      (if cf_pack_objects_hook cf \<noteq> [] then [(''pack_objects_hook'', JStr (cf_pack_objects_hook cf))] else []) @
      (if cf_pack_objects_cache cf \<noteq> [] then [(''pack_objects_cache'', JStr (cf_pack_objects_cache cf))] else []) @
      (if cf_repositories cf \<noteq> [] then [(''repositories'', JArr (map JStr (cf_repositories cf)))] else []))"

section \<open>Numbers\<close>

lemma show_nat_digits: "list_all is_digit (show_nat n) \<and> show_nat n \<noteq> [] \<and> (hd (show_nat n) = CHR ''0'' \<longrightarrow> n = 0)"
proof (induction n rule: show_nat.induct)
  case (1 n)
  have zero: "digit_char d = CHR ''0'' \<Longrightarrow> d = 0" if "d < 10" for d
    using digit_val_char [OF that] by (auto simp: digit_val_def)
  show ?case
    using 1 show_nat.simps [of n] zero [of n]
    by (cases "n < 10") (auto simp: is_digit_def digit_val_char)
qed

definition int64 :: "int \<Rightarrow> bool" where
  "int64 n \<longleftrightarrow> - (2 ^ 63) \<le> n \<and> n < 2 ^ 63"

lemma digit_not_sign: "is_digit c \<Longrightarrow> c \<noteq> CHR ''-'' \<and> c \<noteq> CHR ''+'' \<and> c \<noteq> CHR ''.''"
  by (auto simp: is_digit_def digit_val_def)

lemma show_nat_head: "\<not> has_prefix (show_nat n) ''-'' \<and> \<not> has_prefix (show_nat n) ''+''"
proof -
  obtain c s where s: "show_nat n = c # s" "is_digit c" using show_nat_digits [of n] by (cases "show_nat n") auto
  with digit_not_sign [OF s(2)] show ?thesis by (simp add: has_prefix_def)
qed

lemma parse_show_int:
  assumes "int64 n"
  shows "parse_int (show_int n) = (n, True)"
proof -
  have digits: "parse_digits (show_nat k) = Some k" for k
    using digits_val_show_nat show_nat_digits by (simp add: parse_digits_def)
  show ?thesis
  proof (cases "n < 0")
    case True
    then have "show_int n = CHR ''-'' # show_nat (nat (- n))" by (simp add: show_int_def)
    moreover have "nat (- n) \<le> 2 ^ 63" using assms by (simp add: int64_def nat_le_iff)
    ultimately show ?thesis using True digits by (simp add: parse_int_def has_prefix_def)
  next
    case False
    then have "show_int n = show_nat (nat n)" by (simp add: show_int_def)
    moreover have "nat n < 2 ^ 63" using assms False by (simp add: int64_def nat_less_iff)
    ultimately show ?thesis using False digits show_nat_head by (simp add: parse_int_def)
  qed
qed

lemma valid_show_nat: "takeWhile is_digit (show_nat n) = show_nat n" "dropWhile is_digit (show_nat n) = []"
  using show_nat_digits [of n] by (simp_all add: list_all_iff)

lemma show_nat_zero: "show_nat 0 = ''0''"
proof -
  have "digit_char 0 = CHR ''0''" by code_simp
  then show ?thesis by (subst show_nat.simps) simp
qed

lemma writable_show_int: "writable (TNum (show_int n))"
proof -
  have nat: "digits (show_nat k) \<and> (hd (show_nat k) = CHR ''0'' \<longrightarrow> length (show_nat k) = 1) \<and> valid_fraction []" for k
    using show_nat_digits [of k] show_nat_zero by (auto simp: digits_def valid_fraction_def valid_exponent_def)
  have "list_all number_char (show_nat k)" for k
    using show_nat_digits [of k] by (auto simp: list_all_iff number_char_def)
  moreover have "number_char CHR ''-''" by (simp add: number_char_def)
  ultimately have chars: "list_all number_char (show_int n)" by (simp add: show_int_def)
  have "valid_number (show_int n)"
  proof (cases "n < 0")
    case True
    then show ?thesis
      using nat [of "nat (- n)"] by (simp only: show_int_def valid_number_def has_prefix_append if_True Let_def) (simp add: valid_show_nat)
  next
    case False
    then show ?thesis
      using nat [of "nat n"] by (simp add: show_int_def valid_number_def Let_def show_nat_head valid_show_nat)
  qed
  with chars show ?thesis by (simp add: writable_def)
qed

section \<open>What is stored\<close>

lemma find_field_name: "name \<in> set config_fields \<Longrightarrow> find_field name = Some name"
  by (simp add: find_field_def)

lemma find_field_known: "find_field key = Some f \<Longrightarrow> f \<in> set config_fields"
  by (auto simp: find_field_def find_Some_iff split: if_splits)

lemma find_fields [simp]:
  "find_field ''port'' = Some ''port''" "find_field ''cache_root'' = Some ''cache_root''"
  "find_field ''token_expiry_delta_seconds'' = Some ''token_expiry_delta_seconds''"
  "find_field ''enable_metrics'' = Some ''enable_metrics''" "find_field ''pack_objects_hook'' = Some ''pack_objects_hook''"
  "find_field ''pack_objects_cache'' = Some ''pack_objects_cache''" "find_field ''repositories'' = Some ''repositories''"
  by (rule find_field_name; simp add: config_fields_def)+

lemma store_elements_strings: "store_elements f (map JStr ss) old = (ss, None)"
  by (induction ss arbitrary: old) (simp_all add: store_string_def first_error_def)

definition int_fields :: "string list" where
  "int_fields = [''port'', ''token_expiry_delta_seconds'']"

text \<open>A value fits a field when it is null or of the type of the field, and a number a 64-bit integer.\<close>

definition fits_string :: "json \<Rightarrow> bool" where
  "fits_string j \<longleftrightarrow> j = JNull \<or> (\<exists>s. j = JStr s)"

definition fits_field :: "string \<Rightarrow> json \<Rightarrow> bool" where
  "fits_field f j \<longleftrightarrow>
     j = JNull \<or>
     (if f \<in> set int_fields then (\<exists>s. j = JNum s \<and> snd (parse_int s))
      else if f = ''enable_metrics'' then (\<exists>b. j = JBool b)
      else if f = ''repositories'' then (\<exists>js. j = JArr js \<and> list_all fits_string js)
      else (\<exists>s. j = JStr s))"

lemma store_string_fits: "snd (store_string f j old) = None \<longleftrightarrow> fits_string j"
  by (cases j) (simp_all add: store_string_def fits_string_def)

lemma store_elements_fits: "snd (store_elements f js old) = None \<longleftrightarrow> list_all fits_string js"
proof (induction js arbitrary: old)
  case (Cons j js)
  let ?first = "store_string f j (if old = [] then [] else hd old)"
  have "snd (store_elements f (j # js) old) = None \<longleftrightarrow> snd ?first = None \<and> snd (store_elements f js (tl old)) = None"
    by (simp add: split_beta Let_def first_error_def split: option.split)
  then show ?case by (simp only: store_string_fits Cons.IH list.pred_inject(2))
qed simp

lemma store_int_fits: "snd (store_int f j old) = None \<longleftrightarrow> j = JNull \<or> (\<exists>s. j = JNum s \<and> snd (parse_int s))"
  by (cases j) (simp_all add: store_int_def split_beta)

lemma store_bool_fits: "snd (store_bool f j old) = None \<longleftrightarrow> j = JNull \<or> (\<exists>b. j = JBool b)"
  by (cases j) (simp_all add: store_bool_def)

lemma store_strings_fits: "snd (store_strings f j old) = None \<longleftrightarrow> j = JNull \<or> (\<exists>js. j = JArr js \<and> list_all fits_string js)"
  by (cases j) (simp_all add: store_strings_def store_elements_fits)

lemma store_field_fits: "snd (store_field key j cf) = None \<longleftrightarrow> (\<forall>f. find_field key = Some f \<longrightarrow> fits_field f j)"
proof (cases "find_field key")
  case (Some f)
  have "f \<in> set config_fields" by (rule find_field_known [OF Some])
  then show ?thesis
    by (auto simp: Some store_field_def config_fields_def fits_field_def int_fields_def store_int_fits store_bool_fits
        store_strings_fits store_string_fits fits_string_def)
qed (simp add: store_field_def)

lemma store_fields_fits:
  "snd (store_fields kvs cf) = None \<longleftrightarrow> (\<forall>(key, j) \<in> set kvs. \<forall>f. find_field key = Some f \<longrightarrow> fits_field f j)"
proof (induction kvs arbitrary: cf)
  case (Cons kv kvs)
  obtain key j where kv: "kv = (key, j)" by fastforce
  have "snd (store_fields (kv # kvs) cf) = None \<longleftrightarrow>
      snd (store_field key j cf) = None \<and> snd (store_fields kvs (fst (store_field key j cf))) = None"
    by (simp add: kv split_beta Let_def first_error_def split: option.split)
  then show ?case by (simp add: kv Cons.IH store_field_fits)
qed simp

lemma store_config_fits:
  "snd (store_config j cf) = None \<longleftrightarrow>
     j = JNull \<or> (\<exists>kvs. j = JObj kvs \<and> (\<forall>(key, v) \<in> set kvs. \<forall>f. find_field key = Some f \<longrightarrow> fits_field f v))"
  by (cases j) (simp_all add: store_config_def store_fields_fits)

lemma set_commas: "set (commas tss) \<subseteq> insert TComma (\<Union> (set ` set tss))"
  by (induction tss rule: commas.induct) auto

definition json_writable :: "json \<Rightarrow> bool" where
  "json_writable j \<longleftrightarrow> (\<forall>t \<in> set (json_tokens j). writable t)"

lemma writable_marks [simp]:
  "writable TLBrace" "writable TRBrace" "writable TLBrack" "writable TRBrack" "writable TColon" "writable TComma"
  "writable TTrue" "writable TFalse" "writable TNull" "writable (TStr s) = printable s"
  by (simp_all add: writable_def)

lemma json_writable_obj:
  assumes "\<And>k v. (k, v) \<in> set kvs \<Longrightarrow> printable k \<and> json_writable v"
  shows "json_writable (JObj kvs)"
  using set_commas [of "map (\<lambda>(k, v). TStr k # TColon # json_tokens v) kvs"] assms
  by (fastforce simp: json_writable_def)

lemma json_writable_strings: "\<forall>s \<in> set ss. printable s \<Longrightarrow> json_writable (JArr (map JStr ss))"
  using set_commas [of "map (\<lambda>s. [TStr s]) ss"] by (fastforce simp: json_writable_def comp_def)

section \<open>Written configurations\<close>

lemma config_json_parses:
  assumes "\<forall>s \<in> {cf_cache_root cf, cf_pack_objects_hook cf, cf_pack_objects_cache cf} \<union> set (cf_repositories cf). printable s"
  shows "json_parse (json_text (config_json cf)) = Some (config_json cf)"
proof -
  have names: "printable f" if "f \<in> set config_fields" for f
    using that by (auto simp: config_fields_def printable_def)
  have strings: "json_writable (JStr s)"
    if "s \<in> {cf_cache_root cf, cf_pack_objects_hook cf, cf_pack_objects_cache cf} \<union> set (cf_repositories cf)" for s
    using assms that by (auto simp: json_writable_def)
  have nums: "json_writable (JNum (show_int n))" for n using writable_show_int by (simp add: json_writable_def)
  have repos: "json_writable (JArr (map JStr (cf_repositories cf)))" using assms by (intro json_writable_strings) simp
  have yes: "json_writable (JBool True)" by (simp add: json_writable_def)
  have "json_writable (config_json cf)"
    unfolding config_json_def
  proof (rule json_writable_obj)
    fix k v
    assume kv: "(k, v) \<in> set ([(''port'', JNum (show_int (cf_port cf))), (''cache_root'', JStr (cf_cache_root cf)),
       (''token_expiry_delta_seconds'', JNum (show_int (cf_token_expiry_delta_seconds cf)))] @
      (if cf_enable_metrics cf then [(''enable_metrics'', JBool True)] else []) @
      (if cf_pack_objects_hook cf \<noteq> [] then [(''pack_objects_hook'', JStr (cf_pack_objects_hook cf))] else []) @
      (if cf_pack_objects_cache cf \<noteq> [] then [(''pack_objects_cache'', JStr (cf_pack_objects_cache cf))] else []) @
      (if cf_repositories cf \<noteq> [] then [(''repositories'', JArr (map JStr (cf_repositories cf)))] else []))"
    then have "k \<in> set config_fields" by (auto simp: config_fields_def split: if_splits)
    moreover have "json_writable v" using kv strings nums repos yes by (auto split: if_splits)
    ultimately show "printable k \<and> json_writable v" using names by blast
  qed
  then have "\<forall>t \<in> set (json_tokens (config_json cf)). writable t" by (simp only: json_writable_def)
  moreover have "nesting (JArr (map JStr ss)) = 1" for ss
    by (induction ss) simp_all
  then have "nesting (config_json cf) \<le> max_nesting" by (simp add: config_json_def max_nesting_def)
  ultimately show ?thesis by (rule json_roundtrip)
qed

lemma config_json_stored:
  assumes "int64 (cf_port cf)" and "int64 (cf_token_expiry_delta_seconds cf)"
  shows "store_config (config_json cf) zero_config = (cf, None)"
  using parse_show_int [OF assms(1)] parse_show_int [OF assms(2)]
  by (cases cf) (simp add: store_config_def config_json_def store_field_def store_int_def store_string_def store_bool_def
    store_strings_def store_elements_strings first_error_def zero_config_def)

section \<open>Properties\<close>

text \<open>
  C29: what the configuration accepts: loading ends without an error exactly when the file can
  be read, is JSON, and is null or an object in which every value whose key matches a field
  (in any case) is null or of that field's type, an integer within 64 bits.
\<close>

theorem config_accepted_iff:
  "snd (load_config_file read_file path) = None \<longleftrightarrow>
     (\<exists>bytes j. read_file path = Inr bytes \<and> json_parse bytes = Some j \<and>
        (j = JNull \<or> (\<exists>kvs. j = JObj kvs \<and> (\<forall>(key, v) \<in> set kvs. \<forall>f. find_field key = Some f \<longrightarrow> fits_field f v))))"
  unfolding load_config_file_def unmarshal_config_def
  by (cases "read_file path"; cases "json_parse (projr (read_file path))")
    (simp_all add: store_config_fits option.map_id)

text \<open>A key in another case, and one that matches no field.\<close>

definition demo_text :: string where
  "demo_text = ''{ '' @ [CHR 0x22] @ ''Port'' @ [CHR 0x22] @ '': 8080, '' @ [CHR 0x22] @ ''unknown'' @ [CHR 0x22] @ '': [true] }''"

theorem config_accepted_iff_witness:
  "snd (load_config_file (\<lambda>_. Inr demo_text) ''goblet.json'') = None"
proof -
  have parse: "json_parse demo_text = Some (JObj [(''Port'', JNum ''8080''), (''unknown'', JArr [JBool True])])" by code_simp
  have "find_field ''Port'' = Some ''port''" and "find_field ''unknown'' = None" by code_simp+
  moreover have "snd (parse_int ''8080'')"
    by (simp add: parse_int_def parse_digits_def has_prefix_def digit_val_def)
  ultimately have "\<forall>(key, v) \<in> set [(''Port'', JNum ''8080''), (''unknown'', JArr [JBool True])]. \<forall>f. find_field key = Some f \<longrightarrow> fits_field f v"
    by (simp add: fits_field_def int_fields_def)
  with parse config_accepted_iff [of "\<lambda>_. Inr demo_text" "''goblet.json''"] show ?thesis by blast
qed

text \<open>
  C30: round trip of the configuration: a file that \<open>json.Marshal\<close> wrote of a configuration
  loads as that configuration, the fields it left out included.
\<close>

theorem config_roundtrip:
  assumes "read_file path = Inr (json_text (config_json cf))"
    and "int64 (cf_port cf)" and "int64 (cf_token_expiry_delta_seconds cf)"
    and "\<forall>s \<in> {cf_cache_root cf, cf_pack_objects_hook cf, cf_pack_objects_cache cf} \<union> set (cf_repositories cf). printable s"
  shows "load_config_file read_file path = (cf, None)"
  using config_json_parses [OF assms(4)] config_json_stored [OF assms(2,3)]
  by (simp add: load_config_file_def assms(1) unmarshal_config_def)

theorem config_roundtrip_witness:
  "\<exists>text. load_config_file (\<lambda>_. Inr text) ''goblet.json'' = (zero_config\<lparr>cf_port := 8080, cf_cache_root := ''/cache'',
     cf_repositories := [''https://github.com/o/r'']\<rparr>, None)"
proof -
  let ?cf = "zero_config\<lparr>cf_port := 8080, cf_cache_root := ''/cache'', cf_repositories := [''https://github.com/o/r'']\<rparr>"
  have "load_config_file (\<lambda>_. Inr (json_text (config_json ?cf))) ''goblet.json'' = (?cf, None)"
  proof (rule config_roundtrip)
    show "Inr (json_text (config_json ?cf)) = Inr (json_text (config_json ?cf))" by (rule refl)
  qed (simp_all add: zero_config_def int64_def printable_def)
  then show ?thesis by blast
qed

text \<open>A value of the wrong type does not keep the others from being stored.\<close>

theorem bad_port_rest_stored:
  "store_config (JObj [(''port'', JStr ''x''), (''cache_root'', JStr ''/cache'')]) zero_config =
     (zero_config\<lparr>cf_cache_root := ''/cache''\<rparr>, Some (JsonType ''string'' ''port'' ''int''))"
  by (simp add: store_config_def store_field_def store_int_def store_string_def kind_of_def first_error_def zero_config_def)

end
