(* ===== verification/Metrics.thy ===== *)
theory Metrics
  imports Handler
begin

text \<open>
  The measures (\<open>goblet.go\<close>) and the views of them that \<open>goblet-server/main.go\<close> registers.
\<close>

section \<open>Measures and views\<close>

datatype measure =
    InboundCommandProcessingTime | OutboundCommandProcessingTime | UpstreamFetchWaitingTime
  | InboundCommandCount | OutboundCommandCount

datatype view_key = TagKey tag_key | CommandCanonicalStatusKey

datatype aggregation = Counts | Distribution "nat list"

record metric_view =
  v_name :: string
  v_description :: string
  v_keys :: "view_key list"
  v_measure :: measure
  v_aggregation :: aggregation

definition latency_distribution_aggregation :: aggregation where
  "latency_distribution_aggregation = Distribution
     [100, 200, 400, 800, 1000, 2000, 4000, 8000, 10000, 20000, 40000, 80000, 100000, 200000, 400000, 800000,
      1000000, 2000000, 4000000, 8000000]"

definition views :: "metric_view list" where
  "views =
     [\<lparr>v_name = ''github.com/google/goblet/inbound-command-count'', v_description = ''Inbound command count'',
        v_keys = [TagKey CommandTypeKey, CommandCanonicalStatusKey, TagKey CommandCacheStateKey],
        v_measure = InboundCommandCount, v_aggregation = Counts\<rparr>,
      \<lparr>v_name = ''github.com/google/goblet/inbound-command-latency'', v_description = ''Inbound command latency'',
        v_keys = [TagKey CommandTypeKey, CommandCanonicalStatusKey, TagKey CommandCacheStateKey],
        v_measure = InboundCommandProcessingTime, v_aggregation = latency_distribution_aggregation\<rparr>,
      \<lparr>v_name = ''github.com/google/goblet/outbound-command-count'', v_description = ''Outbound command count'',
        v_keys = [TagKey CommandTypeKey, CommandCanonicalStatusKey],
        v_measure = OutboundCommandCount, v_aggregation = Counts\<rparr>,
      \<lparr>v_name = ''github.com/google/goblet/outbound-command-latency'', v_description = ''Outbound command latency'',
        v_keys = [TagKey CommandTypeKey, CommandCanonicalStatusKey],
        v_measure = OutboundCommandProcessingTime, v_aggregation = latency_distribution_aggregation\<rparr>,
      \<lparr>v_name = ''github.com/google/goblet/upstream-fetch-blocking-time'',
        v_description = ''Duration that requests are waiting for git-fetch from the upstream'',
        v_keys = [], v_measure = UpstreamFetchWaitingTime, v_aggregation = latency_distribution_aggregation\<rparr>]"

section \<open>Registration\<close>

text \<open>
  What \<open>view.Register\<close> documents: it fails when two views of one name differ; and the bounds
  of a distribution have to be sorted.
\<close>

definition registrable :: "metric_view list \<Rightarrow> bool" where
  "registrable vs \<longleftrightarrow> distinct (map v_name vs) \<and>
     (\<forall>v \<in> set vs. case v_aggregation v of Counts \<Rightarrow> True | Distribution bounds \<Rightarrow> sorted_wrt (<) bounds)"

definition register_law :: "(metric_view list \<Rightarrow> go_error option) \<Rightarrow> bool" where
  "register_law register \<longleftrightarrow> (\<forall>vs. registrable vs \<longrightarrow> register vs = None)"

lemma views_registrable: "registrable views"
  by (simp add: registrable_def views_def latency_distribution_aggregation_def)

lemma views_register: "register_law register \<Longrightarrow> register views = None"
  using views_registrable by (simp add: register_law_def)

text \<open>Every measure has a view.\<close>

lemma every_measure_viewed: "\<exists>v \<in> set views. v_measure v = m"
  by (cases m) (simp_all add: views_def)

end
