(* ===== verification/Paths.thy ===== *)
theory Paths
  imports Canon
begin

text \<open>
  Facts on clean paths and on the paths that the canonicalizers return: where the directory
  of a repository lies in the cache.
\<close>

section \<open>Paths that are clean\<close>

lemma clean_elems_append:
  "''..'' \<notin> set xs \<Longrightarrow>
     clean_elems rooted out (xs @ ys) = clean_elems rooted (rev (filter (\<lambda>e. e \<noteq> [] \<and> e \<noteq> ''.'') xs) @ out) ys"
  by (induction xs arbitrary: out) auto

lemma clean_elems_parent:
  "out \<noteq> [] \<Longrightarrow> ''..'' \<notin> set out \<Longrightarrow> clean_elems True (rev out) [''..''] = butlast out"
  by (cases out rule: rev_cases) auto

lemma clean_elems_set:
  "e \<in> set (clean_elems rooted out es) \<Longrightarrow> e \<in> set out \<or> e \<in> set es \<and> e \<noteq> [] \<and> e \<noteq> ''.'' \<or> e = ''..''"
  by (induction rooted out es rule: clean_elems.induct) (auto split: if_splits dest: list.set_sel(2) [rotated])

lemma clean_elems_rooted: "''..'' \<notin> set out \<Longrightarrow> ''..'' \<notin> set (clean_elems True out es)"
  by (induction es arbitrary: out) (auto dest: list.set_sel(2) [rotated])

lemma path_clean_rooted:
  assumes "has_prefix s ''/''"
  shows "path_clean s = ''/'' @ join_with ''/'' (clean_elems True [] (split_on CHR ''/'' s))"
  using assms by (auto simp: path_clean_def has_prefix_def Let_def)

lemma clean_elems_elem:
  "e \<in> set (clean_elems True [] (split_on CHR ''/'' s)) \<Longrightarrow> CHR ''/'' \<notin> set e \<and> e \<noteq> [] \<and> e \<noteq> ''.''"
  using clean_elems_set [of e True "[]" "split_on CHR ''/'' s"] clean_elems_rooted [of "[]" "split_on CHR ''/'' s"]
  by (auto dest: split_on_parts_clean)

lemma path_clean_no_dotdot:
  assumes "has_prefix s ''/''"
  shows "no_dotdot (path_clean s)" and "has_prefix (path_clean s) ''/''"
proof -
  let ?es = "clean_elems True [] (split_on CHR ''/'' s)"
  have "split_on CHR ''/'' (join_with ''/'' ?es) = (if ?es = [] then [[]] else ?es)"
    using clean_elems_elem by (simp add: split_on_join)
  with clean_elems_rooted [of "[]" "split_on CHR ''/'' s"] show "no_dotdot (path_clean s)"
    unfolding path_clean_rooted [OF assms] by (simp split: if_splits)
  show "has_prefix (path_clean s) ''/''"
    unfolding path_clean_rooted [OF assms] by (rule has_prefix_append)
qed

section \<open>Canonical paths\<close>

lemma join_with_snoc: "xs \<noteq> [] \<Longrightarrow> join_with sep (xs @ [x]) = join_with sep xs @ sep @ x"
  by (induction sep xs rule: join_with.induct) auto

lemma split_on_snoc: "split_on c s = es @ [e] \<Longrightarrow> es \<noteq> [] \<Longrightarrow> s = join_with [c] es @ c # e"
  using join_split_on [of c s] join_with_snoc [of es "[c]" e] by simp

lemma no_dotdot_cut: "no_dotdot (s @ CHR ''/'' # t) \<Longrightarrow> no_dotdot s"
  by (simp add: split_on_split)

lemma strip_endpoint_no_dotdot: "no_dotdot p \<Longrightarrow> no_dotdot (strip_endpoint p)"
proof -
  assume p: "no_dotdot p"
  have cut: "no_dotdot (trim_suffix p (CHR ''/'' # t))" for t
  proof (cases "has_suffix p (CHR ''/'' # t)")
    case True
    then obtain r where "p = r @ CHR ''/'' # t" by (auto simp: has_suffix_iff)
    with p no_dotdot_cut show ?thesis by simp
  qed (simp add: trim_suffix_id p)
  show ?thesis using p cut by (simp add: strip_endpoint_def)
qed

text \<open>Cutting a suffix without a slash changes the last element only.\<close>

lemma split_on_trim_suffix:
  assumes "CHR ''/'' \<notin> set q"
  shows "split_on CHR ''/'' (trim_suffix s q) =
    butlast (split_on CHR ''/'' s) @ [trim_suffix (last (split_on CHR ''/'' s)) q]"
proof -
  obtain es e where se: "split_on CHR ''/'' s = es @ [e]"
    by (metis split_on_nonempty append_butlast_last_id)
  have clean: "CHR ''/'' \<notin> set (trim_suffix e q)"
    using split_on_parts_clean [of e "CHR ''/''" s] se set_mono_prefix [OF trim_suffix_prefix [of e q]] by auto
  show ?thesis
  proof (cases "es = []")
    case True
    then have "s = e" using se join_split_on [of "CHR ''/''" s] by simp
    with clean True se show ?thesis by (simp add: split_on_no_sep)
  next
    case False
    define a where "a = join_with ''/'' es"
    have s: "s = a @ CHR ''/'' # e" using split_on_snoc [OF se False] by (simp add: a_def)
    have a: "split_on CHR ''/'' a = es"
      using False se split_on_parts_clean [of _ "CHR ''/''" s] by (simp add: a_def split_on_join)
    have "has_suffix s q = has_suffix e q"
    proof
      assume "has_suffix s q"
      then obtain r where r: "a @ CHR ''/'' # e = r @ q" by (auto simp: has_suffix_iff s)
      then have "\<exists>u. r = a @ CHR ''/'' # u \<and> e = u @ q"
        using assms by (auto simp: append_eq_append_conv2 Cons_eq_append_conv)
      then show "has_suffix e q" by (auto simp: has_suffix_iff)
    next
      assume "has_suffix e q"
      then obtain r where "e = r @ q" by (auto simp: has_suffix_iff)
      then have "s = (a @ CHR ''/'' # r) @ q" by (simp add: s)
      then show "has_suffix s q" by (metis has_suffix_append)
    qed
    moreover have "trim_suffix s q = a @ CHR ''/'' # trim_suffix e q" if "has_suffix e q"
    proof -
      from that obtain r where r: "e = r @ q" by (auto simp: has_suffix_iff)
      then have "s = (a @ CHR ''/'' # r) @ q" by (simp add: s)
      then show ?thesis by (metis r trim_suffix_append)
    qed
    ultimately have "trim_suffix s q = a @ CHR ''/'' # trim_suffix e q"
      using s by (cases "has_suffix e q") (simp_all add: trim_suffix_id)
    then show ?thesis using se clean a by (simp add: split_on_split split_on_no_sep)
  qed
qed

lemma lower_byte_eq_iff: "(of_char d :: nat) < 65 \<Longrightarrow> lower_byte c = d \<longleftrightarrow> c = d"
proof (cases "65 \<le> (of_char c :: nat) \<and> (of_char c :: nat) \<le> 90")
  case True
  then have "(of_char (lower_byte c) :: nat) = of_char c + 32" by (simp add: lower_byte_def of_char_of)
  then show "(of_char d :: nat) < 65 \<Longrightarrow> lower_byte c = d \<longleftrightarrow> c = d" using True by auto
qed (auto simp: lower_byte_def Let_def)

lemma lower_byte_fixed:
  "lower_byte c = CHR ''/'' \<longleftrightarrow> c = CHR ''/''" "lower_byte c = CHR ''.'' \<longleftrightarrow> c = CHR ''.''"
  by (simp_all add: lower_byte_eq_iff)

lemma split_on_lower: "split_on CHR ''/'' (map lower_byte s) = map (map lower_byte) (split_on CHR ''/'' s)"
  by (induction s) (auto simp: lower_byte_fixed split: list.splits)

lemma lower_map: "list_all (\<lambda>d. (of_char d :: nat) < 65) ds \<Longrightarrow> map lower_byte e = ds \<longleftrightarrow> e = ds"
  by (induction ds arbitrary: e) (auto simp: map_eq_Cons_conv lower_byte_eq_iff)

lemma lower_dots [simp]:
  "map lower_byte e = ''..'' \<longleftrightarrow> e = ''..''" "map lower_byte e = ''.'' \<longleftrightarrow> e = ''.''"
  by (rule lower_map, simp)+

lemma dotdot_lower: "''..'' \<in> map lower_byte ` A \<longleftrightarrow> ''..'' \<in> A"
proof
  assume "''..'' \<in> map lower_byte ` A"
  then obtain e where "e \<in> A" and "map lower_byte e = ''..''" by (elim imageE) simp
  then show "''..'' \<in> A" by (simp only: lower_dots)
next
  assume "''..'' \<in> A"
  then show "''..'' \<in> map lower_byte ` A" by (rule rev_image_eqI) (simp only: lower_dots(1) [THEN iffD2])
qed

lemma no_dotdot_lower: "no_dotdot (map lower_byte s) = no_dotdot s"
  by (simp add: split_on_lower dotdot_lower)

lemma path_elems_lower: "path_elems (map lower_byte s) = map (map lower_byte) (path_elems s)"
  by (simp add: path_elems_def split_on_lower filter_map comp_def)

lemma is_ascii_prefix: "is_ascii s \<Longrightarrow> prefix t s \<Longrightarrow> is_ascii t"
  by (auto simp: prefix_def)

lemma strip_endpoint_prefix: "prefix (strip_endpoint p) p"
  by (simp add: strip_endpoint_def trim_suffix_prefix)

text \<open>
  The path the GitHub canonicalizer returns can end in an element that names the parent
  (cut from one such as ...git), but has no other.
\<close>

lemma github_canonical:
  assumes "github_url_canonicalizer ul u = Inr v"
    and "is_ascii (u_host u)" and "is_ascii (u_path u)" and "no_dotdot (u_path u)"
  obtains es e where "u_host v = map lower_byte (u_host u)" and "split_on CHR ''/'' (u_path v) = es @ [e]" and "''..'' \<notin> set es"
proof -
  define t where "t = trim_suffix (strip_endpoint (u_path u)) ''.git''"
  have "is_ascii t"
    using assms(3) is_ascii_prefix strip_endpoint_prefix trim_suffix_prefix unfolding t_def by metis
  then have v: "u_host v = map lower_byte (u_host u)" "u_path v = t \<or> u_path v = map lower_byte t"
    using assms(1,2)
    by (auto simp: github_url_canonicalizer_def default_url_canonicalizer_def https_url_def to_lower_def t_def split: if_splits)
  define ss where "ss = butlast (split_on CHR ''/'' (strip_endpoint (u_path u)))"
  define e where "e = trim_suffix (last (split_on CHR ''/'' (strip_endpoint (u_path u)))) ''.git''"
  have t: "split_on CHR ''/'' t = ss @ [e]" unfolding t_def ss_def e_def by (rule split_on_trim_suffix) simp
  have ss: "''..'' \<notin> set ss" using strip_endpoint_no_dotdot [OF assms(4)] unfolding ss_def by (meson in_set_butlastD)
  then have "''..'' \<notin> set (map (map lower_byte) ss)" by (simp add: dotdot_lower)
  with v t ss that show thesis
    by (metis map_append list.simps(8,9) split_on_lower)
qed

text \<open>
  Joined to the cache root and a host, such a path does not leave the root, nor the directory
  of the host unless it ends in an element that names the parent.
\<close>

lemma local_disk_path_below:
  assumes "has_prefix root ''/''" and "no_dotdot root" and "no_dotdot (u_host v)" and "path_elems (u_host v) \<noteq> []"
    and "split_on CHR ''/'' (u_path v) = es @ [e]" and "''..'' \<notin> set es"
  shows "prefix (path_elems root) (path_elems (local_disk_path root v)) \<and>
    (e \<noteq> ''..'' \<longrightarrow> prefix (path_elems root @ path_elems (u_host v)) (path_elems (local_disk_path root v)))"
proof -
  let ?s = "root @ CHR ''/'' # u_host v @ CHR ''/'' # u_path v"
  let ?keep = "filter (\<lambda>e. e \<noteq> [] \<and> e \<noteq> ''.'')"
  define A where "A = split_on CHR ''/'' root @ split_on CHR ''/'' (u_host v) @ es"
  have root: "root \<noteq> []" using assms(1) by (auto simp: has_prefix_def)
  with assms(1) have rooted: "has_prefix ?s ''/''" by (cases root) (auto simp: has_prefix_def)
  have split: "split_on CHR ''/'' ?s = A @ [e]" using assms(5) by (simp add: split_on_split A_def)
  have "''..'' \<notin> set A" using assms(2,3,6) by (simp add: A_def)
  then have "clean_elems True [] (split_on CHR ''/'' ?s) = clean_elems True (rev (?keep A)) [e]"
    by (simp add: split clean_elems_append)
  moreover have "path_elems (local_disk_path root v) = clean_elems True [] (split_on CHR ''/'' ?s)"
    unfolding local_disk_path_def path_join_three [OF root] path_clean_rooted [OF rooted]
    by (rule path_elems_join) (rule clean_elems_elem)
  ultimately have elems: "path_elems (local_disk_path root v) = clean_elems True (rev (?keep A)) [e]" by simp
  have keep: "?keep A = path_elems root @ path_elems (u_host v) @ ?keep es"
    by (simp add: A_def path_elems_def)
  show ?thesis
  proof (cases "e = ''..''")
    case True
    have "?keep A \<noteq> []" using assms(4) keep by simp
    moreover have "''..'' \<notin> set (?keep A)" using \<open>''..'' \<notin> set A\<close> by simp
    ultimately have "path_elems (local_disk_path root v) = butlast (?keep A)"
      unfolding elems True by (rule clean_elems_parent)
    then show ?thesis using assms(4) True by (simp add: keep butlast_append)
  next
    case False
    then show ?thesis using elems by (auto simp: keep)
  qed
qed

end
