(* ===== verification/RequestLog.thy ===== *)
theory RequestLog
  imports Server
begin

text \<open>
  The request log of \<open>logHTTPRequest\<close> (\<open>reporting.go\<close>) around a whole request: what the entry
  that the deferred closure writes says about the response that went over the wire.
\<close>

section \<open>A request and its log entry\<close>

text \<open>
  The body of a request as a reader. Only \<open>uploadPackHandler\<close> reads it, through the libraries
  that unzip and parse it; \<open>reads\<close> are the sizes they ask for if they get to it. The deferred
  closure of \<open>logHTTPRequest\<close> gives the entry of the log.
\<close>

definition read_body :: "bytes \<Rightarrow> nat \<Rightarrow> bytes \<times> go_error option \<times> bytes" where
  "read_body b n = (take n b, if b = [] then Some (PlainError ''EOF'') else None, drop n b)"

fun read_all_of :: "nat list \<Rightarrow> bytes mon_reader \<Rightarrow> bytes mon_reader" where
  "read_all_of [] r = r"
| "read_all_of (n # ns) r = read_all_of ns (snd (snd (mon_read read_body r n)))"

definition reads_body :: "('d, 'r) libs \<Rightarrow> 'd server_env \<Rightarrow> http_request \<Rightarrow> bool" where
  "reads_body X V r0 =
     (let r = full_url r0; p = u_path (hr_url r) in
      case lib_tag X (TagInsert CommandTypeKey ''not-a-command'') (hr_tags r) of
        (Some e, _) \<Rightarrow> False
      | (None, tags) \<Rightarrow>
          sv_authorizer V (r\<lparr>hr_tags := tags\<rparr>) = None \<and> \<not> has_suffix p ''/info/refs'' \<and>
          \<not> has_suffix p ''/git-receive-pack'' \<and> has_suffix p ''/git-upload-pack'')"

type_synonym log_entry = "int \<times> 64 word \<times> 64 word"

definition serve_and_log ::
  "('d, 'r) libs \<Rightarrow> server_config \<Rightarrow> 'd server_env \<Rightarrow> nat list \<Rightarrow> http_request \<Rightarrow> resp_writer \<Rightarrow> bool \<Rightarrow>
     'd world \<Rightarrow> (sink \<times> 'd world \<times> log_entry option) outcome" where
  "serve_and_log X cfg V reads r rw flusher w =
     (case serve_http X cfg V r rw flusher w of
        Finished (s, w') \<Rightarrow>
          Finished (s, w', log_closer (cfg_request_logger cfg)
            (read_all_of (if reads_body X V r then reads else []) (monitor_reader (fst (hr_body r)))) (sk_w s))
      | Panicked \<Rightarrow> Panicked
      | Exited \<Rightarrow> Exited)"

text \<open>What was read of the body: all that was asked for, as far as there is that much.\<close>

lemma read_all_of_bytes:
  "mr_bytes (read_all_of ns r) = mr_bytes r + of_nat (min (sum_list ns) (length (mr_inner r)))"
proof (induction ns r rule: read_all_of.induct)
  case (2 n ns r)
  have "min (n + sum_list ns) (length (mr_inner r)) =
      min n (length (mr_inner r)) + min (sum_list ns) (length (mr_inner r) - n)" by simp
  with 2 show ?case by (simp add: mon_read_def read_body_def min.commute flip: of_nat_add)
qed simp

section \<open>What every output keeps\<close>

text \<open>
  A property of the output that the reporter and the writer of a command keep is kept by the
  command: the handler reaches the response through these two only.
\<close>

locale output_invariant =
  fixes report :: "'s reporter" and wr :: "'s io_write" and keeps :: "'s \<Rightarrow> bool"
  assumes keeps_report: "keeps s \<Longrightarrow> keeps (report tags e s)"
    and keeps_write: "keeps s \<Longrightarrow> keeps (snd (snd (wr b s)))"
begin

lemma keeps_packet: "keeps s \<Longrightarrow> keeps (snd (write_packet wr b s))"
  using keeps_write [of s b] by (simp add: write_packet_def split_beta)

lemma keeps_resp: "keeps s \<Longrightarrow> keeps (snd (write_resp W wr cs s))"
proof (induction cs arbitrary: s)
  case (Cons c cs)
  then show ?case
    using keeps_packet [of s "encode_resp W c"] by (auto split: prod.splits option.splits)
qed simp

lemma keeps_copy: "keeps s \<Longrightarrow> keeps (snd (copy_out wr bs s))"
proof (induction bs arbitrary: s)
  case (Cons b bs)
  then show ?case
    using keeps_packet [of s b] by (auto split: prod.splits option.splits)
qed simp

lemma keeps_serve: "keeps s \<Longrightarrow> keeps (fst (snd (serve_fetch_local W G cfg r wr command ci s w)))"
  using keeps_copy by (simp add: serve_fetch_local_def run_to_writer_def Let_def split_beta)

lemma keeps_serve_task: "keeps s \<Longrightarrow> keeps (fst (snd (serve_task X cfg E report wr r command ci tags s w)))"
  by (simp add: serve_task_def Let_def split_beta keeps_report keeps_serve)

lemma keeps_fetch: "keeps s \<Longrightarrow> keeps (fst (snd (handle_fetch X cfg E report wr r command ci tags s w)))"
  by (auto simp: handle_fetch_def Let_def split_beta keeps_report keeps_serve_task
      split: sum.splits option.splits bool.splits)

lemma keeps_ls_refs: "keeps s \<Longrightarrow> keeps (fst (snd (handle_ls_refs X E report wr r command tags s w)))"
  by (auto simp: handle_ls_refs_def keeps_report keeps_resp split: sum.splits option.splits prod.splits)

lemma keeps_command:
  "handle_v2_command X cfg E report wr r command ci tags s w = Some res \<Longrightarrow> keeps s \<Longrightarrow> keeps (fst (snd res))"
  by (auto simp: handle_v2_command_def keeps_report keeps_fetch keeps_ls_refs
      split: list.splits option.splits prod.splits if_splits)

end

text \<open>
  The monitor tells the truth about a response that nothing has failed on: the status it
  remembers is the one sent, and its count is the length of the body.
\<close>

definition truthful :: "sink \<Rightarrow> bool" where
  "truthful s \<longleftrightarrow> status_agrees (sk_w s) \<and> mw_bytes (sk_w s) = of_nat (length (sink_body s)) \<and> sink_unlimited s"

lemma truthful_mon_write:
  assumes "status_agrees w" and "mw_bytes w = of_nat (length (mon_body w))" and "rw_capacity (mw_w w) = None"
  shows "status_agrees (snd (snd (mon_write b w))) \<and>
    mw_bytes (snd (snd (mon_write b w))) = of_nat (length (mon_body (snd (snd (mon_write b w))))) \<and>
    rw_capacity (mw_w (snd (snd (mon_write b w)))) = None"
proof -
  obtain w' where w': "mon_write b w = (length b, None, w')" "rw_capacity (mw_w w') = None"
    using mon_write_unlimited [OF assms(3)] by blast
  with mon_write_agrees [OF assms(1), of b] mon_write_counts [of b w] mon_io.write_ok [OF w'(1)] assms(2)
  show ?thesis by simp
qed

lemma report_server_error_w [simp]: "sk_w (report_server_error has_rep c e s) = sk_w s"
  by (simp add: report_server_error_def)

interpretation http_log: output_invariant "git_report_error L W has_rep" sink_write truthful for L W has_rep
proof unfold_locales
  fix s tags e b
  assume s: "truthful s"
  show "truthful (git_report_error L W has_rep tags e s)"
    using s truthful_mon_write [of "sk_w s"]
    by (auto simp: git_report_error_def truthful_def write_error_def write_packet_def Let_def split_beta split: option.splits)
  show "truthful (snd (snd (sink_write b s)))"
    using s truthful_mon_write [of "sk_w s" b] by (simp add: sink_write_def truthful_def split_beta)
qed

lemma truthful_header: "truthful s \<Longrightarrow> truthful (sink_header_add k v s)"
  by (auto simp: truthful_def status_agrees_def sink_header_add_def mon_header_add_def header_add_def split: option.splits)

lemma truthful_open: "fresh_response rw \<Longrightarrow> truthful (open_sink rw flusher)"
  by (simp add: truthful_def status_agrees_def open_sink_def monitor_writer_def)

text \<open>An error over HTTP is reported before anything is sent.\<close>

lemma http_error_truthful:
  assumes "mw_bytes w = of_nat (length (mon_body w))" and "rw_capacity (mw_w w) = None" and "rw_sent (mw_w w) = None"
    and "st \<noteq> 0" and "w' = http_error m st w"
  shows "status_agrees w' \<and> mw_bytes w' = of_nat (length (mon_body w')) \<and> rw_capacity (mw_w w') = None"
proof -
  define w2 where "w2 = mon_header_set ''X-Content-Type-Options'' ''nosniff''
    (mon_header_set ''Content-Type'' ''text/plain; charset=utf-8'' w)"
  define w3 where "w3 = mon_write_header st w2"
  have w2: "rw_sent (mw_w w2) = None" "mw_bytes w2 = mw_bytes w" "mon_body w2 = mon_body w" "rw_capacity (mw_w w2) = None"
    using assms(2,3) by (simp_all add: w2_def mon_header_set_def header_set_def)
  have "status_agrees w3" using mon_write_header_agrees [OF w2(1) assms(4)] by (simp add: w3_def)
  moreover have "mw_bytes w3 = of_nat (length (mon_body w3))" "rw_capacity (mw_w w3) = None"
    using w2 assms(1) by (simp_all add: w3_def mon_write_header_def)
  moreover have "w' = snd (snd (mon_write (m @ newline) w3))"
    unfolding assms(5) http_error_def w3_def w2_def Let_def by (simp add: split_beta)
  ultimately show ?thesis using truthful_mon_write by metis
qed

lemma truthful_http_report:
  assumes "truthful s" and "rw_sent (mw_w (sk_w s)) = None"
  shows "truthful (http_report_error L has_rep tags e s)"
proof -
  obtain c m where cm: "status_or_internal L e = (c, m)" by fastforce
  have "http_status_from_code c \<noteq> 0" by (cases c) (simp_all add: http_status_from_code_def)
  moreover define w where "w = (if c = Unauthenticated
    then mon_header_add ''WWW-Authenticate'' ''Basic realm=goblet'' (mon_header_add ''WWW-Authenticate'' ''Bearer'' (sk_w s))
    else sk_w s)"
  moreover have "mw_bytes w = of_nat (length (mon_body w))" "rw_capacity (mw_w w) = None" "rw_sent (mw_w w) = None"
    using assms by (simp_all add: w_def truthful_def mon_header_add_def header_add_def)
  moreover have "\<exists>msg. sk_w (http_report_error L has_rep tags e s) = http_error msg (http_status_from_code c) w"
    using cm by (simp add: http_report_error_def w_def Let_def) blast
  ultimately show ?thesis
    using http_error_truthful [of w "http_status_from_code c"] unfolding truthful_def by blast
qed

lemma truthful_loop:
  "command_loop X cfg run tags repo ci i cmds s w = Finished (s', w') \<Longrightarrow> truthful s \<Longrightarrow> truthful s'"
proof (induction cmds arbitrary: i s w)
  case (Cons c cmds)
  obtain ok s1 w1 where run: "handle_v2_command X cfg (run i)
      (git_report_error (lib_status X) (lib_wire X) (cfg_error_reporter cfg)) sink_write repo c ci tags s w = Some (ok, s1, w1)"
    using Cons.prems(1) by (auto simp: Let_def split: option.splits)
  then have "truthful s1" using http_log.keeps_command [OF run] Cons.prems(2) by simp
  with Cons run show ?case by (cases ok) (auto simp: Let_def)
qed simp

lemma truthful_write_info:
  assumes "truthful s"
  shows "truthful (write_info W report ps s)"
  using assms
proof (induction ps arbitrary: s)
  case (Cons p ps)
  obtain s1 where s1: "write_packet sink_write (encode_info W p) s = (None, s1)"
    using write_packet_unlimited [of s "encode_info W p"] Cons.prems by (auto simp: truthful_def)
  moreover have "truthful s1" using http_log.keeps_packet [OF Cons.prems, of "encode_info W p"] s1 by simp
  ultimately show ?case using Cons.IH by simp
qed simp

lemma truthful_upload:
  assumes "upload_pack_handler X cfg V (http_report_error L has_rep tags) r ci s w = Finished (s', w')"
    and "truthful s" and "rw_sent (mw_w (sk_w s)) = None"
  shows "truthful s'"
proof -
  define s1 where "s1 = sink_header_add ''Content-Type'' ''application/x-git-upload-pack-result'' s"
  have s1: "truthful s1" "rw_sent (mw_w (sk_w s1)) = None"
    using assms(2,3) by (simp_all add: s1_def truthful_header)
  show ?thesis
    using assms(1) truthful_http_report [OF s1] truthful_loop [OF _ s1(1)]
    unfolding upload_pack_handler_def s1_def [symmetric]
    by (auto simp: Let_def split: if_splits sum.splits process.splits prod.splits)
qed

lemma truthful_route:
  assumes "route X cfg V (http_report_error L has_rep tags) r ci s w = Finished (s', w')"
    and "truthful s" and "rw_sent (mw_w (sk_w s)) = None"
  shows "truthful s'"
proof -
  have "truthful (info_refs_handler W (http_report_error L has_rep tags) r s)" for W
    by (simp add: info_refs_handler_def truthful_http_report [OF assms(2,3)] truthful_write_info truthful_header assms(2))
  then show ?thesis
    using assms(1,2) truthful_http_report [OF assms(2,3)] truthful_upload [OF _ assms(2,3)]
    by (auto simp: route_def Let_def split: if_splits)
qed

section \<open>Properties\<close>

text \<open>
  C21: the request log is true: whatever the request, its authorization and the commands in
  it, on a connection that takes all that is sent, the logged status is the one of the
  response (0 if there is none), the logged response size the length of its body modulo 2 to
  the 64, and the logged request size is as many bytes as were asked for of the request's
  body, or its length if that is less, and zero for a request that is refused or has another
  path.
\<close>

theorem request_log_is_true:
  assumes "serve_and_log X cfg V reads r rw flusher w = Finished (s, w', Some (st, read, written))"
    and "fresh_response rw"
  shows "st = (case rw_sent (mw_w (sk_w s)) of None \<Rightarrow> 0 | Some (st', _) \<Rightarrow> st') \<and>
    written = of_nat (length (sink_body s)) \<and>
    read = of_nat (if reads_body X V r then min (sum_list reads) (length (fst (hr_body r))) else 0)"
proof -
  let ?reader = "read_all_of (if reads_body X V r then reads else []) (monitor_reader (fst (hr_body r)))"
  from assms(1) have serve: "serve_http X cfg V r rw flusher w = Finished (s, w')"
    and log: "log_closer (cfg_request_logger cfg) ?reader (sk_w s) = Some (st, read, written)"
    by (auto simp: serve_and_log_def split: outcome.splits)
  have opened: "truthful (open_sink rw flusher)" "rw_sent (mw_w (sk_w (open_sink rw flusher))) = None"
    using assms(2) truthful_open by simp_all
  have "truthful s"
    using serve truthful_http_report [OF opened] truthful_route [OF _ opened]
    by (auto simp: serve_http_def Let_def split: option.splits prod.splits)
  moreover have "st = mw_status (sk_w s)" "written = mw_bytes (sk_w s)" "read = mr_bytes ?reader"
    using log by (simp_all add: log_closer_def split: if_splits)
  ultimately show ?thesis
    by (auto simp: truthful_def status_agrees_def read_all_of_bytes monitor_reader_def split: option.splits)
qed

text \<open>A request that is refused.\<close>

theorem request_log_is_true_witness:
  "\<exists>s w'. serve_and_log (demo_libs demo_reply) demo_config (demo_server deny) [512]
      (demo_request ''/o/r/git-upload-pack'' [] ''fetch'') demo_response True demo_world = Finished (s, w', Some (403, 0, 14))"
proof -
  let ?r = "demo_request ''/o/r/git-upload-pack'' [] ''fetch''"
  let ?e = "StatusError PermissionDenied ''access denied''"
  define s where "s = http_report_error plain_status True no_tags (Some ?e) (open_sink demo_response True)"
  have "hr_tags (full_url ?r) = no_tags" by (simp add: full_url_def demo_request_def)
  then have "serve_http (demo_libs demo_reply) demo_config (demo_server deny) ?r demo_response True demo_world =
      Finished (s, demo_world)"
    using demo_insert [of demo_reply] by (simp add: serve_http_def s_def Let_def deny_def demo_config_def)
  moreover have "cfg_request_logger demo_config" by (simp add: demo_config_def)
  ultimately obtain st read written where log: "serve_and_log (demo_libs demo_reply) demo_config (demo_server deny) [512] ?r
      demo_response True demo_world = Finished (s, demo_world, Some (st, read, written))"
    by (simp add: serve_and_log_def log_closer_def)
  have "error_response plain_status True no_tags ?e s"
    unfolding s_def using demo_response_fresh by (intro error_responseI) simp_all
  then have "\<exists>hs. rw_sent (mw_w (sk_w s)) = Some (403, hs)" and "sink_body s = ''access denied'' @ newline"
    using status_or_internal_simps(2) [OF plain_status_law] by (simp_all add: error_response_def http_status_from_code_def)
  moreover have "\<not> reads_body (demo_libs demo_reply) (demo_server deny) ?r"
    by (auto simp: reads_body_def deny_def demo_server_def Let_def split: prod.splits option.splits)
  ultimately have "st = 403" and "written = 14" and "read = 0"
    using request_log_is_true [OF log demo_response_fresh] by auto
  with log show ?thesis by blast
qed

end
