(* ===== verification/ServerMain.thy ===== *)
theory ServerMain
  imports Authorizer Config Metrics Paths RequestLog
begin

text \<open>
  The program \<open>goblet-server\<close> (\<open>goblet-server/main.go\<close>): its start from the flags and the
  configuration file to the routes, the routes of the default \<open>ServeMux\<close> of \<open>net/http\<close>, and
  the handlers it registers besides the proxy (\<open>/healthz\<close>, and \<open>/authcache\<close> of
  \<open>github/authorizer.go\<close>).
\<close>

section \<open>The routes\<close>

text \<open>
  \<open>http.cleanPath\<close>: the path, rooted and without elements that name a parent or the
  directory itself, with its last slash if it had one.
\<close>

definition mux_clean_path :: "string \<Rightarrow> string" where
  "mux_clean_path p =
     (if p = [] then ''/''
      else let q = (if hd p \<noteq> CHR ''/'' then CHR ''/'' # p else p);
               np = path_clean q
           in if last q = CHR ''/'' \<and> np \<noteq> ''/'' then np @ ''/'' else np)"

text \<open>
  The patterns of \<open>main\<close>, and those the import of \<open>net/http/pprof\<close> registers. A pattern that
  ends in a slash is for the whole subtree; the longest one counts.
\<close>

datatype route_target = ToProxy | ToHealthz | ToAuthcache | ToProfiler | RedirectTo string | NoRoute

definition mux_match :: "string \<Rightarrow> route_target" where
  "mux_match p =
     (if p = ''/healthz'' then ToHealthz
      else if p = ''/authcache'' then ToAuthcache
      else if has_prefix p ''/debug/pprof/'' then ToProfiler
      else if has_prefix p ''/'' then ToProxy
      else NoRoute)"

text \<open>A path that is not clean is redirected, unless the method is CONNECT.\<close>

definition mux_route :: "bool \<Rightarrow> string \<Rightarrow> route_target" where
  "mux_route connect p =
     (if connect then (if p = ''/debug/pprof'' then RedirectTo ''/debug/pprof/'' else mux_match p)
      else let q = mux_clean_path p in
           if q = ''/debug/pprof'' then RedirectTo ''/debug/pprof/''
           else if q \<noteq> p then RedirectTo q
           else mux_match p)"

section \<open>The handlers\<close>

definition healthz :: "resp_writer \<Rightarrow> resp_writer" where
  "healthz w = snd (snd (rw_write (''ok'' @ newline) (header_set ''Content-Type'' ''text/plain'' w)))"

text \<open>\<open>json.Marshal\<close> of \<open>CacheMetrics\<close>: its fields, all integers, in the order of the struct.\<close>

definition json_field :: "string \<Rightarrow> int \<Rightarrow> string" where
  "json_field name n = [CHR 0x22] @ name @ [CHR 0x22] @ '':'' @ show_int n"

definition metrics_json :: "auth_metrics \<Rightarrow> bytes" where
  "metrics_json m =
     ''{'' @ join_with '','' [json_field ''Keys'' (am_keys m), json_field ''Hits'' (am_hits m),
       json_field ''Misses'' (am_misses m), json_field ''Inserts'' (am_inserts m),
       json_field ''Removes'' (am_removes m)] @ ''}''"

definition cache_metrics_handler :: "'c cache_lib \<Rightarrow> 'c authorizer \<Rightarrow> resp_writer \<Rightarrow> resp_writer" where
  "cache_metrics_handler C a w =
     snd (snd (rw_write (metrics_json (auth_cache_metrics C a)) (header_set ''Content-Type'' ''application/json'' w)))"

section \<open>The server\<close>

text \<open>
  The environment of the requests as \<open>main\<close> configures it: the canonicalizer for GitHub, and
  the authorizer that checks nothing.
\<close>

definition main_env :: "(string \<Rightarrow> string) \<Rightarrow> 'd server_env \<Rightarrow> 'd server_env" where
  "main_env ul V = V\<lparr>sv_authorizer := no_op_request_authorizer, sv_canon := github_url_canonicalizer ul\<rparr>"

datatype 'd response =
    Proxied "(sink \<times> 'd world \<times> log_entry option) outcome"
  | Answered resp_writer
  | Profiled
  | Redirected string
  | NotFound

definition main_handler ::
  "('d, 'r) libs \<Rightarrow> config_file \<Rightarrow> (string \<Rightarrow> string) \<Rightarrow> 'd server_env \<Rightarrow> 'c cache_lib \<Rightarrow> 'c authorizer \<Rightarrow>
     nat list \<Rightarrow> bool \<Rightarrow> http_request \<Rightarrow> resp_writer \<Rightarrow> bool \<Rightarrow> 'd world \<Rightarrow> 'd response" where
  "main_handler X cf ul V C a reads connect r rw flusher w =
     (case mux_route connect (u_path (hr_url r)) of
        ToProxy \<Rightarrow> Proxied (serve_and_log X (config_of cf) (main_env ul V) reads r rw flusher w)
      | ToHealthz \<Rightarrow> Answered (healthz rw)
      | ToAuthcache \<Rightarrow> Answered (cache_metrics_handler C a rw)
      | ToProfiler \<Rightarrow> Profiled
      | RedirectTo q \<Rightarrow> Redirected q
      | NoRoute \<Rightarrow> NotFound)"

section \<open>The start\<close>

text \<open>
  The flags; what the libraries answer (the content of a file, where a program is, the client
  of statsd, the registration of the views, the exporter of metrics); and how the process
  ends up.
\<close>

record flags =
  fl_config :: string
  fl_check :: bool

record main_lib =
  ml_read_file :: "string \<Rightarrow> go_error + bytes"
  ml_look_path :: "string \<Rightarrow> go_error + string"
  ml_statsd :: "string \<Rightarrow> go_error option"
  ml_register_views :: "metric_view list \<Rightarrow> go_error option"
  ml_exporter :: "go_error option"

datatype 'd main_result = Fatal | ConfigValid | Serving config_file "'d world"

definition server_main ::
  "main_lib \<Rightarrow> status_lib \<Rightarrow> ('d, 'r) git_lib \<Rightarrow> (string \<Rightarrow> string) \<Rightarrow> (string \<Rightarrow> go_error + url) \<Rightarrow>
     (string \<Rightarrow> 'd async_env) \<Rightarrow> flags \<Rightarrow> 'd world \<Rightarrow> 'd main_result" where
  "server_main M L G ul parse_url env fl w =
     (if fl_config fl = [] then Fatal
      else case load_config_file (ml_read_file M) (fl_config fl) of
             (_, Some e) \<Rightarrow> Fatal
           | (cf, None) \<Rightarrow>
               if fl_check fl then ConfigValid
               else if ml_register_views M views \<noteq> None then Fatal
               else if cf_enable_metrics cf \<and> ml_exporter M \<noteq> None then Fatal
               else (case server_start L G (github_url_canonicalizer ul) parse_url env cf w of
                       Exits \<Rightarrow> Fatal
                     | Returns w' \<Rightarrow> Serving cf w'))"

text \<open>
  The \<open>init\<close> of package goblet (\<open>managed_repository.go\<close>) runs before \<open>main\<close>: the path of git,
  or the end of the process.
\<close>

definition package_init :: "main_lib \<Rightarrow> string option" where
  "package_init M =
     (case ml_look_path M ''git'' of
        Inl _ \<Rightarrow> None
      | Inr git_binary \<Rightarrow> if ml_statsd M ''127.0.0.1:8125'' = None then Some git_binary else None)"

definition goblet_server ::
  "main_lib \<Rightarrow> status_lib \<Rightarrow> (string \<Rightarrow> ('d, 'r) git_lib) \<Rightarrow> (string \<Rightarrow> string) \<Rightarrow> (string \<Rightarrow> go_error + url) \<Rightarrow>
     (string \<Rightarrow> 'd async_env) \<Rightarrow> flags \<Rightarrow> 'd world \<Rightarrow> 'd main_result" where
  "goblet_server M L git_at ul parse_url env fl w =
     (case package_init M of
        None \<Rightarrow> Fatal
      | Some git_binary \<Rightarrow> server_main M L (git_at git_binary) ul parse_url env fl w)"

definition listen_address :: "config_file \<Rightarrow> string" where
  "listen_address cf = '':'' @ show_int (cf_port cf)"

text \<open>The background fetches once it serves: at each tick all repositories, not forced.\<close>

definition background_tick ::
  "status_lib \<Rightarrow> ('d, 'r) git_lib \<Rightarrow> (string \<Rightarrow> string) \<Rightarrow> (string \<Rightarrow> go_error + url) \<Rightarrow>
     (time \<Rightarrow> string \<Rightarrow> 'd async_env) \<Rightarrow> config_file \<Rightarrow> time \<Rightarrow> 'd world process \<Rightarrow> 'd world process" where
  "background_tick L G ul parse_url env cf t p =
     (case p of
        Exits \<Rightarrow> Exits
      | Returns w \<Rightarrow>
          (case fetch_repositories L G (config_of cf) (github_url_canonicalizer ul) parse_url False (env t)
                  (cf_repositories cf) w of
             Exits \<Rightarrow> Exits
           | Returns (errs, w') \<Rightarrow> Returns w'))"

section \<open>Lemmas\<close>

lemma mux_clean_path_clean: "no_dotdot (mux_clean_path p) \<and> has_prefix (mux_clean_path p) ''/''"
proof (cases "p = []")
  case True
  then show ?thesis by (simp add: mux_clean_path_def has_prefix_def)
next
  case False
  define q where "q = (if hd p \<noteq> CHR ''/'' then CHR ''/'' # p else p)"
  have "has_prefix q ''/''" using False by (cases p) (auto simp: q_def has_prefix_def)
  from path_clean_no_dotdot [OF this] obtain r where r: "no_dotdot (path_clean q)" "path_clean q = CHR ''/'' # r"
    by (auto simp: has_prefix_iff)
  have "no_dotdot (path_clean q @ ''/'')" using r(1) split_on_split [of "CHR ''/''" "path_clean q" "[]"] by simp
  moreover have "has_prefix (path_clean q) ''/''" "has_prefix (path_clean q @ ''/'') ''/''"
    using r(2) by (simp_all add: has_prefix_def)
  ultimately show ?thesis
    using r(1) False unfolding mux_clean_path_def q_def [symmetric] Let_def by simp
qed

lemma mux_proxy_clean: "mux_route False p = ToProxy \<Longrightarrow> no_dotdot p \<and> has_prefix p ''/''"
  using mux_clean_path_clean [of p] by (auto simp: mux_route_def Let_def split: if_splits)

lemma path_elems_lower_nonempty: "path_elems (map lower_byte h) = [] \<longleftrightarrow> path_elems h = []"
  by (simp add: path_elems_lower)

text \<open>
  The process serves only with a configuration file that loaded, not in check mode, and
  after \<open>server_start\<close> opened and fetched the repositories.
\<close>

lemma server_main_serving:
  "server_main M L G ul parse_url env fl w = Serving cf w' \<longleftrightarrow>
     fl_config fl \<noteq> [] \<and> load_config_file (ml_read_file M) (fl_config fl) = (cf, None) \<and> \<not> fl_check fl \<and> ml_register_views M views = None \<and>
     (cf_enable_metrics cf \<longrightarrow> ml_exporter M = None) \<and>
     server_start L G (github_url_canonicalizer ul) parse_url env cf w = Returns w'"
  by (auto simp: server_main_def split: prod.splits option.splits process.splits if_splits)

section \<open>A concrete machine, for witnesses\<close>

text \<open>It has git, and a configuration of one repository.\<close>

definition demo_machine :: main_lib where
  "demo_machine = \<lparr>ml_read_file = (\<lambda>_. Inr (json_text (config_json demo_config_file))),
     ml_look_path = (\<lambda>_. Inr ''/usr/bin/git''), ml_statsd = (\<lambda>_. None), ml_register_views = (\<lambda>_. None), ml_exporter = None\<rparr>"

lemma demo_machine_simps:
  "ml_look_path demo_machine p = Inr ''/usr/bin/git''" "ml_statsd demo_machine a = None" "ml_register_views demo_machine vs = None"
  "ml_exporter demo_machine = None" "cf_pack_objects_hook demo_config_file = []"
  by (simp_all add: demo_machine_def demo_config_file_def)

lemma demo_machine_loads: "load_config_file (ml_read_file demo_machine) path = (demo_config_file, None)"
proof -
  have "json_parse (json_text (config_json demo_config_file)) = Some (config_json demo_config_file)"
    by (rule config_json_parses) (simp add: demo_config_file_def printable_def)
  moreover have "store_config (config_json demo_config_file) zero_config = (demo_config_file, None)"
    by (rule config_json_stored) (simp_all add: demo_config_file_def int64_def)
  ultimately show ?thesis by (simp add: load_config_file_def demo_machine_def unmarshal_config_def)
qed

section \<open>Properties\<close>

text \<open>
  C16: the server keeps repositories inside its cache: whatever the path of a request that
  reaches the proxy without being redirected and whose method is not CONNECT, and whatever
  endpoint or suffix the canonicalizer cuts off it, if host and path are ASCII, the host
  names a directory and has no element that names the parent, and the cache root is absolute,
  then the directory of the repository is the cache root or below it, and below the directory
  of the host in it unless the canonical path ends in an element that names the parent.
\<close>

theorem proxied_repository_inside_cache:
  assumes "mux_route False (u_path u) = ToProxy" and "github_url_canonicalizer ul u = Inr v"
    and "is_ascii (u_host u)" and "is_ascii (u_path u)" and "no_dotdot (u_host u)" and "path_elems (u_host u) \<noteq> []"
    and "has_prefix root ''/''" and "no_dotdot root"
  shows "prefix (path_elems root) (path_elems (local_disk_path root v)) \<and>
    (last (split_on CHR ''/'' (u_path v)) \<noteq> ''..'' \<longrightarrow>
      prefix (path_elems root @ map (map lower_byte) (path_elems (u_host u))) (path_elems (local_disk_path root v)) \<and>
      strict_prefix (path_elems root) (path_elems (local_disk_path root v)))"
proof -
  have "no_dotdot (u_path u)" using mux_proxy_clean [OF assms(1)] by blast
  from github_canonical [OF assms(2-4) this] obtain es e where v: "u_host v = map lower_byte (u_host u)"
    "split_on CHR ''/'' (u_path v) = es @ [e]" "''..'' \<notin> set es" .
  have host: "path_elems (u_host v) = map (map lower_byte) (path_elems (u_host u))" by (simp add: v(1) path_elems_lower)
  have "prefix (path_elems root) (path_elems (local_disk_path root v)) \<and>
    (e \<noteq> ''..'' \<longrightarrow> prefix (path_elems root @ path_elems (u_host v)) (path_elems (local_disk_path root v)))"
    by (rule local_disk_path_below [OF assms(7,8) _ _ v(2,3)]) (simp_all add: v(1) no_dotdot_lower path_elems_lower assms(5,6))
  moreover have "strict_prefix xs zs" if "prefix (xs @ ys) zs" and "ys \<noteq> []" for xs ys zs :: "string list"
    using that by (auto simp: prefix_def strict_prefix_def)
  ultimately show ?thesis using assms(6) by (auto simp: host v(2))
qed

theorem proxied_repository_inside_cache_witness:
  "prefix [''tmp'', ''goblet''] (path_elems (local_disk_path ''/tmp/goblet'' (https_url ''github.com'' ''/o/..''))) \<and>
   prefix [''tmp'', ''goblet'', ''github.com''] (path_elems (local_disk_path ''/tmp/goblet'' (https_url ''github.com'' ''/o/r'')))"
proof -
  let ?u = "https_url ''GitHub.com'' ''/O/...git/git-upload-pack''"
  have "mux_route False (u_path ?u) = ToProxy"
    and "github_url_canonicalizer id ?u = Inr (https_url ''github.com'' ''/o/..'')"
    and "is_ascii (u_host ?u)" "is_ascii (u_path ?u)" "no_dotdot (u_host ?u)" "path_elems (u_host ?u) \<noteq> []"
    and "has_prefix ''/tmp/goblet'' ''/''" "no_dotdot ''/tmp/goblet''" "path_elems ''/tmp/goblet'' = [''tmp'', ''goblet'']"
    by code_simp+
  note parent = proxied_repository_inside_cache [OF this(1-8)] this(9)
  let ?v = "https_url ''GitHub.com'' ''/O/R.git/git-upload-pack''"
  have "mux_route False (u_path ?v) = ToProxy"
    and "github_url_canonicalizer id ?v = Inr (https_url ''github.com'' ''/o/r'')"
    and "is_ascii (u_host ?v)" "is_ascii (u_path ?v)" "no_dotdot (u_host ?v)" "path_elems (u_host ?v) \<noteq> []"
    and "has_prefix ''/tmp/goblet'' ''/''" "no_dotdot ''/tmp/goblet''"
    and facts: "last (split_on CHR ''/'' (u_path (https_url ''github.com'' ''/o/r''))) \<noteq> ''..''"
      "map (map lower_byte) (path_elems (u_host ?v)) = [''github.com'']"
    by code_simp+
  from proxied_repository_inside_cache [OF this(1-8)] facts parent show ?thesis by simp
qed

text \<open>The cache root itself can be the directory of a repository.\<close>

theorem cache_root_as_repository:
  "mux_route False ''/...git/git-upload-pack'' = ToProxy \<and>
   github_url_canonicalizer id (https_url ''github.com'' ''/...git/git-upload-pack'') = Inr (https_url ''github.com'' ''/..'') \<and>
   local_disk_path ''/tmp/goblet'' (https_url ''github.com'' ''/..'') = ''/tmp/goblet''"
  by code_simp

text \<open>
  C27: the program serves only after it found git, its configuration file loaded and, with a
  hook, names a cache; and then every configured repository is in the registry under the
  directory of its canonical URL, initialised, and last updated at the start of one of the
  first fetches, which succeeded; whatever the other first fetches do meanwhile.
\<close>

theorem program_serves_fetched:
  assumes "goblet_server M L git_at ul parse_url env fl w = Serving cf w'" and "w_repos w = Map.empty"
    and "S = (\<lambda>r. unix_of (ae_start (env r))) ` set (cf_repositories cf)"
    and "\<And>r v. r \<in> set (cf_repositories cf) \<Longrightarrow> start_grows S v (ae_queue (env r) v)"
  shows "(\<exists>git. ml_look_path M ''git'' = Inr git) \<and> load_config_file (ml_read_file M) (fl_config fl) = (cf, None) \<and>
    (cf_pack_objects_hook cf \<noteq> [] \<longrightarrow> cf_pack_objects_cache cf \<noteq> []) \<and>
    (\<forall>r \<in> set (cf_repositories cf). \<exists>u v. parse_url r = Inr u \<and> github_url_canonicalizer ul u = Inr v \<and>
       w_repos w' (local_disk_path (cf_cache_root cf) v) \<noteq> None \<and> w_once w' (local_disk_path (cf_cache_root cf) v) \<and>
       w_last_update w' (local_disk_path (cf_cache_root cf) v) \<in> S)"
proof -
  obtain git where git: "ml_look_path M ''git'' = Inr git"
    and main: "server_main M L (git_at git) ul parse_url env fl w = Serving cf w'"
    using assms(1) by (auto simp: goblet_server_def package_init_def split: option.splits sum.splits if_splits)
  from main have load: "load_config_file (ml_read_file M) (fl_config fl) = (cf, None)"
    and start: "server_start L (git_at git) (github_url_canonicalizer ul) parse_url env cf w = Returns w'"
    by (simp_all add: server_main_serving)
  have "registry_ok w" using assms(2) by (simp add: registry_ok_def)
  from server_start_fetched [OF start this assms(3,4)] git load show ?thesis
    by (simp add: fetched_repository_def fetched_at_def config_of_def)
qed

theorem program_serves_fetched_witness:
  "\<exists>w. goblet_server demo_machine plain_status (\<lambda>_. demo_git demo_reply) id demo_parse_url (\<lambda>_. demo_async 0 0)
      \<lparr>fl_config = ''config.json'', fl_check = False\<rparr> demo_world = Serving demo_config_file w \<and>
    w_repos w ''/cache/github.com/o/r'' \<noteq> None \<and> w_last_update w ''/cache/github.com/o/r'' = 0"
proof -
  obtain w where w: "server_start plain_status (demo_git demo_reply) (github_url_canonicalizer id) demo_parse_url
      (\<lambda>_. demo_async 0 0) demo_config_file demo_world = Returns w" using demo_starts by blast
  have serving: "goblet_server demo_machine plain_status (\<lambda>_. demo_git demo_reply) id demo_parse_url (\<lambda>_. demo_async 0 0)
      \<lparr>fl_config = ''config.json'', fl_check = False\<rparr> demo_world = Serving demo_config_file w"
    using w by (simp add: goblet_server_def package_init_def server_main_serving demo_machine_loads demo_machine_simps)
  have empty: "w_repos demo_world = Map.empty" by (simp add: demo_world_def)
  have path: "local_disk_path (cf_cache_root demo_config_file) (https_url ''github.com'' ''/o/r'') = ''/cache/github.com/o/r''"
    by code_simp
  have "start_grows S v (ae_queue (demo_async 0 0) v)" for S :: "int set" and v :: "'d world"
    by (simp add: demo_async_def start_grows_refl)
  with program_serves_fetched [OF serving empty refl] serving path show ?thesis
    by (auto simp: demo_config_file_def demo_parse_url_def demo_canon demo_async_def unix_of_def)
qed

text \<open>
  The routes beside the proxy never touch the cache: /healthz is answered 200 with ok,
  /authcache with the five counters of the authorizer's cache as a JSON object, whatever the
  method and whoever asks, and neither opens a repository nor asks git or the upstream.
\<close>

theorem other_routes_answered:
  assumes "fresh_response rw"
  shows "mux_route connect (u_path (hr_url r)) = ToHealthz \<Longrightarrow>
      \<exists>rw'. main_handler X cf ul V C a reads connect r rw flusher w = Answered rw' \<and>
        rw_body rw' = ''ok'' @ newline \<and> (\<exists>hs. rw_sent rw' = Some (200, hs))"
    and "mux_route connect (u_path (hr_url r)) = ToAuthcache \<Longrightarrow>
      \<exists>rw'. main_handler X cf ul V C a reads connect r rw flusher w = Answered rw' \<and>
        rw_body rw' = metrics_json (auth_cache_metrics C a) \<and> (\<exists>hs. rw_sent rw' = Some (200, hs))"
  using assms
  by (simp_all add: main_handler_def healthz_def cache_metrics_handler_def rw_write_def header_set_def rw_write_header_sent Let_def)

text \<open>The proxy of the server as configured lets every request in.\<close>

lemma main_lets_everyone_in:
  assumes "lib_tag X (TagInsert CommandTypeKey ''not-a-command'') (hr_tags r) = (None, tags)"
  shows "serve_http X cfg (main_env ul V) r rw flusher w =
    route X cfg (main_env ul V) (http_report_error (lib_status X) (cfg_error_reporter cfg) (hr_tags r))
      ((full_url r)\<lparr>hr_tags := tags\<rparr>) (ci_source_of r) (open_sink rw flusher) w"
  by (rule serve_http_authorized [OF assms]) (simp add: main_env_def no_op_request_authorizer_def)

text \<open>
  What the mux does not catch: with the method CONNECT paths are not cleaned, and without a
  host the element of the path that .git is cut from becomes the parent of the cache root.
\<close>

theorem connect_leaves_the_cache:
  "mux_route True ''/../../etc/git-upload-pack'' = ToProxy \<and>
   github_url_canonicalizer id (https_url ''github.com'' ''/../../etc/git-upload-pack'') = Inr (https_url ''github.com'' ''/../../etc'') \<and>
   local_disk_path ''/tmp/goblet'' (https_url ''github.com'' ''/../../etc'') = ''/tmp/etc''"
  by code_simp

theorem no_host_leaves_the_cache:
  "mux_route False ''/...git/git-upload-pack'' = ToProxy \<and>
   github_url_canonicalizer id (https_url [] ''/...git/git-upload-pack'') = Inr (https_url [] ''/..'') \<and>
   local_disk_path ''/tmp/goblet'' (https_url [] ''/..'') = ''/tmp''"
  by code_simp

end
