(* ===== verification/HookProgress.thy ===== *)
theory HookProgress
  imports PackHook Server
begin

text \<open>
  The pack-objects hook ends: a bound on the steps of a process, whatever fails. And the two
  sides of its interface: \<open>serveFetchLocal\<close> (\<open>managed_repository.go\<close>) sets the environment
  that the hook (\<open>hooks/packobjects/main.go\<close>) reads.
\<close>

section \<open>A bound on the steps of a process\<close>

definition cached_length :: "hook \<Rightarrow> nat" where
  "cached_length h = (case h_entry h FStdout of None \<Rightarrow> 0 | Some i \<Rightarrow> length (h_content h i))"

definition prepare_bound :: "hook_env \<Rightarrow> nat \<Rightarrow> nat" where
  "prepare_bound env p = length (e_chunks env p) + 16"

definition purge_base :: "hook_env \<Rightarrow> nat \<Rightarrow> after_purge \<Rightarrow> nat" where
  "purge_base env p a = (case a of ThenExit \<Rightarrow> 0 | ThenPrepare \<Rightarrow> prepare_bound env p)"

definition open_bound :: "hook_env \<Rightarrow> nat \<Rightarrow> hook \<Rightarrow> nat" where
  "open_bound env p h = prepare_bound env p + cached_length h + 11"

definition steps_bound :: "hook_env \<Rightarrow> nat \<Rightarrow> hook \<Rightarrow> nat" where
  "steps_bound env p h =
     (case pc_of h p of
        CheckEnd \<Rightarrow> open_bound env p h + 1
      | OpenStdout \<Rightarrow> open_bound env p h
      | CopyStdout off \<Rightarrow> length (h_content h (p_fd (h_proc h p))) - off + 2
      | MarkServed \<Rightarrow> 1
      | PurgeEnd a \<Rightarrow> purge_base env p a + 10
      | PurgeStdout a \<Rightarrow> purge_base env p a + 9
      | PurgeList a \<Rightarrow> purge_base env p a + 8
      | PurgeNames fs a \<Rightarrow> purge_base env p a + 2 + length fs
      | PurgeDir a \<Rightarrow> purge_base env p a + 1
      | PrepareCheck \<Rightarrow> prepare_bound env p
      | PrepareMkdir \<Rightarrow> length (e_chunks env p) + 15
      | PrepareStart \<Rightarrow> length (e_chunks env p) + 14
      | PrepareStdout \<Rightarrow> length (e_chunks env p) + 13
      | RunCached bs \<Rightarrow> length bs + 12
      | RunPlain bs \<Rightarrow> length bs + 1
      | WriteEnd \<Rightarrow> 1
      | pc.Exited \<Rightarrow> 0
      | Dead \<Rightarrow> 0)"

lemma entries_length: "length (entries h) \<le> 4"
  unfolding entries_def by (rule order_trans [OF length_filter_le]) simp

lemmas bound_defs = steps_bound_def open_bound_def prepare_bound_def purge_base_def cached_length_def after_purge_pc_def

lemma hook_step_decreases:
  assumes "pc_of h p \<noteq> pc.Exited" and "pc_of h p \<noteq> Dead"
  shows "steps_bound env p (hook_step env ch p h) < steps_bound env p h"
proof (cases "pc_of h p")
  case OpenStdout
  then show ?thesis
    by (cases ch) (auto simp: hook_step_def hook_ops bound_defs split: option.splits)
next
  case (CopyStdout off)
  then show ?thesis
    by (cases ch) (auto simp: hook_step_def hook_ops bound_defs Let_def)
next
  case MarkServed
  then show ?thesis
    by (cases ch) (auto simp: hook_step_def hook_ops bound_defs split: option.splits)
next
  case (PurgeList a)
  with entries_length [of h] show ?thesis
    by (cases ch; cases a) (auto simp: hook_step_def hook_ops bound_defs)
next
  case (PurgeNames fs a)
  then show ?thesis
    by (cases ch; cases a; cases fs) (auto simp: hook_step_def hook_ops bound_defs)
next
  case (PurgeDir a)
  then show ?thesis
    by (cases ch; cases a) (auto simp: hook_step_def hook_ops bound_defs)
next
  case (RunCached bs)
  then show ?thesis
    by (cases ch; cases bs) (auto simp: hook_step_def hook_ops bound_defs)
next
  case (RunPlain bs)
  then show ?thesis
    by (cases ch; cases bs) (auto simp: hook_step_def hook_ops bound_defs)
next
  case WriteEnd
  then show ?thesis
    by (cases ch) (auto simp: hook_step_def hook_ops bound_defs split: option.splits)
next
  case CheckEnd
  then show ?thesis
    by (cases ch) (auto simp: hook_step_def hook_ops bound_defs split: option.splits)
next
  case (PurgeEnd a)
  then show ?thesis
    by (cases ch; cases a) (auto simp: hook_step_def hook_ops bound_defs)
next
  case (PurgeStdout a)
  then show ?thesis
    by (cases ch; cases a) (auto simp: hook_step_def hook_ops bound_defs)
next
  case PrepareCheck
  then show ?thesis
    by (cases ch) (auto simp: hook_step_def hook_ops bound_defs)
next
  case PrepareMkdir
  then show ?thesis
    by (cases ch) (auto simp: hook_step_def hook_ops bound_defs)
next
  case PrepareStart
  then show ?thesis
    by (cases ch) (auto simp: hook_step_def hook_ops bound_defs)
next
  case PrepareStdout
  then show ?thesis
    by (cases ch) (auto simp: hook_step_def hook_ops bound_defs)
qed (use assms in simp_all)

lemma hook_stays: "pc_of h p = pc.Exited \<or> pc_of h p = Dead \<Longrightarrow> hook_run env (map (Pair p) chs) h = h"
  by (induction chs) (auto simp: hook_step_def)

lemma hook_ends:
  "steps_bound env p h \<le> length chs \<Longrightarrow>
     pc_of (hook_run env (map (Pair p) chs) h) p = pc.Exited \<or> pc_of (hook_run env (map (Pair p) chs) h) p = Dead"
proof (induction chs arbitrary: h)
  case Nil
  then show ?case by (auto simp: bound_defs split: pc.splits)
next
  case (Cons ch chs)
  show ?case
  proof (cases "pc_of h p = pc.Exited \<or> pc_of h p = Dead")
    case True
    then show ?thesis using hook_stays [of h p env "ch # chs"] by simp
  next
    case False
    then have "steps_bound env p (hook_step env ch p h) < steps_bound env p h"
      using hook_step_decreases by blast
    with Cons show ?thesis by simp
  qed
qed

section \<open>The environment of the hook\<close>

text \<open>\<open>os.LookupEnv\<close> over the entries a process was started with; the last one counts.\<close>

fun env_lookup :: "string list \<Rightarrow> string \<Rightarrow> string option" where
  "env_lookup [] k = None"
| "env_lookup (e # es) k =
     (case env_lookup es k of
        Some v \<Rightarrow> Some v
      | None \<Rightarrow> if has_prefix e (k @ ''='') then Some (drop (length k + 1) e) else None)"

lemma env_lookup_poh:
  fixes d n c
  defines "env \<equiv> [''GIT_PROTOCOL=version=2'', ''POH_CACHE_DIR='' @ d, ''POH_STDIN_MAX='' @ n, ''POH_CI_SOURCE='' @ c]"
  shows "env_lookup env ''POH_CACHE_DIR'' = Some d" and "env_lookup env ''POH_STDIN_MAX'' = Some n"
    and "env_lookup env ''POH_CI_SOURCE'' = Some c"
  by (simp_all add: env_def has_prefix_def)

lemma serve_env:
  assumes "cfg_pack_objects_hook cfg \<noteq> []"
  shows "env_lookup (gc_env (serve_cmd W cfg r command ci)) ''POH_CACHE_DIR'' = Some (cfg_pack_objects_cache cfg)"
    and "env_lookup (gc_env (serve_cmd W cfg r command ci)) ''POH_STDIN_MAX'' = Some (show_int 1500)"
    and "env_lookup (gc_env (serve_cmd W cfg r command ci)) ''POH_CI_SOURCE'' = Some ci"
proof -
  define n where "n = show_int 1500"
  have "gc_env (serve_cmd W cfg r command ci) =
    [''GIT_PROTOCOL=version=2'', ''POH_CACHE_DIR='' @ cfg_pack_objects_cache cfg, ''POH_STDIN_MAX='' @ n, ''POH_CI_SOURCE='' @ ci]"
    using assms unfolding serve_cmd_def n_def [symmetric] by (simp add: Let_def)
  then have env: "P (gc_env (serve_cmd W cfg r command ci)) = P [''GIT_PROTOCOL=version=2'',
      ''POH_CACHE_DIR='' @ cfg_pack_objects_cache cfg, ''POH_STDIN_MAX='' @ n, ''POH_CI_SOURCE='' @ ci]" for P :: "string list \<Rightarrow> string option"
    by (simp only:)
  show "env_lookup (gc_env (serve_cmd W cfg r command ci)) ''POH_CACHE_DIR'' = Some (cfg_pack_objects_cache cfg)"
    and "env_lookup (gc_env (serve_cmd W cfg r command ci)) ''POH_STDIN_MAX'' = Some (show_int 1500)"
    and "env_lookup (gc_env (serve_cmd W cfg r command ci)) ''POH_CI_SOURCE'' = Some ci"
    unfolding n_def [symmetric] env [of "\<lambda>e. env_lookup e _"] by (rule env_lookup_poh)+
qed

lemma limit_parses: "parse_int (show_int 1500) = (1500, True)"
proof -
  have "show_int 1500 = ''1500''" by (simp add: show_int_def show_nat.simps digit_char_def) code_simp
  then show ?thesis by (simp add: parse_int_def parse_digits_def has_prefix_def digit_val_def)
qed

section \<open>Properties\<close>

text \<open>
  C24: the hook ends: whatever system calls fail and however reads are split, a new process
  that is not disturbed exits (or is killed) within a number of steps bounded by the chunks
  its command prints and the size of the cached output.
\<close>

theorem hook_terminates:
  assumes "fresh h p" and "length (e_chunks env p) + cached_length h + 28 \<le> length chs"
  shows "pc_of (hook_run env (map (Pair p) chs) h) p = pc.Exited \<or> pc_of (hook_run env (map (Pair p) chs) h) p = Dead"
proof -
  have "steps_bound env p h = length (e_chunks env p) + cached_length h + 28"
    using assms(1) by (simp add: fresh_def bound_defs)
  with assms(2) show ?thesis by (intro hook_ends) simp
qed

theorem hook_terminates_witness:
  "pc_of (hook_run demo_hook (map (Pair 0) (replicate 40 Fault)) empty_cache) 0 \<in> {pc.Exited, Dead}"
  using hook_terminates [of empty_cache 0 demo_hook "replicate 40 Fault"]
  by (simp add: fresh_def empty_cache_def demo_hook_def cached_length_def)

text \<open>
  C25: the server and the hook agree on their interface: a hook that upload-pack starts with
  the environment \<open>serveFetchLocal\<close> gave to git uses the configured cache directory and
  caches exactly the requests of at most 1500 bytes.
\<close>

theorem hook_gets_configuration:
  assumes "cfg_pack_objects_hook cfg \<noteq> []" and "args \<noteq> []" and "mkdir_all (cfg_pack_objects_cache cfg)"
    and "\<And>k. has_prefix k ''POH_'' \<Longrightarrow> lookup_env k = env_lookup (gc_env (serve_cmd W cfg r command ci)) k"
  shows "\<exists>key. hook_main sha256 args lookup_env mkdir_all stdin =
    Some (cfg_pack_objects_cache cfg, key, int (length stdin) \<le> 1500)"
proof -
  have "lookup_env ''POH_CACHE_DIR'' = Some (cfg_pack_objects_cache cfg)" "lookup_env ''POH_STDIN_MAX'' = Some (show_int 1500)"
    using assms(4) [of "''POH_CACHE_DIR''"] assms(4) [of "''POH_STDIN_MAX''"] serve_env [OF assms(1)]
    by (simp_all add: has_prefix_def)
  then show ?thesis
    using assms(2,3) by (simp add: hook_main_def limit_parses obtain_stdin_and_key_def within_max_def Let_def not_less)
qed

theorem hook_gets_configuration_witness:
  "\<exists>key. hook_main id [''git''] (env_lookup (gc_env (serve_cmd plain_wire (demo_config\<lparr>cfg_pack_objects_hook := ''/hook'',
      cfg_pack_objects_cache := ''/poh''\<rparr>) demo_repo [] ''ci''))) (\<lambda>_. True) ''abc'' = Some (''/poh'', key, True)"
proof -
  let ?cfg = "demo_config\<lparr>cfg_pack_objects_hook := ''/hook'', cfg_pack_objects_cache := ''/poh''\<rparr>"
  have "\<exists>key. hook_main id [''git''] (env_lookup (gc_env (serve_cmd plain_wire ?cfg demo_repo [] ''ci''))) (\<lambda>_. True) ''abc'' =
      Some (cfg_pack_objects_cache ?cfg, key, int (length ''abc'') \<le> 1500)"
    by (rule hook_gets_configuration) simp_all
  then show ?thesis by simp
qed

end
