(* ===== verification/Backup.thy ===== *)
theory Backup
  imports Opening "HOL-Library.Multiset" "HOL-Library.List_Lexorder" "HOL-Library.Char_ord"
begin

text \<open>
  The backup of the cache to a storage bucket (\<open>google/backup.go\<close>): bundles and manifests,
  both named by a Unix time of twelve digits. The bucket and the file operations are
  arguments; \<open>sort_names\<close> is \<open>sort.StringSlice\<close>, the order of bytes.
\<close>

section \<open>The bucket\<close>

text \<open>
  What an iteration over a prefix with the delimiter / yields, the name and the prefix of
  each entry in order, and the error it ends with; deletion; reading; and writing an
  object that is committed when it is closed.
\<close>

record 'b bucket_lib =
  list_objects :: "'b \<Rightarrow> string \<Rightarrow> (string \<times> string) list \<times> go_error option"
  delete_object :: "string \<Rightarrow> 'b \<Rightarrow> 'b"
  read_object :: "'b \<Rightarrow> string \<Rightarrow> go_error + body"
  commit_object :: "string \<Rightarrow> bytes \<Rightarrow> 'b \<Rightarrow> 'b"
  write_fails :: "'b \<Rightarrow> string \<Rightarrow> nat \<Rightarrow> go_error option"

definition manifest_dir :: string where
  "manifest_dir = ''goblet-repository-manifests''"

definition zero_unix :: int where
  "zero_unix = - 62135596800"

section \<open>gcBundle\<close>

definition is_number :: "string \<Rightarrow> bool" where
  "is_number s = snd (parse_int s)"

text \<open>The loop tests \<open>names[0]\<close> for every name.\<close>

definition bundle_names :: "string list \<Rightarrow> string list" where
  "bundle_names names = filter (\<lambda>name. is_number (path_base (names ! 0))) names"

definition sort_names :: "string list \<Rightarrow> string list" where
  "sort_names names = rev (sort names)"

text \<open>
  The Unix time of the newest bundle (that of the zero time when there is none), its name,
  and the bucket without the others.
\<close>

definition gc_bundle ::
  "status_lib \<Rightarrow> 'b bucket_lib \<Rightarrow> string \<Rightarrow> 'b \<Rightarrow> (int \<times> string \<times> go_error option) \<times> 'b" where
  "gc_bundle L B name b =
     (case list_objects B b (name @ ''/'') of
        (_, Some e) \<Rightarrow> ((zero_unix, [], Some (err_wrap L ''error while finding the bundles to GC: '' e)), b)
      | (attrs, None) \<Rightarrow>
          let names = filter (\<lambda>n. n \<noteq> []) (map fst attrs);
              bundles = sort_names (bundle_names names)
          in if bundles = [] then ((zero_unix, [], None), b)
             else ((fst (parse_int (path_base (bundles ! 0))), bundles ! 0, None),
                   fold (delete_object B) (tl bundles) b))"

section \<open>Saving\<close>

definition bundle_file :: "url \<Rightarrow> int \<Rightarrow> string" where
  "bundle_file u last_update = path_join [u_host u, u_path u, pad12 last_update]"

text \<open>
  \<open>backupManagedRepo\<close>: the bundle goes to a new object, which is committed only when git
  succeeds. The writer collects the bytes; \<open>write_fails\<close> is the error of the write that
  would make the object that long.
\<close>

definition object_write :: "'b bucket_lib \<Rightarrow> 'b \<Rightarrow> string \<Rightarrow> bytes io_write" where
  "object_write B b name bs s =
     (case write_fails B b name (length s + length bs) of
        Some e \<Rightarrow> (0, Some e, s)
      | None \<Rightarrow> (length bs, None, s @ bs))"

definition backup_managed_repo ::
  "status_lib \<Rightarrow> ('d, 'r) git_lib \<Rightarrow> server_config \<Rightarrow> 'b bucket_lib \<Rightarrow> url \<Rightarrow> managed_repo \<Rightarrow> 'b \<Rightarrow>
     'd world \<Rightarrow> go_error option \<times> 'b \<times> 'd world" where
  "backup_managed_repo L G cfg B u m b w =
     (let name = bundle_file u (w_last_update w (r_path m)) in
      case write_bundle L G cfg m (object_write B b name) [] w of
        (Some e, _, w') \<Rightarrow> (Some e, b, w')
      | (None, out, w') \<Rightarrow> (None, commit_object B name out b, w'))"

fun write_lines :: "bytes io_write \<Rightarrow> string list \<Rightarrow> bytes \<Rightarrow> go_error option \<times> bytes" where
  "write_lines wr [] s = (None, s)"
| "write_lines wr (u # us) s =
     (case wr (u @ newline) s of
        (_, Some e, s') \<Rightarrow> (Some e, s')
      | (_, None, s') \<Rightarrow> write_lines wr us s')"

definition write_manifest_file :: "'b bucket_lib \<Rightarrow> string \<Rightarrow> string list \<Rightarrow> 'b \<Rightarrow> go_error option \<times> 'b" where
  "write_manifest_file B name urls b =
     (case write_lines (object_write B b name) urls [] of
        (Some e, _) \<Rightarrow> (Some e, b)
      | (None, out) \<Rightarrow> (None, commit_object B name out b))"

text \<open>\<open>garbageCollectOldManifests\<close>; times in seconds and nanoseconds, a day is the limit.\<close>

definition manifest_clean_up_duration :: duration where
  "manifest_clean_up_duration = 24 * hour"

definition gc_manifest :: "'b bucket_lib \<Rightarrow> time \<Rightarrow> string \<times> string \<Rightarrow> 'b \<Rightarrow> 'b" where
  "gc_manifest B threshold attrs b =
     (if snd attrs \<noteq> [] then b
      else case parse_int (path_base (fst attrs)) of (sec, ok) \<Rightarrow>
        if \<not> ok then b
        else if of_unix sec < threshold then delete_object B (fst attrs) b
        else b)"

text \<open>The iteration is a page of the listing taken when it began.\<close>

definition garbage_collect_old_manifests :: "'b bucket_lib \<Rightarrow> string \<Rightarrow> time \<Rightarrow> 'b \<Rightarrow> 'b" where
  "garbage_collect_old_manifests B manifest_name now b =
     (let threshold = now - manifest_clean_up_duration;
          (attrs, _) = list_objects B b (path_join [manifest_dir, manifest_name] @ ''/'')
      in fold (gc_manifest B threshold) attrs b)"

text \<open>
  One repository of \<open>saveBackup\<close>; the urls collected so far, the bucket and the world are
  passed on.
\<close>

definition save_one ::
  "status_lib \<Rightarrow> ('d, 'r) git_lib \<Rightarrow> server_config \<Rightarrow> 'b bucket_lib \<Rightarrow> url \<times> managed_repo \<Rightarrow>
     string list \<times> 'b \<times> 'd world \<Rightarrow> string list \<times> 'b \<times> 'd world" where
  "save_one L G cfg B um st =
     (let (u, m) = um; (urls, b, w) = st;
          ((latest, _, err), b1) = gc_bundle L B (path_join [u_host u, u_path u]) b
      in if err \<noteq> None then (urls, b1, w)
         else if latest \<ge> w_last_update w (r_path m) then (urls @ [url_string u], b1, w)
         else case backup_managed_repo L G cfg B u m b1 w of
                (Some _, b2, w2) \<Rightarrow> (urls, b2, w2)
              | (None, b2, w2) \<Rightarrow> (urls @ [url_string u], b2, w2))"

text \<open>\<open>saveBackup\<close>, over the repositories in the order the registry lists them.\<close>

definition save_backup ::
  "status_lib \<Rightarrow> ('d, 'r) git_lib \<Rightarrow> server_config \<Rightarrow> 'b bucket_lib \<Rightarrow> string \<Rightarrow> (url \<times> managed_repo) list \<Rightarrow>
     time \<Rightarrow> 'b \<Rightarrow> 'd world \<Rightarrow> 'b \<times> 'd world" where
  "save_backup L G cfg B manifest_name repos now b w =
     (let (urls, b1, w1) = fold (save_one L G cfg B) repos ([], b, w);
          file = path_join [manifest_dir, manifest_name, pad12 (unix_of now)]
      in case write_manifest_file B file urls b1 of
           (Some _, b2) \<Rightarrow> (b2, w1)
         | (None, b2) \<Rightarrow> (garbage_collect_old_manifests B manifest_name now b2, w1))"

section \<open>Recovering\<close>

text \<open>
  \<open>bufio.Scanner\<close> over lines: a line that does not fit in the buffer of 65536 bytes ends
  the scan, and a carriage return at the end of a line is dropped.
\<close>

definition drop_cr :: "string \<Rightarrow> string" where
  "drop_cr l = trim_suffix l [CHR 0x0D]"

definition scan_lines :: "bytes \<Rightarrow> string list" where
  "scan_lines b =
     (let parts = split_on CHR 0x0A b;
          lines = (if last parts = [] then butlast parts else parts)
      in map drop_cr (takeWhile (\<lambda>l. length l < 65536) lines))"

definition read_manifest :: "'b bucket_lib \<Rightarrow> 'b \<Rightarrow> string \<Rightarrow> string set \<Rightarrow> string set" where
  "read_manifest B b name m =
     (case read_object B b name of
        Inl _ \<Rightarrow> m
      | Inr (bs, _) \<Rightarrow> m \<union> set (map trim_space (scan_lines bs)))"

text \<open>\<open>readRepoList\<close>: \<open>None\<close> is the nil map.\<close>

definition read_repo_list :: "'b bucket_lib \<Rightarrow> string \<Rightarrow> 'b \<Rightarrow> string set option" where
  "read_repo_list B manifest_name b =
     (case list_objects B b (path_join [manifest_dir, manifest_name] @ ''/'') of
        (_, Some _) \<Rightarrow> None
      | (attrs, None) \<Rightarrow> Some (fold (read_manifest B b) (filter (\<lambda>n. n \<noteq> []) (map fst attrs)) {}))"

text \<open>The operations of the file system: creating a file with a content, and removing it.\<close>

record 'd tmp_files =
  tmp_write :: "string \<Rightarrow> bytes \<Rightarrow> 'd \<Rightarrow> go_error option \<times> 'd"
  tmp_remove :: "string \<Rightarrow> 'd \<Rightarrow> 'd"

text \<open>
  \<open>downloadBackupBundle\<close>. The parameter \<open>name\<close> is overwritten by the result of
  \<open>gcBundle\<close>, so the message names nothing.
\<close>

definition download_backup_bundle ::
  "status_lib \<Rightarrow> 'b bucket_lib \<Rightarrow> 'd tmp_files \<Rightarrow> server_config \<Rightarrow> string \<Rightarrow> 'b \<Rightarrow> 'd world \<Rightarrow>
     (go_error + string) \<times> 'b \<times> 'd world" where
  "download_backup_bundle L B F cfg name b w =
     (case gc_bundle L B name b of ((_, name, err), b1) \<Rightarrow>
        if name = [] then
          (Inl (PlainError (''cannot find the bundle for '' @ name @ '': '' @
             (case err of None \<Rightarrow> ''<nil>'' | Some e \<Rightarrow> error_text L e))), b1, w)
        else (case read_object B b1 name of
                Inl e \<Rightarrow> (Inl e, b1, w)
              | Inr (bs, rerr) \<Rightarrow>
                  let path = path_join [cfg_root cfg, ''tmp-bundle''] in
                  (case tmp_write F path bs (w_disk w) of
                     (Some e, d) \<Rightarrow> (Inl e, b1, w\<lparr>w_disk := d\<rparr>)
                   | (None, d) \<Rightarrow>
                       (case rerr of
                          Some e \<Rightarrow> (Inl e, b1, w\<lparr>w_disk := d\<rparr>)
                        | None \<Rightarrow> (Inr path, b1, w\<lparr>w_disk := d\<rparr>)))))"

text \<open>One url of \<open>recoverFromBackup\<close>; \<open>parse_url\<close> is \<open>url.Parse\<close>.\<close>

definition recover_one ::
  "status_lib \<Rightarrow> ('d, 'r) git_lib \<Rightarrow> server_config \<Rightarrow> 'b bucket_lib \<Rightarrow> 'd tmp_files \<Rightarrow> canonicalizer \<Rightarrow>
     (string \<Rightarrow> url option) \<Rightarrow> string \<Rightarrow> 'b \<times> 'd world \<Rightarrow> ('b \<times> 'd world) process" where
  "recover_one L G cfg B F canon parse_url raw_url st =
     (case st of (b, w) \<Rightarrow>
        case parse_url raw_url of
          None \<Rightarrow> Returns (b, w)
        | Some u \<Rightarrow>
            (case download_backup_bundle L B F cfg (path_join [u_host u, u_path u]) b w of
               (Inl _, b1, w1) \<Rightarrow> Returns (b1, w1)
             | (Inr bundle_path, b1, w1) \<Rightarrow>
                 (case open_managed_repository L G cfg canon u w1 of
                    Exits \<Rightarrow> Exits
                  | Returns (Inl _, w2) \<Rightarrow> Returns (b1, w2)
                  | Returns (Inr m, w2) \<Rightarrow>
                      let (_, w3) = recover_from_bundle L G cfg m bundle_path w2
                      in Returns (b1, w3\<lparr>w_disk := tmp_remove F bundle_path (w_disk w3)\<rparr>))))"

text \<open>\<open>recoverFromBackup\<close>; \<open>order\<close> is the order the runtime gives the map.\<close>

fun recover_all :: "(string \<Rightarrow> 's \<Rightarrow> 's process) \<Rightarrow> string list \<Rightarrow> 's \<Rightarrow> 's process" where
  "recover_all f [] st = Returns st"
| "recover_all f (u # us) st = (case f u st of Exits \<Rightarrow> Exits | Returns st' \<Rightarrow> recover_all f us st')"

definition recover_from_backup ::
  "status_lib \<Rightarrow> ('d, 'r) git_lib \<Rightarrow> server_config \<Rightarrow> 'b bucket_lib \<Rightarrow> 'd tmp_files \<Rightarrow> canonicalizer \<Rightarrow>
     (string \<Rightarrow> url option) \<Rightarrow> (string set \<Rightarrow> string list) \<Rightarrow> string \<Rightarrow> 'b \<Rightarrow> 'd world \<Rightarrow> ('b \<times> 'd world) process" where
  "recover_from_backup L G cfg B F canon parse_url order manifest_name b w =
     (case read_repo_list B manifest_name b of
        None \<Rightarrow> Returns (b, w)
      | Some repos \<Rightarrow> recover_all (recover_one L G cfg B F canon parse_url) (order repos) (b, w))"

section \<open>Twelve digits\<close>

text \<open>The last \<open>k\<close> decimal digits of a number.\<close>

fun fixed_digits :: "nat \<Rightarrow> nat \<Rightarrow> string" where
  "fixed_digits 0 n = []"
| "fixed_digits (Suc k) n = fixed_digits k (n div 10) @ [digit_char (n mod 10)]"

lemma fixed_digits_length [simp]: "length (fixed_digits k n) = k"
  by (induction k arbitrary: n) auto

lemma fixed_digits_zero: "fixed_digits k 0 = replicate k (digit_char 0)"
  by (induction k) (simp_all add: replicate_append_same)

lemma padded_digits:
  "n < 10 ^ k \<Longrightarrow> 0 < k \<Longrightarrow>
     replicate (k - length (show_nat n)) (digit_char 0) @ show_nat n = fixed_digits k n \<and> length (show_nat n) \<le> k"
proof (induction k arbitrary: n)
  case (Suc k)
  show ?case
  proof (cases "n < 10")
    case True
    then show ?thesis by (simp add: show_nat.simps [of n] fixed_digits_zero)
  next
    case False
    then have "k \<noteq> 0" using Suc.prems(1) by (cases k) auto
    with Suc.IH [of "n div 10"] Suc.prems(1)
    have "replicate (k - length (show_nat (n div 10))) (digit_char 0) @ show_nat (n div 10) = fixed_digits k (n div 10)"
      "length (show_nat (n div 10)) \<le> k"
      by (simp_all add: less_mult_imp_div_less mult.commute)
    with False show ?thesis by (simp add: show_nat.simps [of n])
  qed
qed simp

lemma pad12_digits:
  assumes "0 \<le> t" and "t < 10 ^ 12"
  shows "pad12 t = fixed_digits 12 (nat t)"
proof -
  have "nat t < 10 ^ 12" using assms by simp
  with padded_digits [of "nat t" 12] assms(1) show ?thesis by (simp add: pad12_def)
qed

lemma digits_val_fixed: "n < 10 ^ k \<Longrightarrow> digits_val 0 (fixed_digits k n) = Some n"
proof (induction k arbitrary: n)
  case (Suc k)
  then have "digits_val 0 (fixed_digits k (n div 10)) = Some (n div 10)"
    by (simp add: less_mult_imp_div_less mult.commute)
  then show ?case by (simp add: digits_val_append digit_val_char)
qed simp

lemma fixed_digits_chars: "c \<in> set (fixed_digits k n) \<Longrightarrow> 48 \<le> (of_char c :: nat) \<and> (of_char c :: nat) \<le> 57"
  by (induction k arbitrary: n) (auto simp: digit_char_code)

lemma list_less_snoc:
  fixes xs ys :: "'a :: order list"
  assumes "length xs = length ys"
  shows "xs @ [a] < ys @ [b] \<longleftrightarrow> xs < ys \<or> xs = ys \<and> a < b"
  using assms by (induction xs ys rule: list_induct2) auto

lemma fixed_digits_less: "m < n \<Longrightarrow> n < 10 ^ k \<Longrightarrow> fixed_digits k m < fixed_digits k n"
proof (induction k arbitrary: m n)
  case (Suc k)
  have "n div 10 < 10 ^ k" using Suc.prems(2) by (simp add: less_mult_imp_div_less mult.commute)
  moreover have "m div 10 < n div 10 \<or> m div 10 = n div 10 \<and> m mod 10 < n mod 10"
  proof (cases "m div 10 = n div 10")
    case True
    have "n div 10 * 10 + m mod 10 < n div 10 * 10 + n mod 10"
      using Suc.prems(1) True div_mult_mod_eq [of m 10] div_mult_mod_eq [of n 10] by metis
    then have "m mod 10 < n mod 10" by (rule add_less_imp_less_left)
    with True show ?thesis by simp
  next
    case False
    with Suc.prems(1) div_le_mono [of m n 10] show ?thesis by simp
  qed
  moreover have "digit_char (m mod 10) < digit_char (n mod 10)" if "m mod 10 < n mod 10"
    using that by (simp add: less_char_def digit_char_code)
  ultimately show ?case
    using Suc.IH [of "m div 10" "n div 10"] by (auto simp: list_less_snoc)
qed simp

lemma list_less_eq_prefix:
  fixes p xs ys :: "'a :: order list"
  shows "p @ xs \<le> p @ ys \<longleftrightarrow> xs \<le> ys"
  by (induction p) auto

text \<open>Names under one directory sort as their times.\<close>

abbreviation bundle_name :: "string \<Rightarrow> int \<Rightarrow> string" where
  "bundle_name dir t \<equiv> dir @ ''/'' @ pad12 t"

definition valid_time :: "int \<Rightarrow> bool" where
  "valid_time t \<longleftrightarrow> 0 \<le> t \<and> t < 10 ^ 12"

lemma bundle_name_mono:
  assumes "valid_time s" and "valid_time t" and "s \<le> t"
  shows "bundle_name dir s \<le> bundle_name dir t"
proof (cases "s = t")
  case False
  with assms have "fixed_digits 12 (nat s) < fixed_digits 12 (nat t)"
    by (intro fixed_digits_less) (auto simp: valid_time_def)
  then have "pad12 s \<le> pad12 t"
    using assms(1,2) by (simp add: valid_time_def pad12_digits)
  then show ?thesis by (simp add: list_less_eq_prefix)
qed simp

lemma bundle_base:
  assumes "valid_time t"
  shows "parse_int (path_base (bundle_name dir t)) = (t, True)"
proof -
  let ?ds = "fixed_digits 12 (nat t)"
  have pad: "pad12 t = ?ds" and less: "nat t < 10 ^ 12" using assms by (simp_all add: valid_time_def pad12_digits nat_less_iff)
  have ds: "?ds \<noteq> []" "length ?ds = 12" by (simp_all flip: length_greater_0_conv)
  have no: "CHR ''/'' \<notin> set ?ds" "hd ?ds \<noteq> CHR ''-''" "hd ?ds \<noteq> CHR ''+''" "last ?ds \<noteq> CHR ''/''"
    using fixed_digits_chars [of _ 12 "nat t"] ds(1) by (fastforce dest: hd_in_set last_in_set)+
  have "dropWhile (\<lambda>c. c = CHR ''/'') (rev (dir @ ''/'' @ ?ds)) = rev (dir @ ''/'' @ ?ds)"
    using ds(1) no(4) by (cases ?ds rule: rev_cases) auto
  then have "path_base (dir @ ''/'' @ ?ds) = last (split_on CHR ''/'' (dir @ CHR ''/'' # ?ds))"
    by (simp add: path_base_def Let_def)
  also have "\<dots> = ?ds" using no(1) by (simp add: split_on_split split_on_no_sep)
  finally have base: "path_base (bundle_name dir t) = ?ds" by (simp add: pad)
  have "\<not> has_prefix ?ds ''-''" "\<not> has_prefix ?ds ''+''"
    using no(2,3) ds(1) by (cases ?ds; auto simp: has_prefix_def)+
  then have "parse_int ?ds = (int (nat t), True)"
    using ds(1) digits_val_fixed [OF less] less by (simp add: parse_int_def parse_digits_def)
  with base assms show ?thesis by (simp add: valid_time_def)
qed

lemma sort_map_mono:
  assumes "\<And>x y. x \<in> set xs \<Longrightarrow> y \<in> set xs \<Longrightarrow> x \<le> y \<Longrightarrow> f x \<le> f y"
  shows "sort (map f xs) = map f (sort xs)"
proof (rule properties_for_sort [OF _])
  show "sorted (map f (sort xs))"
    unfolding sorted_map by (rule sorted_wrt_mono_rel [OF _ sorted_sort]) (auto intro: assms)
qed simp

section \<open>Lines\<close>

lemma split_on_lines:
  "(\<forall>u \<in> set us. CHR 0x0A \<notin> set u) \<Longrightarrow> split_on CHR 0x0A (concat (map (\<lambda>u. u @ newline) us)) = us @ [[]]"
  by (induction us) (auto simp: split_on_append)

lemma write_lines_ok:
  assumes "\<And>n. write_fails B b name n = None"
  shows "write_lines (object_write B b name) us s = (None, s @ concat (map (\<lambda>u. u @ newline) us))"
  using assms by (induction us arbitrary: s) (simp_all add: object_write_def)

lemma graphic_no_control: "graphic u \<Longrightarrow> CHR 0x0A \<notin> set u \<and> CHR 0x0D \<notin> set u"
  by (induction u) auto

lemma graphic_drop_cr: "graphic u \<Longrightarrow> drop_cr u = u"
proof -
  assume "graphic u"
  then have "\<not> has_suffix u [CHR 0x0D]"
    using graphic_no_control [of u] by (auto simp: has_suffix_iff)
  then show ?thesis by (simp add: drop_cr_def trim_suffix_id)
qed

lemma scan_written_lines:
  assumes "\<forall>u \<in> set us. graphic u \<and> length u < 65536"
  shows "scan_lines (concat (map (\<lambda>u. u @ newline) us)) = us"
proof -
  have "\<forall>u \<in> set us. CHR 0x0A \<notin> set u" using assms graphic_no_control by blast
  moreover have "takeWhile (\<lambda>l. length l < 65536) us = us" using assms takeWhile_eq_all_conv by blast
  moreover have "map drop_cr us = us" using assms graphic_drop_cr by (simp add: map_idI)
  ultimately show ?thesis unfolding scan_lines_def by (simp only: split_on_lines Let_def last_snoc butlast_snoc refl if_True)
qed

lemma gc_bundle_sorted:
  assumes "list_objects B b (name @ ''/'') = (attrs, None)"
    and "sort_names (bundle_names (filter (\<lambda>n. n \<noteq> []) (map fst attrs))) = n # ns"
  shows "gc_bundle L B name b = ((fst (parse_int (path_base n)), n, None), fold (delete_object B) ns b)"
  using assms(2) by (simp only: gc_bundle_def assms(1) Let_def prod.case option.case list.distinct if_False nth_Cons_0 list.sel)

lemma gc_bundle_newest:
  assumes "list_objects B b (dir @ ''/'') = (attrs, None)"
    and "filter (\<lambda>n. n \<noteq> []) (map fst attrs) = map (bundle_name dir) ts"
    and "ts \<noteq> []" and "\<forall>t \<in> set ts. valid_time t"
  shows "\<exists>older. mset ts = add_mset (Max (set ts)) (mset older) \<and>
    gc_bundle L B dir b = ((Max (set ts), bundle_name dir (Max (set ts)), None),
      fold (delete_object B) (map (bundle_name dir) older) b)"
proof -
  let ?names = "map (bundle_name dir) ts"
  have "valid_time (hd ts)" using assms(3,4) by simp
  then have "is_number (path_base (?names ! 0))"
    using assms(3) bundle_base [of "hd ts" dir] by (simp add: is_number_def hd_conv_nth)
  then have all: "bundle_names ?names = ?names"
    using assms(3) by (simp add: bundle_names_def)
  have "sort ?names = map (bundle_name dir) (sort ts)"
    using assms(4) bundle_name_mono by (intro sort_map_mono) auto
  then have sorted: "sort_names (bundle_names ?names) = map (bundle_name dir) (rev (sort ts))"
    unfolding all sort_names_def by (simp only: rev_map)
  obtain t older where older: "rev (sort ts) = t # older" using assms(3) by (cases "rev (sort ts)") (auto dest: arg_cong [of _ _ length])
  have t: "t = Max (set ts)"
  proof (rule Max_eqI [symmetric])
    have "sort ts = rev older @ [t]" using older by (metis rev.simps(2) rev_rev_ident)
    then have "sorted (rev older @ [t])" and "set ts = set (rev older @ [t])"
      by (metis sorted_sort, metis set_sort)
    then show "y \<le> t" if "y \<in> set ts" for y using that by (auto simp: sorted_append)
    show "t \<in> set ts" using \<open>set ts = _\<close> by simp
  qed simp
  have "mset ts = mset (rev (sort ts))" by simp
  then have "mset ts = add_mset t (mset older)" by (simp add: older)
  moreover have "valid_time t" using t assms(3,4) Max_in [of "set ts"] by auto
  moreover have "sort_names (bundle_names (filter (\<lambda>n. n \<noteq> []) (map fst attrs))) = bundle_name dir t # map (bundle_name dir) older"
    unfolding assms(2) sorted older by simp
  from gc_bundle_sorted [OF assms(1) this] \<open>valid_time t\<close>
  have "gc_bundle L B dir b = ((t, bundle_name dir t, None), fold (delete_object B) (map (bundle_name dir) older) b)"
    by (simp only: bundle_base fst_conv)
  ultimately show ?thesis unfolding t by blast
qed

section \<open>A concrete bucket, for witnesses\<close>

text \<open>A list of names with their contents; a listing is in the order of the list.\<close>

type_synonym demo_bucket = "(string \<times> bytes) list"

definition demo_bucket_lib :: "demo_bucket bucket_lib" where
  "demo_bucket_lib = \<lparr>list_objects = (\<lambda>b p. (map (\<lambda>(n, _). (n, [])) (filter (\<lambda>(n, _). has_prefix n p) b), None)),
     delete_object = (\<lambda>n b. filter (\<lambda>(m, _). m \<noteq> n) b),
     read_object = (\<lambda>b n. case map_of b n of None \<Rightarrow> Inl (PlainError ''not found'') | Some bs \<Rightarrow> Inr (bs, None)),
     commit_object = (\<lambda>n bs b. (n, bs) # b), write_fails = (\<lambda>_ _ _. None)\<rparr>"

section \<open>Properties\<close>

text \<open>
  C31: garbage collection keeps one object: when the listing works, the first listed name
  decides for all of them. If its base is not a number, no bundle is found and nothing is
  deleted; if it is, every listed object counts as a bundle, the one with the greatest name
  is returned and all others are deleted. So when all of them are bundles, named by their
  times, in whatever order they are listed, the newest is kept and returned with its time.
\<close>

theorem gc_keeps_newest:
  assumes "list_objects B b (dir @ ''/'') = (attrs, None)" and "filter (\<lambda>n. n \<noteq> []) (map fst attrs) = names"
  shows "(if names \<noteq> [] \<and> is_number (path_base (hd names))
      then \<exists>n others. mset names = add_mset n (mset others) \<and> (\<forall>m \<in> set others. m \<le> n) \<and>
        gc_bundle L B dir b = ((fst (parse_int (path_base n)), n, None), fold (delete_object B) others b)
      else gc_bundle L B dir b = ((zero_unix, [], None), b)) \<and>
    (names = map (bundle_name dir) ts \<and> ts \<noteq> [] \<and> (\<forall>t \<in> set ts. valid_time t) \<longrightarrow>
      fst (gc_bundle L B dir b) = (Max (set ts), bundle_name dir (Max (set ts)), None))"
proof (intro conjI impI)
  show "if names \<noteq> [] \<and> is_number (path_base (hd names))
      then \<exists>n others. mset names = add_mset n (mset others) \<and> (\<forall>m \<in> set others. m \<le> n) \<and>
        gc_bundle L B dir b = ((fst (parse_int (path_base n)), n, None), fold (delete_object B) others b)
      else gc_bundle L B dir b = ((zero_unix, [], None), b)"
  proof (cases "names \<noteq> [] \<and> is_number (path_base (hd names))")
    case True
    then have all: "bundle_names names = names" by (cases names) (simp_all add: bundle_names_def)
    obtain n others where sorted: "rev (sort names) = n # others" using True by (cases "rev (sort names)") (auto dest: arg_cong [of _ _ length])
    then have "sort names = rev others @ [n]" by (metis rev.simps(2) rev_rev_ident)
    then have "\<forall>m \<in> set others. m \<le> n" by (metis sorted_append sorted_sort set_rev list.set_intros(1))
    moreover have "mset names = add_mset n (mset others)" using arg_cong [OF sorted, of mset] by simp
    moreover have "gc_bundle L B dir b = ((fst (parse_int (path_base n)), n, None), fold (delete_object B) others b)"
      by (rule gc_bundle_sorted [OF assms(1)]) (simp add: assms(2) all sort_names_def sorted)
    ultimately show ?thesis using True by auto
  next
    case False
    then have "bundle_names names = []" by (cases "names = []") (auto simp: bundle_names_def hd_conv_nth)
    then have "gc_bundle L B dir b = ((zero_unix, [], None), b)" by (simp add: gc_bundle_def assms sort_names_def Let_def)
    with False show ?thesis by (simp only: if_False)
  qed
  show "fst (gc_bundle L B dir b) = (Max (set ts), bundle_name dir (Max (set ts)), None)"
    if "names = map (bundle_name dir) ts \<and> ts \<noteq> [] \<and> (\<forall>t \<in> set ts. valid_time t)"
    using gc_bundle_newest [OF assms(1), of ts L] that assms(2) by auto
qed

theorem gc_keeps_newest_witness:
  "fst (gc_bundle plain_status demo_bucket_lib ''h/p'' [(''h/p/000000000007'', ''a''), (''h/p/000000000012'', ''b'')]) =
     (12, ''h/p/000000000012'', None)"
proof -
  have "list_objects demo_bucket_lib [(''h/p/000000000007'', ''a''), (''h/p/000000000012'', ''b'')] (''h/p'' @ ''/'') =
      (map (\<lambda>t. (bundle_name ''h/p'' t, [])) [7, 12], None)"
    by code_simp
  moreover have "filter (\<lambda>n. n \<noteq> []) (map fst (map (\<lambda>t. (bundle_name ''h/p'' t, [] :: string)) [7, 12])) =
      map (bundle_name ''h/p'') [7, 12]" by simp
  ultimately have "fst (gc_bundle plain_status demo_bucket_lib ''h/p''
      [(''h/p/000000000007'', ''a''), (''h/p/000000000012'', ''b'')]) = (Max (set [7, 12]), bundle_name ''h/p'' (Max (set [7, 12])), None)"
    using gc_keeps_newest [of demo_bucket_lib _ "''h/p''" _ _ plain_status "[7, 12]"] by (simp add: valid_time_def)
  moreover have "Max (set [7, 12 :: int]) = 12" by simp
  moreover have "bundle_name ''h/p'' 12 = ''h/p/000000000012''" by code_simp
  ultimately show ?thesis by metis
qed

text \<open>
  Round trip of a manifest: the urls \<open>writeManifestFile\<close> writes are the set that
  \<open>readManifest\<close> reads back, for urls of printable characters that fit in the scanner's
  buffer, when the bucket stores what it is given.
\<close>

theorem manifest_roundtrip:
  assumes "\<And>n k. write_fails B b n k = None" and "\<And>n bs. read_object B (commit_object B n bs b) n = Inr (bs, None)"
    and "\<forall>u \<in> set urls. graphic u \<and> length u < 65536"
  shows "\<exists>b'. write_manifest_file B name urls b = (None, b') \<and> read_manifest B b' name m = m \<union> set urls"
proof -
  let ?out = "concat (map (\<lambda>u. u @ newline) urls)"
  have "write_manifest_file B name urls b = (None, commit_object B name ?out b)"
    using write_lines_ok [of B b name urls "[]"] assms(1) by (simp add: write_manifest_file_def)
  moreover have "map trim_space urls = urls" using assms(3) by (simp add: map_idI trim_space_graphic)
  then have "read_manifest B (commit_object B name ?out b) name m = m \<union> set urls"
    using scan_written_lines [OF assms(3)] by (simp only: read_manifest_def assms(2) sum.case prod.case)
  ultimately show ?thesis by blast
qed

theorem manifest_roundtrip_witness:
  "\<exists>b'. write_manifest_file demo_bucket_lib ''m'' [''https://h/p'', ''https://h/q''] [] = (None, b') \<and>
     read_manifest demo_bucket_lib b' ''m'' {} = {''https://h/p'', ''https://h/q''}"
proof -
  have "\<forall>u \<in> set [''https://h/p'', ''https://h/q'']. graphic u \<and> length u < 65536" by simp
  from manifest_roundtrip [OF _ _ this, of demo_bucket_lib "[]" "''m''" "{}"] show ?thesis
    by (simp add: demo_bucket_lib_def)
qed

text \<open>
  The check of non-bundles looks at the first name only: with one other object in the
  directory, which sorts after the digits, the only bundle is deleted and the other object
  is taken for the newest, with time 0.
\<close>

theorem gc_deletes_the_bundle:
  "gc_bundle plain_status demo_bucket_lib ''h/p'' [(''h/p/000000000007'', ''a''), (''h/p/README'', ''b'')] =
     ((0, ''h/p/README'', None), [(''h/p/README'', ''b'')])"
proof -
  let ?b = "[(''h/p/000000000007'', ''a''), (''h/p/README'', ''b'')]"
  have "list_objects demo_bucket_lib ?b (''h/p'' @ ''/'') = ([(''h/p/000000000007'', []), (''h/p/README'', [])], None)"
    by code_simp
  moreover have "bundle_name ''h/p'' 7 = ''h/p/000000000007''" by code_simp
  with bundle_base [of 7 "''h/p''"] have "is_number (path_base ''h/p/000000000007'')"
    by (simp add: valid_time_def is_number_def)
  then have "sort_names (bundle_names (filter (\<lambda>n. n \<noteq> []) (map fst
      [(''h/p/000000000007'', [] :: string), (''h/p/README'', [])]))) = [''h/p/README'', ''h/p/000000000007'']"
    by (simp add: bundle_names_def sort_names_def less_char_def)
  ultimately have "gc_bundle plain_status demo_bucket_lib ''h/p'' ?b =
      ((fst (parse_int (path_base ''h/p/README'')), ''h/p/README'', None),
       fold (delete_object demo_bucket_lib) [''h/p/000000000007''] ?b)"
    by (rule gc_bundle_sorted)
  moreover have "fst (parse_int (path_base ''h/p/README'')) = 0" by code_simp
  ultimately show ?thesis by (simp add: demo_bucket_lib_def)
qed

text \<open>The message for a bundle that is not found has lost the name.\<close>

theorem missing_bundle_unnamed:
  "fst (download_backup_bundle plain_status demo_bucket_lib F cfg ''h/p'' [] w) =
     Inl (PlainError ''cannot find the bundle for : <nil>'')"
  by (simp add: download_backup_bundle_def gc_bundle_def demo_bucket_lib_def bundle_names_def sort_names_def Let_def)

end
