(* ===== verification/BackupRecovery.thy ===== *)
theory BackupRecovery
  imports Backup Paths
begin

text \<open>
  The two halves of \<open>google/backup.go\<close> together: what \<open>saveBackup\<close> puts into the bucket is
  what \<open>recoverFromBackup\<close> gives to git on a new machine.
\<close>

section \<open>A bucket that works\<close>

text \<open>
  The documented behaviour of a bucket when nothing fails, over its objects by name: a
  listing with a prefix and the delimiter / yields each object directly below the prefix
  once, and entries without a name for what lies deeper.
\<close>

definition listed :: "(string \<rightharpoonup> bytes) \<Rightarrow> string \<Rightarrow> string set" where
  "listed objs p = {n \<in> dom objs. n \<noteq> [] \<and> has_prefix n p \<and> CHR ''/'' \<notin> set (drop (length p) n)}"

definition entry_names :: "(string \<times> string) list \<Rightarrow> string list" where
  "entry_names attrs = filter (\<lambda>n. n \<noteq> []) (map fst attrs)"

definition bucket_law :: "'b bucket_lib \<Rightarrow> ('b \<Rightarrow> string \<rightharpoonup> bytes) \<Rightarrow> bool" where
  "bucket_law B objs \<longleftrightarrow>
     (\<forall>b n bs. objs (commit_object B n bs b) = (objs b)(n \<mapsto> bs)) \<and>
     (\<forall>b n. objs (delete_object B n b) = (objs b)(n := None)) \<and>
     (\<forall>b n bs. objs b n = Some bs \<longrightarrow> read_object B b n = Inr (bs, None)) \<and>
     (\<forall>b n k. write_fails B b n k = None) \<and>
     (\<forall>b p. \<exists>attrs. list_objects B b p = (attrs, None) \<and> distinct (entry_names attrs) \<and>
        set (entry_names attrs) = listed (objs b) p \<and> (\<forall>a \<in> set attrs. fst a = [] \<or> snd a = []))"

lemma bucket_commit: "bucket_law B objs \<Longrightarrow> objs (commit_object B n bs b) = (objs b)(n \<mapsto> bs)"
  by (simp add: bucket_law_def)

lemma bucket_delete: "bucket_law B objs \<Longrightarrow> objs (delete_object B n b) = (objs b)(n := None)"
  by (simp add: bucket_law_def)

lemma bucket_read: "bucket_law B objs \<Longrightarrow> objs b n = Some bs \<Longrightarrow> read_object B b n = Inr (bs, None)"
  by (simp add: bucket_law_def)

lemma bucket_writes: "bucket_law B objs \<Longrightarrow> write_fails B b n k = None"
  by (simp add: bucket_law_def)

lemma bucket_list:
  assumes "bucket_law B objs"
  obtains attrs where "list_objects B b p = (attrs, None)" and "distinct (entry_names attrs)"
    and "set (entry_names attrs) = listed (objs b) p" and "\<And>a. a \<in> set attrs \<Longrightarrow> fst a = [] \<or> snd a = []"
proof -
  have "\<exists>attrs. list_objects B b p = (attrs, None) \<and> distinct (entry_names attrs) \<and>
      set (entry_names attrs) = listed (objs b) p \<and> (\<forall>a \<in> set attrs. fst a = [] \<or> snd a = [])"
    using assms by (simp add: bucket_law_def)
  then show ?thesis using that by blast
qed

lemma bucket_deletes:
  assumes "bucket_law B objs"
  shows "objs (fold (delete_object B) ns b) = (\<lambda>n. if n \<in> set ns then None else objs b n)"
proof (induction ns arbitrary: b)
  case (Cons m ns)
  show ?case by (simp add: Cons.IH bucket_delete [OF assms] fun_eq_iff)
qed simp

text \<open>Deleting, and directories that have nothing to do with each other.\<close>

lemma listed_name: "n \<in> listed objs p \<Longrightarrow> \<exists>e. n = p @ e \<and> CHR ''/'' \<notin> set e"
  by (auto simp: listed_def has_prefix_iff)

lemma listed_apart:
  assumes "n \<in> listed objs (d @ ''/'')" and "n \<in> listed objs' (d' @ ''/'')"
  shows "d = d'"
proof -
  obtain e where e: "n = d @ CHR ''/'' # e" "CHR ''/'' \<notin> set e"
    using listed_name [OF assms(1)] by auto
  obtain e' where e': "n = d' @ CHR ''/'' # e'" "CHR ''/'' \<notin> set e'"
    using listed_name [OF assms(2)] by auto
  have "split_on CHR ''/'' d @ [e] = split_on CHR ''/'' d' @ [e']"
    using arg_cong [OF e(1), of "split_on CHR ''/''"] arg_cong [OF e'(1), of "split_on CHR ''/''"] e(2) e'(2)
    by (simp add: split_on_split split_on_no_sep)
  then have "e = e'" by simp
  with e e' show ?thesis by simp
qed

section \<open>Garbage collection over the times of the bundles\<close>

lemma pad12_plain:
  assumes "valid_time t"
  shows "pad12 t \<noteq> [] \<and> CHR ''/'' \<notin> set (pad12 t) \<and> pad12 t \<noteq> ''.'' \<and> pad12 t \<noteq> ''..''"
proof -
  have pad: "pad12 t = fixed_digits 12 (nat t)" using assms by (simp add: valid_time_def pad12_digits)
  have len: "length (pad12 t) = 12" unfolding pad by (rule fixed_digits_length)
  have "CHR ''/'' \<notin> set (pad12 t)"
  proof
    assume "CHR ''/'' \<in> set (pad12 t)"
    then have "48 \<le> (of_char (CHR ''/'') :: nat)" unfolding pad by (rule conjunct1 [OF fixed_digits_chars])
    then show False by simp
  qed
  moreover have "pad12 t \<noteq> []" and "pad12 t \<noteq> ''.''" and "pad12 t \<noteq> ''..''" using len by (auto dest: arg_cong [of _ _ length])
  ultimately show ?thesis by blast
qed

lemma bundle_name_inj:
  assumes "valid_time s" and "valid_time t" and "bundle_name dir s = bundle_name dir t"
  shows "s = t"
proof -
  have "(s, True) = (t, True)"
    using bundle_base [OF assms(1), of dir] bundle_base [OF assms(2), of dir] unfolding assms(3) by (rule trans [OF sym])
  then show ?thesis by simp
qed

text \<open>The bundles of a directory: their times.\<close>

definition bundles_at :: "(string \<rightharpoonup> bytes) \<Rightarrow> string \<Rightarrow> int set \<Rightarrow> bool" where
  "bundles_at objs dir T \<longleftrightarrow> listed objs (dir @ ''/'') = bundle_name dir ` T \<and> finite T \<and> (\<forall>t \<in> T. valid_time t)"

lemma gc_bundle_none:
  assumes "bucket_law B objs" and "bundles_at (objs b) dir {}"
  shows "gc_bundle L B dir b = ((zero_unix, [], None), b)"
proof -
  obtain attrs where "list_objects B b (dir @ ''/'') = (attrs, None)" and "set (entry_names attrs) = {}"
    using bucket_list [OF assms(1), of b "dir @ ''/''"] assms(2) by (metis bundles_at_def image_empty)
  then show ?thesis by (simp add: gc_bundle_def entry_names_def bundle_names_def sort_names_def Let_def)
qed

lemma gc_bundle_times:
  assumes law: "bucket_law B objs" and at: "bundles_at (objs b) dir T" and "T \<noteq> {}"
  obtains b1 where "gc_bundle L B dir b = ((Max T, bundle_name dir (Max T), None), b1)"
    and "objs b1 = (\<lambda>n. if n \<in> bundle_name dir ` (T - {Max T}) then None else objs b n)"
proof -
  have T: "listed (objs b) (dir @ ''/'') = bundle_name dir ` T" "\<And>t. t \<in> T \<Longrightarrow> valid_time t"
    using at by (simp_all add: bundles_at_def)
  obtain attrs where attrs: "list_objects B b (dir @ ''/'') = (attrs, None)" "distinct (entry_names attrs)"
    "set (entry_names attrs) = bundle_name dir ` T"
    using bucket_list [OF law, of b "dir @ ''/''"] T(1) by metis
  define time where "time n = fst (parse_int (path_base n))" for n
  have time: "time (bundle_name dir t) = t" if "t \<in> T" for t
    using bundle_base [OF T(2) [OF that]] by (simp add: time_def)
  define ts where "ts = map time (entry_names attrs)"
  have names: "entry_names attrs = map (bundle_name dir) ts"
    unfolding ts_def map_map by (rule map_idI [symmetric]) (use attrs(3) time in \<open>auto simp del: bundle_names_def\<close>)
  have "time ` bundle_name dir ` T = (\<lambda>t. t) ` T" unfolding image_image by (rule image_cong [OF refl time])
  then have ts: "set ts = T" by (simp only: ts_def set_map attrs(3) image_ident)
  have "distinct ts" using attrs(2) unfolding names distinct_map by (rule conjunct1)
  have "ts \<noteq> []" and "\<forall>t \<in> set ts. valid_time t" using ts T(2) assms(3) by auto
  from gc_bundle_newest [OF attrs(1) names [unfolded entry_names_def] this]
  obtain older where older: "mset ts = add_mset (Max T) (mset older)"
    "gc_bundle L B dir b = ((Max T, bundle_name dir (Max T), None), fold (delete_object B) (map (bundle_name dir) older) b)"
    unfolding ts by blast
  have "distinct (Max T # older)" and "set ts = set (Max T # older)"
    using \<open>distinct ts\<close> older(1) by (metis mset.simps(2) mset_eq_imp_distinct_iff, metis mset.simps(2) mset_eq_setD)
  then have "set older = T - {Max T}" using ts by auto
  then have "set (map (bundle_name dir) older) = bundle_name dir ` (T - {Max T})" by simp
  with that [OF older(2)] bucket_deletes [OF law, of "map (bundle_name dir) older" b] show ?thesis by metis
qed

section \<open>Names of objects\<close>

text \<open>A directory of the bucket that joining can extend.\<close>

definition real_dir :: "string \<Rightarrow> bool" where
  "real_dir d \<longleftrightarrow> d \<noteq> [] \<and> d \<noteq> ''.'' \<and> d \<noteq> ''/''"

lemma clean_elems_snoc:
  "e \<noteq> [] \<Longrightarrow> e \<noteq> ''.'' \<Longrightarrow> e \<noteq> ''..'' \<Longrightarrow> clean_elems r out (es @ [e]) = clean_elems r out es @ [e]"
  by (induction r out es rule: clean_elems.induct) auto

lemma path_clean_snoc:
  assumes "s \<noteq> []" and "e \<noteq> []" and "CHR ''/'' \<notin> set e" and "e \<noteq> ''.''" and "e \<noteq> ''..''" and "real_dir (path_clean s)"
  shows "path_clean (s @ CHR ''/'' # e) = path_clean s @ CHR ''/'' # e"
proof -
  define es where "es = clean_elems (has_prefix s ''/'') [] (split_on CHR ''/'' s)"
  have root: "has_prefix (s @ CHR ''/'' # e) ''/'' = has_prefix s ''/''"
    using assms(1) by (cases s) (simp_all add: has_prefix_def)
  have "clean_elems (has_prefix s ''/'') [] (split_on CHR ''/'' (s @ CHR ''/'' # e)) = es @ [e]"
    by (simp add: es_def split_on_split split_on_no_sep assms(3) clean_elems_snoc [OF assms(2,4,5)])
  then have new: "path_clean (s @ CHR ''/'' # e) = (if has_prefix s ''/'' then ''/'' else []) @ join_with ''/'' (es @ [e])"
    by (cases "has_prefix s ''/''") (simp_all add: path_clean_def Let_def root)
  have old: "path_clean s = (if has_prefix s ''/'' then ''/'' @ join_with ''/'' es else if es = [] then ''.'' else join_with ''/'' es)"
    using assms(1) by (simp add: path_clean_def Let_def es_def)
  have "es \<noteq> []" using assms(6) old by (auto simp: real_dir_def split: if_splits)
  with new old show ?thesis by (simp add: join_with_snoc)
qed

lemma join_with_nonempty: "x \<noteq> [] \<Longrightarrow> join_with sep (x # xs) \<noteq> []"
  by (cases xs) simp_all

lemma path_join_snoc:
  assumes "e \<noteq> []" and "CHR ''/'' \<notin> set e" and "e \<noteq> ''.''" and "e \<noteq> ''..''" and "real_dir (path_join xs)"
  shows "path_join (xs @ [e]) = path_join xs @ CHR ''/'' # e"
proof -
  let ?ne = "dropWhile (\<lambda>e. e = []) xs"
  obtain y ys where ys: "?ne = y # ys" using assms(5) by (cases ?ne) (simp_all add: path_join_def real_dir_def)
  have y: "y \<noteq> []" using hd_dropWhile [of "\<lambda>e. e = []" xs] ys by simp
  have "dropWhile (\<lambda>e. e = []) (xs @ [e]) = ?ne @ [e]"
    using ys by (metis dropWhile_append1 dropWhile_eq_Nil_conv list.distinct(1))
  moreover have "join_with ''/'' ((y # ys) @ [e]) = join_with ''/'' (y # ys) @ CHR ''/'' # e"
    using join_with_snoc [of "y # ys" "''/''" e] by simp
  ultimately have "path_join (xs @ [e]) = path_clean (join_with ''/'' (y # ys) @ CHR ''/'' # e)"
    "path_join xs = path_clean (join_with ''/'' (y # ys))"
    by (simp_all add: path_join_def ys del: join_with.simps)
  with path_clean_snoc [OF join_with_nonempty [OF y] assms(1-4)] assms(5) show ?thesis by simp
qed

abbreviation repo_dir :: "url \<Rightarrow> string" where
  "repo_dir u \<equiv> path_join [u_host u, u_path u]"

lemma bundle_file_name: "real_dir (repo_dir u) \<Longrightarrow> valid_time t \<Longrightarrow> bundle_file u t = bundle_name (repo_dir u) t"
  using path_join_snoc [of "pad12 t" "[u_host u, u_path u]"] pad12_plain [of t] by (simp add: bundle_file_def)

section \<open>Saving\<close>

definition collect :: "bytes io_write" where
  "collect bs s = (length bs, None, s @ bs)"

text \<open>The times of the bundles in a directory.\<close>

definition bundle_times :: "(string \<rightharpoonup> bytes) \<Rightarrow> string \<Rightarrow> int set" where
  "bundle_times objs dir = (\<lambda>n. fst (parse_int (path_base n))) ` listed objs (dir @ ''/'')"

lemma bundle_times_at:
  assumes "bundles_at objs dir T"
  shows "bundle_times objs dir = T"
proof -
  have "fst (parse_int (path_base (bundle_name dir t))) = t" if "t \<in> T" for t
  proof -
    have "valid_time t" using assms that by (simp only: bundles_at_def)
    then show ?thesis by (simp only: bundle_base fst_conv)
  qed
  then have "(\<lambda>n. fst (parse_int (path_base n))) ` bundle_name dir ` T = T" by force
  moreover have "listed objs (dir @ ''/'') = bundle_name dir ` T" using assms by (simp only: bundles_at_def)
  ultimately show ?thesis by (simp only: bundle_times_def)
qed

text \<open>
  The newest bundles of the repositories after a save of them, with their times, if git makes
  those that are to be made: the one in the bucket where nothing was fetched since its time,
  and otherwise the one git makes now. One repository after the other.
\<close>

fun newest_bundles ::
  "status_lib \<Rightarrow> ('d, 'r) git_lib \<Rightarrow> server_config \<Rightarrow> (string \<rightharpoonup> bytes) \<Rightarrow> (url \<times> managed_repo) list \<Rightarrow> 'd world \<Rightarrow>
     ((url \<times> int \<times> bytes) list \<times> 'd world) option" where
  "newest_bundles L G cfg objs [] w = Some ([], w)"
| "newest_bundles L G cfg objs ((u, m) # rest) w =
     (let T = bundle_times objs (repo_dir u) in
      if \<exists>t \<in> T. w_last_update w (r_path m) \<le> t then
        map_option (\<lambda>(outs, w2). ((u, Max T, the (objs (bundle_name (repo_dir u) (Max T)))) # outs, w2))
          (newest_bundles L G cfg objs rest w)
      else (case write_bundle L G cfg m collect [] w of
              (Some _, _, _) \<Rightarrow> None
            | (None, out, w1) \<Rightarrow>
                map_option (\<lambda>(outs, w2). ((u, w_last_update w (r_path m), out) # outs, w2))
                  (newest_bundles L G cfg objs rest w1)))"

text \<open>The newest bundle of a repository is this one.\<close>

definition backed_up :: "(string \<rightharpoonup> bytes) \<Rightarrow> url \<times> int \<times> bytes \<Rightarrow> bool" where
  "backed_up objs saved \<longleftrightarrow> (case saved of (u, t, out) \<Rightarrow>
     (\<exists>T. bundles_at objs (repo_dir u) T \<and> t \<in> T \<and> (\<forall>t' \<in> T. t' \<le> t)) \<and>
     objs (bundle_name (repo_dir u) t) = Some out)"

lemma write_bundle_last_update: "w_last_update (snd (snd (write_bundle L G cfg m wr s w))) = w_last_update w"
  by (simp add: write_bundle_def start_operation_def run_git_with_stdout_def run_to_writer_def Let_def split_beta)

text \<open>Nothing changed directly below a directory; and below no other directory than this.\<close>

definition same_at :: "(string \<rightharpoonup> bytes) \<Rightarrow> (string \<rightharpoonup> bytes) \<Rightarrow> string \<Rightarrow> bool" where
  "same_at objs objs' d \<longleftrightarrow>
     listed objs' (d @ ''/'') = listed objs (d @ ''/'') \<and> (\<forall>n \<in> listed objs (d @ ''/''). objs' n = objs n)"

definition elsewhere_same :: "string \<Rightarrow> (string \<rightharpoonup> bytes) \<Rightarrow> (string \<rightharpoonup> bytes) \<Rightarrow> bool" where
  "elsewhere_same dir objs objs' \<longleftrightarrow> (\<forall>d. d \<noteq> dir \<longrightarrow> same_at objs objs' d)"

lemma same_at_refl: "same_at objs objs d"
  by (simp add: same_at_def)

lemma same_at_trans: "same_at objs objs1 d \<Longrightarrow> same_at objs1 objs2 d \<Longrightarrow> same_at objs objs2 d"
  by (simp add: same_at_def)

lemma same_at_bundles: "same_at objs objs' d \<Longrightarrow> bundles_at objs d T \<Longrightarrow> bundles_at objs' d T"
  by (simp add: same_at_def bundles_at_def)

lemma same_at_backed_up:
  assumes "same_at objs objs' (repo_dir u)" and "backed_up objs (u, t, out)"
  shows "backed_up objs' (u, t, out)"
proof -
  obtain T where T: "bundles_at objs (repo_dir u) T" "t \<in> T" "\<forall>t' \<in> T. t' \<le> t"
    and out: "objs (bundle_name (repo_dir u) t) = Some out"
    using assms(2) unfolding backed_up_def prod.case by blast
  have "bundle_name (repo_dir u) t \<in> listed objs (repo_dir u @ ''/'')" using T(1,2) unfolding bundles_at_def by blast
  then have "objs' (bundle_name (repo_dir u) t) = Some out" using assms(1) out unfolding same_at_def by metis
  then show ?thesis using same_at_bundles [OF assms(1) T(1)] T(2,3) unfolding backed_up_def prod.case by blast
qed

lemma bundle_listed:
  assumes "valid_time t" and "objs (bundle_name dir t) = Some out"
  shows "bundle_name dir t \<in> listed objs (dir @ ''/'')"
  using assms pad12_plain [of t] by (auto simp: listed_def has_prefix_def)

lemma change_elsewhere:
  assumes "\<And>n. objs' n \<noteq> objs n \<Longrightarrow> n \<in> listed objs (dir @ ''/'') \<or> n \<in> listed objs' (dir @ ''/'')"
  shows "elsewhere_same dir objs objs'"
  unfolding elsewhere_same_def same_at_def
proof (intro allI impI conjI ballI)
  fix d assume d: "d \<noteq> dir"
  have same: "objs' n = objs n" if "n \<in> listed objs (d @ ''/'') \<or> n \<in> listed objs' (d @ ''/'')" for n
    using that assms [of n] d listed_apart by metis
  then show "objs' n = objs n" if "n \<in> listed objs (d @ ''/'')" for n using that by blast
  have "n \<in> listed objs' (d @ ''/'')" if "n \<in> listed objs (d @ ''/'')" for n
    using that same [of n] by (simp add: listed_def dom_def)
  moreover have "n \<in> listed objs (d @ ''/'')" if "n \<in> listed objs' (d @ ''/'')" for n
    using that same [of n] by (simp add: listed_def dom_def)
  ultimately show "listed objs' (d @ ''/'') = listed objs (d @ ''/'')" by blast
qed

lemma listed_deleted: "listed (\<lambda>n. if n \<in> D then None else objs n) p = listed objs p - D"
  by (auto simp: listed_def split: if_splits)

lemma listed_committed:
  "n \<in> listed (objs(n \<mapsto> out)) p \<Longrightarrow> listed (objs(n \<mapsto> out)) p = insert n (listed objs p)"
  by (auto simp: listed_def)

lemma image_minus_rest: "x \<in> A \<Longrightarrow> f x \<notin> f ` (A - {x}) \<Longrightarrow> f ` A - f ` (A - {x}) = {f x}"
  by auto

lemma gc_bundle_keeps:
  assumes law: "bucket_law B objs" and at: "bundles_at (objs b) dir T" and T: "T \<noteq> {}"
  obtains b1 where "gc_bundle L B dir b = ((Max T, bundle_name dir (Max T), None), b1)"
    and "bundles_at (objs b1) dir {Max T}" and "objs b1 (bundle_name dir (Max T)) = objs b (bundle_name dir (Max T))"
    and "elsewhere_same dir (objs b) (objs b1)"
proof -
  let ?D = "bundle_name dir ` (T - {Max T})"
  have listed: "listed (objs b) (dir @ ''/'') = bundle_name dir ` T" and fin: "finite T" and valid: "\<And>t. t \<in> T \<Longrightarrow> valid_time t"
    using at by (simp_all add: bundles_at_def)
  have max: "Max T \<in> T" using fin T by (rule Max_in)
  obtain b1 where gc: "gc_bundle L B dir b = ((Max T, bundle_name dir (Max T), None), b1)"
    and b1: "objs b1 = (\<lambda>n. if n \<in> ?D then None else objs b n)"
    using gc_bundle_times [OF law at T, of L thesis] by blast
  have new: "bundle_name dir (Max T) \<notin> ?D" using bundle_name_inj valid max by blast
  have "bundle_name dir ` T - ?D = {bundle_name dir (Max T)}" by (rule image_minus_rest [OF max new])
  then have "listed (objs b1) (dir @ ''/'') = {bundle_name dir (Max T)}" by (simp only: b1 listed_deleted listed)
  then have "bundles_at (objs b1) dir {Max T}" using valid max by (simp add: bundles_at_def)
  moreover have "objs b1 (bundle_name dir (Max T)) = objs b (bundle_name dir (Max T))" using new by (simp only: b1 if_False)
  moreover have "elsewhere_same dir (objs b) (objs b1)"
  proof (rule change_elsewhere)
    fix n assume "objs b1 n \<noteq> objs b n"
    then have "n \<in> ?D" by (simp only: b1 split: if_splits) simp
    then show "n \<in> listed (objs b) (dir @ ''/'') \<or> n \<in> listed (objs b1) (dir @ ''/'')" using listed by blast
  qed
  ultimately show ?thesis using that gc by blast
qed

lemma elsewhere_same_refl: "elsewhere_same dir objs objs"
  by (simp add: elsewhere_same_def same_at_refl)

lemma elsewhere_same_trans:
  "elsewhere_same dir objs objs1 \<Longrightarrow> elsewhere_same dir objs1 objs2 \<Longrightarrow> elsewhere_same dir objs objs2"
  using same_at_trans unfolding elsewhere_same_def by blast

text \<open>Garbage collection before a new bundle is stored.\<close>

lemma gc_bundle_before:
  assumes law: "bucket_law B objs" and at: "bundles_at (objs b) dir T" and new: "valid_time t" "\<And>t'. t' \<in> T \<Longrightarrow> t' < t"
  obtains latest name b1 T1 where "gc_bundle L B dir b = ((latest, name, None), b1)" and "latest < t"
    and "bundles_at (objs b1) dir T1" and "\<And>t'. t' \<in> T1 \<Longrightarrow> t' < t" and "elsewhere_same dir (objs b) (objs b1)"
proof (cases "T = {}")
  case True
  have "zero_unix < t" using new(1) by (simp add: zero_unix_def valid_time_def)
  with that gc_bundle_none [OF law] at elsewhere_same_refl show ?thesis unfolding True by blast
next
  case False
  have "Max T < t" using at False new(2) by (simp add: bundles_at_def)
  then show ?thesis
    using gc_bundle_keeps [OF law at False, of L thesis] that by blast
qed

lemma write_bundle_collects:
  assumes "bucket_law B objs"
  shows "object_write B b name = collect"
  by (simp add: object_write_def collect_def bucket_writes [OF assms] fun_eq_iff)

lemma save_one_backs_up:
  assumes law: "bucket_law B objs" and at: "bundles_at (objs b) (repo_dir u) T" and dir: "real_dir (repo_dir u)"
    and new: "valid_time t" "\<And>t'. t' \<in> T \<Longrightarrow> t' < t" and t: "t = w_last_update w (r_path m)"
    and made: "write_bundle L G cfg m collect [] w = (None, out, w')"
  obtains b' where "save_one L G cfg B (u, m) (urls, b, w) = (urls @ [url_string u], b', w')"
    and "backed_up (objs b') (u, t, out)" and "elsewhere_same (repo_dir u) (objs b) (objs b')"
proof -
  obtain latest name b1 T1 where gc: "gc_bundle L B (repo_dir u) b = ((latest, name, None), b1)" "latest < t"
    and T1: "bundles_at (objs b1) (repo_dir u) T1" "\<And>t'. t' \<in> T1 \<Longrightarrow> t' < t"
    and same: "elsewhere_same (repo_dir u) (objs b) (objs b1)"
    using gc_bundle_before [OF law at new] by metis
  define b' where "b' = commit_object B (bundle_name (repo_dir u) t) out b1"
  have objs': "objs b' = (objs b1)(bundle_name (repo_dir u) t \<mapsto> out)" by (simp only: b'_def bucket_commit [OF law])
  then have here: "objs b' (bundle_name (repo_dir u) t) = Some out" by (simp only: fun_upd_same)
  have "backup_managed_repo L G cfg B u m b1 w = (None, b', w')"
    using made by (simp add: backup_managed_repo_def write_bundle_collects [OF law] bundle_file_name [OF dir new(1)] b'_def flip: t)
  then have save: "save_one L G cfg B (u, m) (urls, b, w) = (urls @ [url_string u], b', w')"
    using gc by (simp add: save_one_def flip: t)
  note name = bundle_listed [of t "objs b'" "repo_dir u" out, OF new(1) here]
  have "listed (objs b') (repo_dir u @ ''/'') = bundle_name (repo_dir u) ` insert t T1"
    using listed_committed [OF name [unfolded objs']] T1(1) by (simp add: objs' bundles_at_def)
  then have "bundles_at (objs b') (repo_dir u) (insert t T1)" using T1(1) new(1) by (simp add: bundles_at_def)
  moreover have "\<forall>t' \<in> insert t T1. t' \<le> t" using T1(2) by force
  ultimately have "backed_up (objs b') (u, t, out)" using here unfolding backed_up_def prod.case by blast
  moreover have "elsewhere_same (repo_dir u) (objs b1) (objs b')"
  proof (rule change_elsewhere)
    fix n assume "objs b' n \<noteq> objs b1 n"
    then have "n = bundle_name (repo_dir u) t" unfolding objs' by (rule contrapos_np) (rule fun_upd_other)
    then show "n \<in> listed (objs b1) (repo_dir u @ ''/'') \<or> n \<in> listed (objs b') (repo_dir u @ ''/'')" using name by blast
  qed
  ultimately show ?thesis using that [OF save] elsewhere_same_trans [OF same] by blast
qed

lemma save_one_up_to_date:
  assumes law: "bucket_law B objs" and at: "bundles_at (objs b) (repo_dir u) T" and t: "t \<in> T" "w_last_update w (r_path m) \<le> t"
  obtains b' where "save_one L G cfg B (u, m) (urls, b, w) = (urls @ [url_string u], b', w)"
    and "backed_up (objs b') (u, Max T, the (objs b (bundle_name (repo_dir u) (Max T))))"
    and "elsewhere_same (repo_dir u) (objs b) (objs b')"
proof -
  have T: "T \<noteq> {}" "finite T" "listed (objs b) (repo_dir u @ ''/'') = bundle_name (repo_dir u) ` T"
    using t(1) at by (auto simp: bundles_at_def)
  obtain b1 where gc: "gc_bundle L B (repo_dir u) b = ((Max T, bundle_name (repo_dir u) (Max T), None), b1)"
    and at1: "bundles_at (objs b1) (repo_dir u) {Max T}"
    and kept: "objs b1 (bundle_name (repo_dir u) (Max T)) = objs b (bundle_name (repo_dir u) (Max T))"
    and same: "elsewhere_same (repo_dir u) (objs b) (objs b1)"
    using gc_bundle_keeps [OF law at T(1), of L thesis] by blast
  have "w_last_update w (r_path m) \<le> Max T" using t T(2) Max_ge order_trans by blast
  then have save: "save_one L G cfg B (u, m) (urls, b, w) = (urls @ [url_string u], b1, w)"
    using gc by (simp add: save_one_def)
  have "bundle_name (repo_dir u) (Max T) \<in> listed (objs b) (repo_dir u @ ''/'')" using T Max_in by blast
  then have "objs b (bundle_name (repo_dir u) (Max T)) \<noteq> None" by (auto simp: listed_def)
  then have "objs b1 (bundle_name (repo_dir u) (Max T)) = Some (the (objs b (bundle_name (repo_dir u) (Max T))))"
    unfolding kept by simp
  then have "backed_up (objs b1) (u, Max T, the (objs b (bundle_name (repo_dir u) (Max T))))"
    using at1 unfolding backed_up_def prod.case by blast
  from that [OF save this same] show ?thesis .
qed

text \<open>
  A repository that can be saved: nothing but bundles is in its directory of the bucket, and
  it was last fetched at a time that a name can hold, unless a bundle is as new as that.
\<close>

definition can_back_up :: "(string \<rightharpoonup> bytes) \<Rightarrow> 'd world \<Rightarrow> url \<times> managed_repo \<Rightarrow> bool" where
  "can_back_up objs w um \<longleftrightarrow> (case um of (u, m) \<Rightarrow>
     real_dir (repo_dir u) \<and>
     (\<exists>T. bundles_at objs (repo_dir u) T \<and>
       ((\<exists>t \<in> T. w_last_update w (r_path m) \<le> t) \<or> valid_time (w_last_update w (r_path m)))))"

lemma save_one_can:
  assumes law: "bucket_law B objs" and can: "can_back_up (objs b) w (u, m)"
    and newest: "newest_bundles L G cfg (objs b) ((u, m) # rest) w = Some (saved, w')"
  obtains t out outs b1 w1 where "save_one L G cfg B (u, m) (urls, b, w) = (urls @ [url_string u], b1, w1)"
    and "saved = (u, t, out) # outs" and "newest_bundles L G cfg (objs b) rest w1 = Some (outs, w')"
    and "backed_up (objs b1) (u, t, out)" and "elsewhere_same (repo_dir u) (objs b) (objs b1)"
    and "w_last_update w1 = w_last_update w"
proof -
  obtain T where T: "real_dir (repo_dir u)" "bundles_at (objs b) (repo_dir u) T"
    "(\<exists>t \<in> T. w_last_update w (r_path m) \<le> t) \<or> valid_time (w_last_update w (r_path m))"
    using can by (auto simp: can_back_up_def)
  note times = bundle_times_at [OF T(2)]
  show ?thesis
  proof (cases "\<exists>t \<in> T. w_last_update w (r_path m) \<le> t")
    case True
    then obtain t where t: "t \<in> T" "w_last_update w (r_path m) \<le> t" by blast
    from True newest obtain outs where "newest_bundles L G cfg (objs b) rest w = Some (outs, w')"
      "saved = (u, Max T, the (objs b (bundle_name (repo_dir u) (Max T)))) # outs"
      by (auto simp: times Let_def)
    then show ?thesis
      using save_one_up_to_date [where L = L and G = G and cfg = cfg and urls = urls, OF law T(2) t] that by metis
  next
    case False
    then have new: "valid_time (w_last_update w (r_path m))" "\<And>t. t \<in> T \<Longrightarrow> t < w_last_update w (r_path m)"
      using T(3) by (blast, force)
    from False newest obtain out w1 outs where made: "write_bundle L G cfg m collect [] w = (None, out, w1)"
      and rest: "newest_bundles L G cfg (objs b) rest w1 = Some (outs, w')" and saved: "saved = (u, w_last_update w (r_path m), out) # outs"
      by (auto simp: times Let_def split: prod.splits option.splits)
    have update: "w_last_update w1 = w_last_update w" using write_bundle_last_update [of L G cfg m collect "[]" w] made by simp
    obtain b1 where "save_one L G cfg B (u, m) (urls, b, w) = (urls @ [url_string u], b1, w1)"
      "backed_up (objs b1) (u, w_last_update w (r_path m), out)" "elsewhere_same (repo_dir u) (objs b) (objs b1)"
      using save_one_backs_up [OF law T(2,1) new refl made] by metis
    with that saved rest update show ?thesis by blast
  qed
qed

lemma same_at_value:
  assumes "same_at objs objs' d" and "bundles_at objs d T" and "t \<in> T"
  shows "objs' (bundle_name d t) = objs (bundle_name d t)"
  using assms by (auto simp: same_at_def bundles_at_def)

lemma newest_bundles_cong:
  assumes "\<And>um. um \<in> set repos \<Longrightarrow> same_at objs objs' (repo_dir (fst um)) \<and> (\<exists>T. bundles_at objs (repo_dir (fst um)) T)"
  shows "newest_bundles L G cfg objs' repos w = newest_bundles L G cfg objs repos w"
  using assms
proof (induction repos arbitrary: w)
  case (Cons um rest)
  obtain u m where um: "um = (u, m)" by fastforce
  obtain T where T: "same_at objs objs' (repo_dir u)" "bundles_at objs (repo_dir u) T" using Cons.prems [of um] um by auto
  have times: "bundle_times objs (repo_dir u) = T" "bundle_times objs' (repo_dir u) = T"
    using bundle_times_at T same_at_bundles by blast+
  have "objs' (bundle_name (repo_dir u) (Max T)) = objs (bundle_name (repo_dir u) (Max T))" if "t \<in> T" for t
  proof -
    have "finite T" using T(2) by (simp only: bundles_at_def)
    then have "Max T \<in> T" using that by (intro Max_in) auto
    with T show ?thesis by (rule same_at_value)
  qed
  moreover have "newest_bundles L G cfg objs' rest w = newest_bundles L G cfg objs rest w" for w using Cons by simp
  ultimately show ?case by (auto simp: um times Let_def split: prod.split option.split)
qed simp

lemma saves_back_up:
  assumes law: "bucket_law B objs"
  shows "\<lbrakk>distinct (map (repo_dir \<circ> fst) repos); \<forall>um \<in> set repos. can_back_up (objs b) w um;
      newest_bundles L G cfg (objs b) repos w = Some (saved, w')\<rbrakk> \<Longrightarrow>
    \<exists>b'. fold (save_one L G cfg B) repos (urls, b, w) = (urls @ map (url_string \<circ> fst) repos, b', w') \<and>
      (\<forall>s \<in> set saved. backed_up (objs b') s) \<and> map fst saved = map fst repos \<and>
      (\<forall>d. d \<notin> (repo_dir \<circ> fst) ` set repos \<longrightarrow> same_at (objs b) (objs b') d)"
proof (induction repos arbitrary: urls b w saved)
  case Nil
  then show ?case by (auto intro: same_at_refl)
next
  case (Cons um rest)
  obtain u m where um: "um = (u, m)" by fastforce
  have "can_back_up (objs b) w (u, m)" using Cons.prems(2) um by simp
  from save_one_can [OF law this Cons.prems(3) [unfolded um]]
  obtain t out outs b1 w1 where save: "save_one L G cfg B (u, m) (urls, b, w) = (urls @ [url_string u], b1, w1)"
    and saved: "saved = (u, t, out) # outs" and rest: "newest_bundles L G cfg (objs b) rest w1 = Some (outs, w')"
    and here: "backed_up (objs b1) (u, t, out)" and same: "elsewhere_same (repo_dir u) (objs b) (objs b1)"
    and update: "w_last_update w1 = w_last_update w" by metis
  have others: "repo_dir u \<notin> (repo_dir \<circ> fst) ` set rest" using Cons.prems(1) by (simp add: um)
  have apart: "same_at (objs b) (objs b1) (repo_dir (fst vm))" "can_back_up (objs b) w vm" if vm: "vm \<in> set rest" for vm
  proof -
    have "repo_dir (fst vm) \<noteq> repo_dir u" using vm others by force
    then show "same_at (objs b) (objs b1) (repo_dir (fst vm))" using same by (simp add: elsewhere_same_def)
    show "can_back_up (objs b) w vm" using Cons.prems(2) vm by simp
  qed
  have "\<forall>vm \<in> set rest. can_back_up (objs b1) w1 vm"
  proof
    fix vm assume "vm \<in> set rest"
    from apart [OF this] show "can_back_up (objs b1) w1 vm"
      using same_at_bundles unfolding can_back_up_def update by (cases vm) (simp; blast)
  qed
  moreover have "newest_bundles L G cfg (objs b1) rest w1 = Some (outs, w')"
    unfolding rest [symmetric]
  proof (rule newest_bundles_cong)
    fix vm assume "vm \<in> set rest"
    from apart [OF this] show "same_at (objs b) (objs b1) (repo_dir (fst vm)) \<and> (\<exists>T. bundles_at (objs b) (repo_dir (fst vm)) T)"
      by (cases vm) (auto simp: can_back_up_def)
  qed
  moreover have "distinct (map (repo_dir \<circ> fst) rest)" using Cons.prems(1) unfolding list.map distinct.simps by blast
  ultimately obtain b' where IH: "fold (save_one L G cfg B) rest (urls @ [url_string u], b1, w1) =
      ((urls @ [url_string u]) @ map (url_string \<circ> fst) rest, b', w')"
    "\<forall>s \<in> set outs. backed_up (objs b') s" "map fst outs = map fst rest"
    "\<And>d. d \<notin> (repo_dir \<circ> fst) ` set rest \<Longrightarrow> same_at (objs b1) (objs b') d"
    using Cons.IH [of b1 w1 outs "urls @ [url_string u]"] by blast
  have "backed_up (objs b') (u, t, out)" using same_at_backed_up [OF IH(4) [OF others] here] .
  moreover have "same_at (objs b) (objs b') d" if "d \<notin> (repo_dir \<circ> fst) ` set (um # rest)" for d
    using that same IH(4) [of d] same_at_trans by (auto simp: um elsewhere_same_def)
  ultimately show ?case
    using IH(1-3) save by (intro exI [of _ b']) (simp add: um saved)
qed

section \<open>Manifests\<close>

abbreviation manifests_dir :: "string \<Rightarrow> string" where
  "manifests_dir manifest_name \<equiv> path_join [manifest_dir, manifest_name]"

lemma gc_manifest_unnamed:
  assumes "fst a = []"
  shows "gc_manifest B threshold a b = b"
proof -
  have "path_base [] = ''.''" by (simp add: path_base_def)
  moreover have "\<not> snd (parse_int ''.'')" by code_simp
  ultimately show ?thesis by (simp add: gc_manifest_def assms split_beta)
qed

lemma gc_manifest_named:
  assumes "fst a = bundle_name dir s" and "valid_time s" and "snd a = []"
  shows "gc_manifest B threshold a b = (if of_unix s < threshold then delete_object B (bundle_name dir s) b else b)"
  using bundle_base [OF assms(2), of dir] by (simp only: gc_manifest_def assms(1,3)) simp

lemma of_unix_recent: "now - second < of_unix (unix_of now)"
  using pos_mod_bound [of second now] div_mult_mod_eq [of now second] by (simp add: time_defs)

lemma gc_manifests:
  assumes law: "bucket_law B objs" and valid: "\<And>s. s \<in> M \<Longrightarrow> valid_time s"
  shows "\<forall>a \<in> set attrs. fst a = [] \<or> snd a = [] \<and> fst a \<in> bundle_name dir ` M \<Longrightarrow>
    objs (fold (gc_manifest B threshold) attrs b) =
      (\<lambda>n. if n \<in> fst ` set attrs \<and> n \<in> bundle_name dir ` {s \<in> M. of_unix s < threshold} then None else objs b n)"
proof (induction attrs arbitrary: b)
  case (Cons a attrs)
  have "objs (gc_manifest B threshold a b) =
    (\<lambda>n. if n = fst a \<and> n \<in> bundle_name dir ` {s \<in> M. of_unix s < threshold} then None else objs b n)"
  proof (cases "fst a = []")
    case True
    then show ?thesis by (auto simp: gc_manifest_unnamed fun_eq_iff)
  next
    case False
    with Cons.prems obtain s where s: "fst a = bundle_name dir s" "s \<in> M" "snd a = []" by auto
    have "fst a \<in> bundle_name dir ` {s \<in> M. of_unix s < threshold} \<longleftrightarrow> of_unix s < threshold"
    proof
      assume "fst a \<in> bundle_name dir ` {s \<in> M. of_unix s < threshold}"
      then obtain s' where "bundle_name dir s = bundle_name dir s'" "s' \<in> M" "of_unix s' < threshold" unfolding s(1) by blast
      then show "of_unix s < threshold" using bundle_name_inj valid s(2) by metis
    qed (use s in blast)
    then show ?thesis
      unfolding gc_manifest_named [OF s(1) valid [OF s(2)] s(3)] using bucket_delete [OF law] s(1) by (auto simp: fun_eq_iff)
  qed
  then show ?case using Cons by (auto simp: fun_eq_iff)
qed simp

text \<open>Of the manifests, those of the times \<open>M\<close>, the ones older than a day go.\<close>

definition of_last_day :: "time \<Rightarrow> int \<Rightarrow> bool" where
  "of_last_day now s \<longleftrightarrow> now - manifest_clean_up_duration \<le> of_unix s"

lemma now_of_last_day: "of_last_day now (unix_of now)"
  using of_unix_recent [of now]
  by (simp add: of_last_day_def manifest_clean_up_duration_def hour_def minute_def second_def)

lemma garbage_collected:
  assumes law: "bucket_law B objs" and at: "bundles_at (objs b) (manifests_dir mn) M"
  shows "objs (garbage_collect_old_manifests B mn now b) =
    (\<lambda>n. if n \<in> bundle_name (manifests_dir mn) ` {s \<in> M. \<not> of_last_day now s} then None else objs b n)"
proof -
  let ?dir = "manifests_dir mn" and ?thr = "now - manifest_clean_up_duration"
  let ?D = "bundle_name ?dir ` {s \<in> M. of_unix s < ?thr}"
  have M: "listed (objs b) (?dir @ ''/'') = bundle_name ?dir ` M" "\<And>s. s \<in> M \<Longrightarrow> valid_time s"
    using at by (simp_all add: bundles_at_def)
  obtain attrs where attrs: "list_objects B b (?dir @ ''/'') = (attrs, None)"
    "set (entry_names attrs) = bundle_name ?dir ` M" "\<And>a. a \<in> set attrs \<Longrightarrow> fst a = [] \<or> snd a = []"
    using bucket_list [OF law] M(1) by metis
  have "fst a = [] \<or> snd a = [] \<and> fst a \<in> bundle_name ?dir ` M" if "a \<in> set attrs" for a
    unfolding attrs(2) [symmetric] using attrs(3) [OF that] that by (auto simp: entry_names_def)
  then have "objs (fold (gc_manifest B ?thr) attrs b) = (\<lambda>n. if n \<in> fst ` set attrs \<and> n \<in> ?D then None else objs b n)"
    by (intro gc_manifests [OF law M(2)]) blast+
  moreover have "n \<in> fst ` set attrs" if "n \<in> ?D" for n
  proof -
    have "n \<in> set (entry_names attrs)" using that unfolding attrs(2) by blast
    then show ?thesis by (auto simp: entry_names_def)
  qed
  ultimately have "objs (garbage_collect_old_manifests B mn now b) = (\<lambda>n. if n \<in> ?D then None else objs b n)"
    using attrs(1) by (auto simp: garbage_collect_old_manifests_def fun_eq_iff)
  then show ?thesis by (simp only: of_last_day_def not_le)
qed

lemma garbage_collected_times:
  assumes law: "bucket_law B objs" and at: "bundles_at (objs b) (manifests_dir mn) M"
  shows "bundles_at (objs (garbage_collect_old_manifests B mn now b)) (manifests_dir mn) {s \<in> M. of_last_day now s}"
proof -
  let ?dir = "manifests_dir mn"
  let ?old = "{s \<in> M. \<not> of_last_day now s}"
  have M: "listed (objs b) (?dir @ ''/'') = bundle_name ?dir ` M" "\<And>s. s \<in> M \<Longrightarrow> valid_time s" "finite M"
    using at by (simp_all add: bundles_at_def)
  have "listed (objs (garbage_collect_old_manifests B mn now b)) (?dir @ ''/'') = bundle_name ?dir ` M - bundle_name ?dir ` ?old"
    by (simp only: garbage_collected [OF law at] listed_deleted M(1))
  also have "\<dots> = bundle_name ?dir ` {s \<in> M. of_last_day now s}"
  proof -
    have "inj_on (bundle_name ?dir) M" using bundle_name_inj M(2) by (blast intro: inj_onI)
    then have "bundle_name ?dir ` M - bundle_name ?dir ` ?old = bundle_name ?dir ` (M - ?old)"
      by (rule inj_on_image_set_diff [symmetric]) auto
    also have "M - ?old = {s \<in> M. of_last_day now s}" by auto
    finally show ?thesis .
  qed
  finally show ?thesis using M(2,3) by (simp add: bundles_at_def)
qed

lemma write_manifest_collects:
  assumes law: "bucket_law B objs"
  shows "write_manifest_file B name urls b = (None, commit_object B name (concat (map (\<lambda>u. u @ newline) urls)) b)"
  using write_lines_ok [of B b name urls "[]"] bucket_writes [OF law] by (simp add: write_manifest_file_def)

text \<open>The urls that a manifest lists.\<close>

definition manifest_urls :: "bytes \<Rightarrow> string set" where
  "manifest_urls bs = set (map trim_space (scan_lines bs))"

lemma manifest_urls_written:
  assumes "\<forall>u \<in> set urls. graphic u \<and> length u < 65536"
  shows "manifest_urls (concat (map (\<lambda>u. u @ newline) urls)) = set urls"
proof -
  have "map trim_space urls = urls" using assms by (simp add: map_idI trim_space_graphic)
  then show ?thesis by (simp only: manifest_urls_def scan_written_lines [OF assms])
qed

lemma read_manifests:
  assumes law: "bucket_law B objs"
  shows "set ns \<subseteq> dom (objs b) \<Longrightarrow> fold (read_manifest B b) ns m = m \<union> (\<Union>n \<in> set ns. manifest_urls (the (objs b n)))"
proof (induction ns arbitrary: m)
  case (Cons n ns)
  obtain bs where bs: "objs b n = Some bs" using Cons.prems by auto
  have "read_manifest B b n m = m \<union> manifest_urls bs"
    using bucket_read [OF law bs] by (simp only: read_manifest_def manifest_urls_def sum.case prod.case)
  then show ?case using Cons bs by (simp add: Un_assoc)
qed simp

text \<open>
  The manifests in the bucket, those of the last day listing no other urls than these.
\<close>

definition manifests_list :: "(string \<rightharpoonup> bytes) \<Rightarrow> string \<Rightarrow> time \<Rightarrow> string set \<Rightarrow> bool" where
  "manifests_list objs mn now urls \<longleftrightarrow>
     (\<exists>M. bundles_at objs (manifests_dir mn) M \<and>
       (\<forall>s \<in> M. of_last_day now s \<longrightarrow> manifest_urls (the (objs (bundle_name (manifests_dir mn) s))) \<subseteq> urls))"

lemma same_at_manifests:
  assumes "same_at objs objs' (manifests_dir mn)" and "manifests_list objs mn now urls"
  shows "manifests_list objs' mn now urls"
proof -
  obtain M where M: "bundles_at objs (manifests_dir mn) M"
    "\<And>s. s \<in> M \<Longrightarrow> of_last_day now s \<Longrightarrow> manifest_urls (the (objs (bundle_name (manifests_dir mn) s))) \<subseteq> urls"
    using assms(2) unfolding manifests_list_def by blast
  show ?thesis unfolding manifests_list_def
  proof (intro exI conjI ballI impI)
    show "bundles_at objs' (manifests_dir mn) M" by (rule same_at_bundles [OF assms(1) M(1)])
    fix s assume s: "s \<in> M" "of_last_day now s"
    show "manifest_urls (the (objs' (bundle_name (manifests_dir mn) s))) \<subseteq> urls"
      using M(2) [OF s] by (simp only: same_at_value [OF assms(1) M(1) s(1)])
  qed
qed

lemma manifest_saved:
  assumes law: "bucket_law B objs" and at: "manifests_list (objs b) mn now (set urls)" and now: "valid_time (unix_of now)"
    and written: "objs b' = (objs b)(bundle_name (manifests_dir mn) (unix_of now) \<mapsto> concat (map (\<lambda>u. u @ newline) urls))"
    and urls: "\<forall>u \<in> set urls. graphic u \<and> length u < 65536"
  shows "read_repo_list B mn (garbage_collect_old_manifests B mn now b') = Some (set urls)"
    and "elsewhere_same (manifests_dir mn) (objs b) (objs (garbage_collect_old_manifests B mn now b'))"
proof -
  let ?dir = "manifests_dir mn"
  let ?file = "bundle_name ?dir (unix_of now)"
  let ?text = "concat (map (\<lambda>u. u @ newline) urls)"
  obtain M where M: "bundles_at (objs b) ?dir M"
    and old: "\<And>s. s \<in> M \<Longrightarrow> of_last_day now s \<Longrightarrow> manifest_urls (the (objs b (bundle_name ?dir s))) \<subseteq> set urls"
    using at unfolding manifests_list_def by blast
  let ?M = "insert (unix_of now) M"
  let ?D = "bundle_name ?dir ` {s \<in> ?M. \<not> of_last_day now s}"
  have here: "objs b' ?file = Some ?text" unfolding written by (rule fun_upd_same)
  note below = bundle_listed [of "unix_of now" "objs b'" ?dir, OF now here]
  have at': "bundles_at (objs b') ?dir ?M"
    using listed_committed [OF below [unfolded written]] M now by (simp add: written bundles_at_def)
  define b2 where "b2 = garbage_collect_old_manifests B mn now b'"
  have objs2: "objs b2 = (\<lambda>n. if n \<in> ?D then None else objs b' n)"
    unfolding b2_def by (rule garbage_collected [OF law at'])
  have kept: "bundles_at (objs b2) ?dir {s \<in> ?M. of_last_day now s}"
    unfolding b2_def by (rule garbage_collected_times [OF law at'])
  have valid: "\<And>s. s \<in> ?M \<Longrightarrow> valid_time s" using at' unfolding bundles_at_def by blast
  have stays: "objs b2 (bundle_name ?dir s) = objs b' (bundle_name ?dir s)" if "s \<in> ?M" "of_last_day now s" for s
  proof -
    have "bundle_name ?dir s \<notin> ?D" using that bundle_name_inj valid by blast
    then show ?thesis by (simp only: objs2 if_False)
  qed
  have here2: "objs b2 ?file = Some ?text" using stays [of "unix_of now"] now_of_last_day here by simp
  have lists: "manifest_urls (the (objs b2 (bundle_name ?dir s))) \<subseteq> set urls" if s: "s \<in> ?M" "of_last_day now s" for s
  proof (cases "s = unix_of now")
    case True
    show ?thesis unfolding True using here2 manifest_urls_written [OF urls] by (simp only: option.sel)
  next
    case False
    then have "bundle_name ?dir s \<noteq> ?file" using bundle_name_inj valid s(1) by blast
    then have "objs b' (bundle_name ?dir s) = objs b (bundle_name ?dir s)" unfolding written by (rule fun_upd_other)
    moreover have "s \<in> M" using False s(1) by blast
    ultimately show ?thesis using old s(2) by (simp only: stays [OF s])
  qed
  obtain attrs where attrs: "list_objects B b2 (?dir @ ''/'') = (attrs, None)"
    "set (entry_names attrs) = listed (objs b2) (?dir @ ''/'')"
    using bucket_list [OF law, of b2 "?dir @ ''/''"] by metis
  have names: "set (entry_names attrs) = bundle_name ?dir ` {s \<in> ?M. of_last_day now s}"
    using attrs(2) kept by (simp only: bundles_at_def)
  have there: "set (entry_names attrs) \<subseteq> dom (objs b2)" unfolding attrs(2) by (auto simp: listed_def)
  have "?file \<in> set (entry_names attrs)" unfolding names using now_of_last_day by blast
  moreover have "manifest_urls (the (objs b2 ?file)) = set urls" using here2 manifest_urls_written [OF urls] by (simp only: option.sel)
  moreover have "(\<Union>n \<in> set (entry_names attrs). manifest_urls (the (objs b2 n))) \<subseteq> set urls"
    unfolding names using lists by blast
  ultimately have "(\<Union>n \<in> set (entry_names attrs). manifest_urls (the (objs b2 n))) = set urls" by blast
  then have "fold (read_manifest B b2) (entry_names attrs) {} = set urls"
    by (simp only: read_manifests [OF law there] Un_empty_left)
  then show "read_repo_list B mn (garbage_collect_old_manifests B mn now b') = Some (set urls)"
    using attrs(1) unfolding b2_def [symmetric] by (simp add: read_repo_list_def entry_names_def)
  have "elsewhere_same ?dir (objs b) (objs b2)"
  proof (rule change_elsewhere)
    fix n assume "objs b2 n \<noteq> objs b n"
    then have n: "n \<in> ?D \<or> n = ?file" by (auto simp only: objs2 written fun_upd_other split: if_splits)
    have lists: "listed (objs b) (?dir @ ''/'') = bundle_name ?dir ` M"
      "listed (objs b2) (?dir @ ''/'') = bundle_name ?dir ` {s \<in> ?M. of_last_day now s}"
      using M kept unfolding bundles_at_def by blast+
    have new: "?file \<in> bundle_name ?dir ` {s \<in> ?M. of_last_day now s}" using now_of_last_day by blast
    show "n \<in> listed (objs b) (?dir @ ''/'') \<or> n \<in> listed (objs b2) (?dir @ ''/'')"
    proof (cases "n = ?file")
      case True
      show ?thesis unfolding True lists using new by (rule disjI2)
    next
      case False
      then have "n \<in> bundle_name ?dir ` M" using n by blast
      then show ?thesis unfolding lists by (rule disjI1)
    qed
  qed
  then show "elsewhere_same ?dir (objs b) (objs (garbage_collect_old_manifests B mn now b'))" by (simp only: b2_def)
qed

section \<open>Recovering\<close>

text \<open>
  What recovery does with the bundles that were saved, without a bucket: each is written to
  the file system, fetched by git into the repository of its url, and removed.
\<close>

definition restore ::
  "status_lib \<Rightarrow> ('d, 'r) git_lib \<Rightarrow> server_config \<Rightarrow> 'd tmp_files \<Rightarrow> canonicalizer \<Rightarrow>
     (url \<times> int \<times> bytes) list \<Rightarrow> string \<Rightarrow> 'd world \<Rightarrow> 'd world process" where
  "restore L G cfg F canon saved raw w =
     (case map_of (map (\<lambda>(u, t, out). (url_string u, u, out)) saved) raw of
        None \<Rightarrow> Returns w
      | Some (u, out) \<Rightarrow>
          let path = path_join [cfg_root cfg, ''tmp-bundle''] in
          (case tmp_write F path out (w_disk w) of
             (Some e, d) \<Rightarrow> Returns (w\<lparr>w_disk := d\<rparr>)
           | (None, d) \<Rightarrow>
               (case open_managed_repository L G cfg canon u (w\<lparr>w_disk := d\<rparr>) of
                  Exits \<Rightarrow> Exits
                | Returns (Inl _, w1) \<Rightarrow> Returns w1
                | Returns (Inr m, w1) \<Rightarrow>
                    let (_, w2) = recover_from_bundle L G cfg m path w1
                    in Returns (w2\<lparr>w_disk := tmp_remove F path (w_disk w2)\<rparr>))))"

lemma download_backed_up:
  assumes law: "bucket_law B objs" and up: "backed_up (objs b) (u, t, out)"
  obtains b1 where "backed_up (objs b1) (u, t, out)" and "elsewhere_same (repo_dir u) (objs b) (objs b1)"
    and "download_backup_bundle L B F cfg (repo_dir u) b w =
      (case tmp_write F (path_join [cfg_root cfg, ''tmp-bundle'']) out (w_disk w) of
         (Some e, d) \<Rightarrow> (Inl e, b1, w\<lparr>w_disk := d\<rparr>)
       | (None, d) \<Rightarrow> (Inr (path_join [cfg_root cfg, ''tmp-bundle'']), b1, w\<lparr>w_disk := d\<rparr>))"
proof -
  obtain T where T: "bundles_at (objs b) (repo_dir u) T" "t \<in> T" "\<And>t'. t' \<in> T \<Longrightarrow> t' \<le> t"
    and here: "objs b (bundle_name (repo_dir u) t) = Some out"
    using up unfolding backed_up_def prod.case by blast
  have max: "Max T = t" using T by (intro Max_eqI) (simp_all add: bundles_at_def)
  have ne: "T \<noteq> {}" using T(2) by blast
  obtain b1 where gc: "gc_bundle L B (repo_dir u) b = ((t, bundle_name (repo_dir u) t, None), b1)"
    and at: "bundles_at (objs b1) (repo_dir u) {t}"
    and kept: "objs b1 (bundle_name (repo_dir u) t) = objs b (bundle_name (repo_dir u) t)"
    and same: "elsewhere_same (repo_dir u) (objs b) (objs b1)"
    using gc_bundle_keeps [OF law T(1) ne, of L thesis] unfolding max by blast
  have here1: "objs b1 (bundle_name (repo_dir u) t) = Some out" using kept here by (rule trans)
  then have up1: "backed_up (objs b1) (u, t, out)" using at unfolding backed_up_def prod.case by blast
  have "download_backup_bundle L B F cfg (repo_dir u) b w =
      (case tmp_write F (path_join [cfg_root cfg, ''tmp-bundle'']) out (w_disk w) of
         (Some e, d) \<Rightarrow> (Inl e, b1, w\<lparr>w_disk := d\<rparr>)
       | (None, d) \<Rightarrow> (Inr (path_join [cfg_root cfg, ''tmp-bundle'']), b1, w\<lparr>w_disk := d\<rparr>))"
    using bucket_read [OF law here1] unfolding download_backup_bundle_def gc
    by (simp add: Let_def split: prod.split option.split)
  with that [OF up1 same] show ?thesis .
qed

lemma map_of_url:
  "distinct (map (url_string \<circ> fst) saved) \<Longrightarrow> (u, t, out) \<in> set saved \<Longrightarrow>
     map_of (map (\<lambda>(u, t, out). (url_string u, u, out)) saved) (url_string u) = Some (u, out)"
  by (induction saved) (auto simp: rev_image_eqI)

lemma recover_backed_up:
  assumes law: "bucket_law B objs" and up: "\<forall>s \<in> set saved. backed_up (objs b) s"
    and dirs: "distinct (map (repo_dir \<circ> fst) saved)" and urls: "distinct (map (url_string \<circ> fst) saved)"
    and s: "(u, t, out) \<in> set saved" and parse: "parse_url (url_string u) = Some u"
  obtains b1 where "\<forall>s \<in> set saved. backed_up (objs b1) s"
    and "recover_one L G cfg B F canon parse_url (url_string u) (b, w) =
      map_process (Pair b1) (restore L G cfg F canon saved (url_string u) w)"
proof -
  obtain b1 where b1: "backed_up (objs b1) (u, t, out)" "elsewhere_same (repo_dir u) (objs b) (objs b1)"
    "download_backup_bundle L B F cfg (repo_dir u) b w =
      (case tmp_write F (path_join [cfg_root cfg, ''tmp-bundle'']) out (w_disk w) of
         (Some e, d) \<Rightarrow> (Inl e, b1, w\<lparr>w_disk := d\<rparr>)
       | (None, d) \<Rightarrow> (Inr (path_join [cfg_root cfg, ''tmp-bundle'']), b1, w\<lparr>w_disk := d\<rparr>))"
    using download_backed_up [OF law bspec [OF up s], of L F cfg w thesis] by blast
  have "\<forall>s \<in> set saved. backed_up (objs b1) s"
  proof
    fix s' assume s': "s' \<in> set saved"
    show "backed_up (objs b1) s'"
    proof (cases "s' = (u, t, out)")
      case False
      then have "(repo_dir \<circ> fst) s' \<noteq> (repo_dir \<circ> fst) (u, t, out)"
        using dirs [unfolded distinct_map] s s' by (blast dest: inj_onD)
      then have "repo_dir (fst s') \<noteq> repo_dir u" by simp
      then have "same_at (objs b) (objs b1) (repo_dir (fst s'))" using b1(2) by (simp add: elsewhere_same_def)
      with up s' show ?thesis by (cases s') (auto intro: same_at_backed_up)
    qed (simp add: b1(1))
  qed
  moreover have "recover_one L G cfg B F canon parse_url (url_string u) (b, w) =
      map_process (Pair b1) (restore L G cfg F canon saved (url_string u) w)"
    by (cases "tmp_write F (path_join [cfg_root cfg, ''tmp-bundle'']) out (w_disk w)")
      (simp add: recover_one_def restore_def parse map_of_url [OF urls s] b1(3) split_beta Let_def
        split: option.split process.split sum.split)
  ultimately show ?thesis using that by blast
qed

lemma recover_all_backed_up:
  assumes law: "bucket_law B objs"
    and dirs: "distinct (map (repo_dir \<circ> fst) saved)" and urls: "distinct (map (url_string \<circ> fst) saved)"
    and parse: "\<forall>s \<in> set saved. parse_url (url_string (fst s)) = Some (fst s)"
  shows "set raws \<subseteq> url_string ` fst ` set saved \<Longrightarrow> \<forall>s \<in> set saved. backed_up (objs b) s \<Longrightarrow>
    map_process snd (recover_all (recover_one L G cfg B F canon parse_url) raws (b, w)) =
      recover_all (restore L G cfg F canon saved) raws w"
proof (induction raws arbitrary: b w)
  case (Cons raw raws)
  obtain u t out where s: "(u, t, out) \<in> set saved" "raw = url_string u" using Cons.prems(1) by auto
  have "parse_url (url_string u) = Some u" using parse s(1) by force
  then obtain b1 where b1: "\<forall>s \<in> set saved. backed_up (objs b1) s"
    "recover_one L G cfg B F canon parse_url raw (b, w) = map_process (Pair b1) (restore L G cfg F canon saved raw w)"
    unfolding s(2) using recover_backed_up [where objs = objs and b = b, OF law Cons.prems(2) dirs urls s(1)] by metis
  show ?case
    using Cons.IH [OF _ b1(1)] Cons.prems(1) by (simp add: b1(2) split: process.split)
qed simp

text \<open>URLs that parse back are apart when their directories are.\<close>

lemma urls_distinct:
  assumes "distinct (map (repo_dir \<circ> fst) saved)" and "\<forall>s \<in> set saved. parse_url (url_string (fst s)) = Some (fst s)"
  shows "distinct (map (url_string \<circ> fst) saved)"
proof -
  have "distinct (map fst saved)" using assms(1) unfolding distinct_map by (blast intro: inj_on_imageI2)
  moreover have "inj_on url_string (set (map fst saved))"
  proof (rule inj_onI)
    fix u v assume "u \<in> set (map fst saved)" and "v \<in> set (map fst saved)" and same_url: "url_string u = url_string v"
    then obtain x y where xy: "x \<in> set saved" "u = fst x" "y \<in> set saved" "v = fst y" unfolding set_map by blast
    have "Some u = Some v" using bspec [OF assms(2) xy(1)] bspec [OF assms(2) xy(3)] unfolding xy(2,4) [symmetric] same_url
      by (rule trans [OF sym])
    then show "u = v" by simp
  qed
  ultimately show ?thesis unfolding map_map [symmetric] distinct_map by blast
qed

section \<open>A concrete bucket, for witnesses\<close>

text \<open>Objects by name, the newest first; and a git that makes bundles.\<close>

definition shelf :: "demo_bucket bucket_lib" where
  "shelf = \<lparr>list_objects = (\<lambda>b p. (map (\<lambda>n. (n, []))
       (remdups (filter (\<lambda>n. n \<noteq> [] \<and> has_prefix n p \<and> CHR ''/'' \<notin> set (drop (length p) n)) (map fst b))), None)),
     delete_object = (\<lambda>n b. filter (\<lambda>(m, _). m \<noteq> n) b),
     read_object = (\<lambda>b n. case map_of b n of None \<Rightarrow> Inl (PlainError ''not found'') | Some bs \<Rightarrow> Inr (bs, None)),
     commit_object = (\<lambda>n bs b. (n, bs) # b), write_fails = (\<lambda>_ _ _. None)\<rparr>"

lemma map_of_filter_name: "map_of (filter (\<lambda>(m, _). m \<noteq> n) b) = (map_of b)(n := None)"
  by (induction b) (auto simp: fun_eq_iff)

lemma shelf_law: "bucket_law shelf map_of"
proof -
  have "\<exists>attrs. list_objects shelf b p = (attrs, None) \<and> distinct (entry_names attrs) \<and>
      set (entry_names attrs) = listed (map_of b) p \<and> (\<forall>a \<in> set attrs. fst a = [] \<or> snd a = [])" for b p
  proof -
    let ?ns = "remdups (filter (\<lambda>n. n \<noteq> [] \<and> has_prefix n p \<and> CHR ''/'' \<notin> set (drop (length p) n)) (map fst b))"
    have list: "list_objects shelf b p = (map (\<lambda>n. (n, [])) ?ns, None)" by (simp add: shelf_def)
    have "map fst (map (\<lambda>n. (n, [] :: string)) ?ns) = ?ns" by (simp add: comp_def)
    then have names: "entry_names (map (\<lambda>n. (n, [])) ?ns) = ?ns"
      unfolding entry_names_def by (simp only:) (rule filter_True, simp)
    have "set ?ns = listed (map_of b) p" by (auto simp: listed_def dom_map_of_conv_image_fst)
    then show ?thesis using list names by (intro exI [of _ "map (\<lambda>n. (n, [])) ?ns"]) (simp only: distinct_remdups, simp)
  qed
  then show ?thesis unfolding bucket_law_def by (simp add: shelf_def map_of_filter_name)
qed

definition bundling_git :: "(oid list \<times> (string \<times> oid) list, oid) git_lib" where
  "bundling_git = (demo_git demo_reply)\<lparr>run_git_binary := (\<lambda>cmd d.
     if ''create'' \<in> set (gc_args cmd) then ([Stdout ''# v2 git bundle''], None, d)
     else run_git_binary (demo_git demo_reply) cmd d)\<rparr>"

lemma bundling_git_makes:
  "\<exists>w'. write_bundle plain_status bundling_git cfg m collect [] w = (None, ''# v2 git bundle'', w')"
proof -
  have "run_git_binary bundling_git (git_in dir [''bundle'', ''create'', ''-'', ''--all'']) d = ([Stdout ''# v2 git bundle''], None, d)"
    for dir d by (simp add: bundling_git_def git_in_def)
  then have "run_to_writer bundling_git collect (git_in dir [''bundle'', ''create'', ''-'', ''--all'']) [] d =
      (None, ''# v2 git bundle'', [Stdout ''# v2 git bundle''], d)" for dir d
    by (simp add: run_to_writer_def collect_def write_packet_def stdout_of_def)
  then show ?thesis by (simp add: write_bundle_def start_operation_def run_git_with_stdout_def)
qed

definition no_files :: "'d tmp_files" where
  "no_files = \<lparr>tmp_write = (\<lambda>_ _ d. (None, d)), tmp_remove = (\<lambda>_ d. d)\<rparr>"

section \<open>Properties\<close>

text \<open>
  C26: round trip of a backup. Suppose that the bucket does not fail, that git makes the
  bundles it is asked for, that each repository has a directory of the bucket to itself, apart
  from the manifests, with nothing but bundles in it, any number of them, that the manifests
  of the last day, if there are any, list no other repositories, and that the urls are
  printable, shorter than a scanner's line, and parse back. Then what \<open>saveBackup\<close> leaves in the
  bucket makes \<open>recoverFromBackup\<close>, on any machine and in any order, hand to git for each
  repository exactly its newest bundle, and nothing else: the newest that was in the bucket
  where nothing was fetched since, and the bundle that git makes now for all others.
\<close>

theorem backup_recovers:
  assumes "bucket_law B objs" and "newest_bundles L G cfg (objs b) repos w = Some (saved, w')"
    and "distinct (map (repo_dir \<circ> fst) repos)" and "manifests_dir mn \<notin> (repo_dir \<circ> fst) ` set repos"
    and "\<forall>um \<in> set repos. can_back_up (objs b) w um"
    and "\<forall>um \<in> set repos. parse_url (url_string (fst um)) = Some (fst um) \<and> graphic (url_string (fst um)) \<and>
      length (url_string (fst um)) < 65536"
    and "real_dir (manifests_dir mn)" and "manifests_list (objs b) mn now (url_string ` fst ` set repos)"
    and "valid_time (unix_of now)"
    and "set (order (url_string ` fst ` set repos)) = url_string ` fst ` set repos"
  shows "\<exists>b'. save_backup L G cfg B mn repos now b w = (b', w') \<and>
    (\<forall>w2. map_process snd (recover_from_backup L G cfg B F canon parse_url order mn b' w2) =
      recover_all (restore L G cfg F canon saved) (order (url_string ` fst ` set repos)) w2)"
proof -
  obtain b1 where fold: "fold (save_one L G cfg B) repos ([], b, w) = (map (url_string \<circ> fst) repos, b1, w')"
    and up: "\<forall>s \<in> set saved. backed_up (objs b1) s" and fst: "map fst saved = map fst repos"
    and same: "\<And>d. d \<notin> (repo_dir \<circ> fst) ` set repos \<Longrightarrow> same_at (objs b) (objs b1) d"
    using saves_back_up [OF assms(1,3,5,2), of "[]"] by auto
  let ?urls = "map (url_string \<circ> fst) repos"
  define b2 where "b2 = commit_object B (bundle_name (manifests_dir mn) (unix_of now)) (concat (map (\<lambda>u. u @ newline) ?urls)) b1"
  define b' where "b' = garbage_collect_old_manifests B mn now b2"
  have "path_join [manifest_dir, mn, pad12 (unix_of now)] = bundle_name (manifests_dir mn) (unix_of now)"
    using path_join_snoc [of "pad12 (unix_of now)" "[manifest_dir, mn]"] pad12_plain [OF assms(9)] assms(7) by simp
  then have manifest: "write_manifest_file B (path_join [manifest_dir, mn, pad12 (unix_of now)]) ?urls b1 = (None, b2)"
    by (simp only: write_manifest_collects [OF assms(1)] b2_def)
  have "url_string ` fst ` set repos = set ?urls" by (simp add: image_comp)
  then have older: "manifests_list (objs b1) mn now (set ?urls)"
    using same_at_manifests [OF same [OF assms(4)] assms(8)] by (simp only:)
  have written: "objs b2 = (objs b1)(bundle_name (manifests_dir mn) (unix_of now) \<mapsto> concat (map (\<lambda>u. u @ newline) ?urls))"
    by (simp only: b2_def bucket_commit [OF assms(1)])
  have "\<forall>u \<in> set ?urls. graphic u \<and> length u < 65536" using assms(6) by simp
  note saved = manifest_saved [OF assms(1) older assms(9) written this, folded b'_def]
  have save: "save_backup L G cfg B mn repos now b w = (b', w')"
    by (simp only: save_backup_def fold Let_def prod.case manifest option.case b'_def)
  have dirs: "distinct (map (repo_dir \<circ> fst) saved)" using assms(3) by (simp only: map_map [symmetric] fst)
  have set: "fst ` set saved = fst ` set repos" using fst by (metis set_map)
  have parse: "\<forall>s \<in> set saved. parse_url (url_string (fst s)) = Some (fst s)"
  proof
    fix s assume "s \<in> set saved"
    then have "fst s \<in> fst ` set repos" using set by blast
    then show "parse_url (url_string (fst s)) = Some (fst s)" using assms(6) by auto
  qed
  note urls = urls_distinct [OF dirs parse]
  have "\<forall>s \<in> set saved. backed_up (objs b') s"
  proof
    fix s assume s: "s \<in> set saved"
    have "repo_dir (fst s) \<noteq> manifests_dir mn" using assms(4) s set by force
    then have "same_at (objs b1) (objs b') (repo_dir (fst s))" using saved(2) by (simp add: elsewhere_same_def)
    with up s show "backed_up (objs b') s" by (cases s) (auto intro: same_at_backed_up)
  qed
  moreover have "set (order (set ?urls)) = url_string ` fst ` set saved"
    unfolding set using assms(10) by (simp add: image_comp)
  ultimately have "map_process snd (recover_all (recover_one L G cfg B F canon parse_url) (order (set ?urls)) (b', w2)) =
      recover_all (restore L G cfg F canon saved) (order (set ?urls)) w2" for w2
    using recover_all_backed_up [OF assms(1) dirs urls parse] by (metis order_refl)
  then show ?thesis using save saved(1) by (auto simp: recover_from_backup_def image_comp)
qed

text \<open>
  One repository, last fetched at 7, with an older bundle of the time 3 and the manifest of
  the hour before in the bucket.
\<close>

definition demo_bucket_before :: demo_bucket where
  "demo_bucket_before = [(''github.com/o/r/000000000003'', ''old''),
     (''goblet-repository-manifests/m/001699996400'', ''https://github.com/o/r'' @ newline)]"

theorem backup_recovers_witness:
  "\<exists>b' w'. save_backup plain_status bundling_git demo_config shelf ''m'' [(https_url ''github.com'' ''/o/r'', demo_repo)]
      (1700000000 * second) demo_bucket_before demo_world = (b', w') \<and>
    map_process snd (recover_from_backup plain_status bundling_git demo_config shelf no_files (github_url_canonicalizer id)
      (\<lambda>s. if s = ''https://github.com/o/r'' then Some (https_url ''github.com'' ''/o/r'') else None)
      (\<lambda>S. [''https://github.com/o/r'']) ''m'' b' demo_world) =
    recover_all (restore plain_status bundling_git demo_config no_files (github_url_canonicalizer id)
      [(https_url ''github.com'' ''/o/r'', 7, ''# v2 git bundle'')]) [''https://github.com/o/r''] demo_world"
proof -
  let ?u = "https_url ''github.com'' ''/o/r''"
  let ?b = demo_bucket_before
  let ?parse = "\<lambda>s. if s = ''https://github.com/o/r'' then Some ?u else None"
  let ?now = "1700000000 * second"
  let ?manifest = "''goblet-repository-manifests/m/001699996400''"
  have url: "url_string ?u = ''https://github.com/o/r''" by code_simp
  have dir: "repo_dir ?u = ''github.com/o/r''" by code_simp
  have manifests: "manifests_dir ''m'' = ''goblet-repository-manifests/m''" by code_simp
  have time: "w_last_update demo_world (r_path demo_repo) = 7" by (simp add: demo_world_def)
  have three: "bundle_name ''github.com/o/r'' 3 = ''github.com/o/r/000000000003''" by code_simp
  have "listed (map_of ?b) (''github.com/o/r'' @ ''/'') = {''github.com/o/r/000000000003''}"
    by (auto simp: demo_bucket_before_def listed_def has_prefix_def split: if_splits)
  then have old: "bundles_at (map_of ?b) (repo_dir ?u) {3}" using three by (simp add: dir bundles_at_def valid_time_def)
  then have ready: "can_back_up (map_of ?b) demo_world (?u, demo_repo)"
    unfolding can_back_up_def prod.case time dir by (auto simp: real_dir_def valid_time_def)
  obtain w' where made: "newest_bundles plain_status bundling_git demo_config (map_of ?b) [(?u, demo_repo)] demo_world =
      Some ([(?u, 7, ''# v2 git bundle'')], w')"
    using bundling_git_makes [of demo_config demo_repo demo_world] time bundle_times_at [OF old] by auto
  have before: "bundle_name (manifests_dir ''m'') 1699996400 = ?manifest"
    unfolding manifests by (simp add: pad12_def show_nat.simps digit_char_def) code_simp
  have "listed (map_of ?b) (manifests_dir ''m'' @ ''/'') = {?manifest}"
    unfolding manifests by (auto simp: demo_bucket_before_def listed_def has_prefix_def split: if_splits)
  then have "bundles_at (map_of ?b) (manifests_dir ''m'') {1699996400}" using before by (simp only: bundles_at_def) (simp add: valid_time_def)
  moreover have "manifest_urls (the (map_of ?b ?manifest)) = {''https://github.com/o/r''}"
    using manifest_urls_written [of "[''https://github.com/o/r'']"] by (simp add: demo_bucket_before_def)
  ultimately have listed: "manifests_list (map_of ?b) ''m'' ?now (url_string ` fst ` set [(?u, demo_repo)])"
    unfolding manifests_list_def by (intro exI [of _ "{1699996400}"]) (simp only: ball_simps before, simp add: url)
  have now: "valid_time (unix_of ?now)" by (simp add: valid_time_def unix_of_def second_def)
  have "\<exists>b'. save_backup plain_status bundling_git demo_config shelf ''m'' [(?u, demo_repo)] ?now ?b demo_world = (b', w') \<and>
    (\<forall>w2. map_process snd (recover_from_backup plain_status bundling_git demo_config shelf no_files (github_url_canonicalizer id)
        ?parse (\<lambda>S. [''https://github.com/o/r'']) ''m'' b' w2) =
      recover_all (restore plain_status bundling_git demo_config no_files (github_url_canonicalizer id)
        [(?u, 7, ''# v2 git bundle'')]) ((\<lambda>S. [''https://github.com/o/r'']) (url_string ` fst ` set [(?u, demo_repo)])) w2)"
  proof (rule backup_recovers [OF shelf_law made])
    show "manifests_list (map_of ?b) ''m'' ?now (url_string ` fst ` set [(?u, demo_repo)])" by (rule listed)
    show "valid_time (unix_of ?now)" by (rule now)
    show "\<forall>um \<in> set [(?u, demo_repo)]. can_back_up (map_of ?b) demo_world um" using ready by simp
    show "real_dir (manifests_dir ''m'')" by (simp add: manifests real_dir_def)
    show "\<forall>um \<in> set [(?u, demo_repo)]. ?parse (url_string (fst um)) = Some (fst um) \<and> graphic (url_string (fst um)) \<and>
        length (url_string (fst um)) < 65536" by (simp add: url)
    show "manifests_dir ''m'' \<notin> (repo_dir \<circ> fst) ` set [(?u, demo_repo)]" by (simp add: manifests dir)
    show "set ((\<lambda>S. [''https://github.com/o/r'']) (url_string ` fst ` set [(?u, demo_repo)])) =
        url_string ` fst ` set [(?u, demo_repo)]" by (simp add: url)
  qed simp
  then show ?thesis by blast
qed

end
