(* ===== verification/BackupProcess.thy ===== *)
theory BackupProcess
  imports BackupRecovery
begin

text \<open>
  \<open>RunBackupProcess\<close> (\<open>google/backup.go\<close>): the recovery when the server starts, then a backup
  at each expiry of the timer; and how many manifests it keeps in the bucket.
\<close>

section \<open>The process\<close>

text \<open>
  An expiry of the timer: what happened to the world since the last one, the repositories
  the registry lists and the time. \<open>timer.Reset\<close> after the backup starts the next hour.
\<close>

definition backup_frequency :: duration where
  "backup_frequency = hour"

record 'd backup_tick =
  bt_before :: "'d world \<Rightarrow> 'd world"
  bt_repos :: "(url \<times> managed_repo) list"
  bt_now :: time

definition backup_once ::
  "status_lib \<Rightarrow> ('d, 'r) git_lib \<Rightarrow> server_config \<Rightarrow> 'b bucket_lib \<Rightarrow> string \<Rightarrow> 'd backup_tick \<Rightarrow>
     'b \<times> 'd world \<Rightarrow> 'b \<times> 'd world" where
  "backup_once L G cfg B manifest_name tick st =
     save_backup L G cfg B manifest_name (bt_repos tick) (bt_now tick) (fst st) (bt_before tick (snd st))"

definition run_backup_process ::
  "status_lib \<Rightarrow> ('d, 'r) git_lib \<Rightarrow> server_config \<Rightarrow> 'b bucket_lib \<Rightarrow> 'd tmp_files \<Rightarrow> canonicalizer \<Rightarrow>
     (string \<Rightarrow> url option) \<Rightarrow> (string set \<Rightarrow> string list) \<Rightarrow> string \<Rightarrow> 'd backup_tick list \<Rightarrow> 'b \<Rightarrow> 'd world \<Rightarrow>
     ('b \<times> 'd world) process" where
  "run_backup_process L G cfg B F canon parse_url order manifest_name ticks b w =
     map_process (fold (backup_once L G cfg B manifest_name) ticks)
       (recover_from_backup L G cfg B F canon parse_url order manifest_name b w)"

text \<open>The expiries are at least an hour apart.\<close>

definition timed :: "'d backup_tick list \<Rightarrow> bool" where
  "timed ticks \<longleftrightarrow> successively (\<lambda>s t. s + backup_frequency \<le> t) (map bt_now ticks)"

section \<open>What saving leaves alone\<close>

lemma digit_char_no_slash: "d < 10 \<Longrightarrow> digit_char d \<noteq> CHR ''/'' \<and> digit_char d \<noteq> CHR ''.''"
  by (auto dest: digit_char_code)

lemma show_nat_chars: "c \<in> set (show_nat n) \<Longrightarrow> c \<noteq> CHR ''/'' \<and> c \<noteq> CHR ''.''"
proof (induction n rule: show_nat.induct)
  case (1 n)
  then show ?case
    using show_nat.simps [of n] digit_char_no_slash [of n] digit_char_no_slash [of "n mod 10"] by (cases "n < 10") auto
qed

lemma pad12_is_plain: "pad12 t \<noteq> [] \<and> CHR ''/'' \<notin> set (pad12 t) \<and> pad12 t \<noteq> ''.'' \<and> pad12 t \<noteq> ''..''"
proof -
  obtain x n where pad: "pad12 t = x @ show_nat n" unfolding pad12_def by (metis append.assoc)
  obtain c cs where "show_nat n = c # cs" using show_nat_nonempty [of n] by (cases "show_nat n") auto
  with show_nat_chars [of c n] have "\<exists>c \<in> set (pad12 t). c \<noteq> CHR ''.''" unfolding pad by auto
  moreover have "CHR ''/'' \<notin> set (pad12 t)"
    using show_nat_chars [of "CHR ''/''"] digit_char_no_slash [of 0] by (auto simp: pad12_def)
  ultimately show ?thesis by auto
qed

lemma listed_plain:
  assumes "e \<noteq> []" and "CHR ''/'' \<notin> set e" and "objs (dir @ CHR ''/'' # e) \<noteq> None"
  shows "dir @ CHR ''/'' # e \<in> listed objs (dir @ ''/'')"
  using assms by (auto simp: listed_def has_prefix_def)

lemma set_tl: "set (tl xs) \<subseteq> set xs"
  by (cases xs) auto

text \<open>Whatever is in the bucket, only objects directly below the given directory are deleted.\<close>

lemma gc_bundle_frame:
  assumes law: "bucket_law B objs"
  shows "elsewhere_same dir (objs b) (objs (snd (gc_bundle L B dir b)))"
proof -
  obtain attrs where attrs: "list_objects B b (dir @ ''/'') = (attrs, None)"
    and names: "set (entry_names attrs) = listed (objs b) (dir @ ''/'')"
    using bucket_list [OF law] by metis
  let ?bundles = "sort_names (bundle_names (entry_names attrs))"
  have "set ?bundles \<subseteq> set (entry_names attrs)" by (auto simp: sort_names_def bundle_names_def)
  then have "set (tl ?bundles) \<subseteq> set (entry_names attrs)" using set_tl by (rule subset_trans [rotated])
  then have gone: "set (tl ?bundles) \<subseteq> listed (objs b) (dir @ ''/'')" by (simp only: names)
  have "snd (gc_bundle L B dir b) = fold (delete_object B) (tl ?bundles) b"
    by (simp add: gc_bundle_def attrs Let_def flip: entry_names_def)
  then have "objs (snd (gc_bundle L B dir b)) = (\<lambda>n. if n \<in> set (tl ?bundles) then None else objs b n)"
    by (simp only: bucket_deletes [OF law])
  then show ?thesis
    using gone by (intro change_elsewhere) (auto split: if_splits)
qed

lemma backup_managed_repo_frame:
  assumes law: "bucket_law B objs" and dir: "real_dir (repo_dir u)" and "backup_managed_repo L G cfg B u m b w = (err, b', w')"
  shows "elsewhere_same (repo_dir u) (objs b) (objs b')"
proof -
  let ?e = "pad12 (w_last_update w (r_path m))"
  have e: "?e \<noteq> []" "CHR ''/'' \<notin> set ?e" "?e \<noteq> ''.''" "?e \<noteq> ''..''" using pad12_is_plain by blast+
  have name: "bundle_file u (w_last_update w (r_path m)) = repo_dir u @ CHR ''/'' # ?e"
    using path_join_snoc [OF e dir] by (simp add: bundle_file_def)
  have "b' = b \<or> (\<exists>out. b' = commit_object B (repo_dir u @ CHR ''/'' # ?e) out b)"
    using assms(3) by (auto simp: backup_managed_repo_def name Let_def split: prod.splits option.splits)
  then show ?thesis
  proof
    assume "\<exists>out. b' = commit_object B (repo_dir u @ CHR ''/'' # ?e) out b"
    then obtain out where b': "objs b' = (objs b)(repo_dir u @ CHR ''/'' # ?e \<mapsto> out)"
      using bucket_commit [OF law] by auto
    have "repo_dir u @ CHR ''/'' # ?e \<in> listed (objs b') (repo_dir u @ ''/'')"
      by (rule listed_plain [OF e(1,2)]) (simp add: b')
    moreover have "n = repo_dir u @ CHR ''/'' # ?e" if "objs b' n \<noteq> objs b n" for n
      using that unfolding b' by (rule contrapos_np) (rule fun_upd_other)
    ultimately show ?thesis by (intro change_elsewhere) blast
  qed (simp add: elsewhere_same_refl)
qed

lemma save_one_frame:
  assumes law: "bucket_law B objs" and dir: "real_dir (repo_dir u)" and "save_one L G cfg B (u, m) (urls, b, w) = (urls', b', w')"
  shows "elsewhere_same (repo_dir u) (objs b) (objs b')"
proof -
  obtain latest name err b1 where gc: "gc_bundle L B (repo_dir u) b = ((latest, name, err), b1)" by (metis surj_pair)
  have one: "elsewhere_same (repo_dir u) (objs b) (objs b1)" using gc_bundle_frame [OF law, of "repo_dir u" b L] gc by simp
  obtain err2 b2 w2 where backup: "backup_managed_repo L G cfg B u m b1 w = (err2, b2, w2)" by (metis surj_pair)
  have "elsewhere_same (repo_dir u) (objs b1) (objs b2)" by (rule backup_managed_repo_frame [OF law dir backup])
  with one have "elsewhere_same (repo_dir u) (objs b) (objs b2)" by (rule elsewhere_same_trans)
  moreover have "b' = b1 \<or> b' = b2"
    using assms(3) by (auto simp: save_one_def gc backup split: if_splits option.splits)
  ultimately show ?thesis using one by auto
qed

lemma saves_frame:
  assumes law: "bucket_law B objs"
  shows "\<forall>um \<in> set repos. real_dir (repo_dir (fst um)) \<and> repo_dir (fst um) \<noteq> d \<Longrightarrow>
    same_at (objs (fst (snd st))) (objs (fst (snd (fold (save_one L G cfg B) repos st)))) d"
proof (induction repos arbitrary: st)
  case (Cons um repos)
  obtain u m urls b w where args: "um = (u, m)" "st = (urls, b, w)" by (metis surj_pair)
  obtain urls1 b1 w1 where one: "save_one L G cfg B (u, m) (urls, b, w) = (urls1, b1, w1)" by (metis surj_pair)
  have "same_at (objs b) (objs b1) d"
    using save_one_frame [OF law _ one] Cons.prems unfolding args by (auto simp: elsewhere_same_def)
  then show ?case
    using same_at_trans [OF _ Cons.IH [of "(urls1, b1, w1)"]] Cons.prems by (simp add: args one)
qed (simp add: same_at_refl)

section \<open>The manifests in the bucket\<close>

text \<open>A save leaves the manifests of the last day, the new one among them.\<close>

definition kept_manifests :: "time \<Rightarrow> int set \<Rightarrow> int set" where
  "kept_manifests now M = {s \<in> insert (unix_of now) M. of_last_day now s}"

text \<open>
  Repositories whose bundles are kept apart from the manifests: their directories in the
  bucket are directories, and none is that of the manifests.
\<close>

definition apart :: "string \<Rightarrow> (url \<times> managed_repo) list \<Rightarrow> bool" where
  "apart mn repos \<longleftrightarrow> (\<forall>um \<in> set repos. real_dir (repo_dir (fst um)) \<and> repo_dir (fst um) \<noteq> manifests_dir mn)"

lemma save_backup_manifests:
  assumes law: "bucket_law B objs" and dir: "real_dir (manifests_dir mn)" and at: "bundles_at (objs b) (manifests_dir mn) M"
    and now: "valid_time (unix_of now)" and apart: "apart mn repos"
  shows "bundles_at (objs (fst (save_backup L G cfg B mn repos now b w))) (manifests_dir mn) (kept_manifests now M)"
proof -
  obtain urls b1 w1 where saved: "fold (save_one L G cfg B) repos ([], b, w) = (urls, b1, w1)" by (metis surj_pair)
  have "same_at (objs b) (objs b1) (manifests_dir mn)"
    using saves_frame [OF law, of repos "manifests_dir mn" "([], b, w)" L G cfg] apart by (simp add: saved apart_def)
  then have at1: "bundles_at (objs b1) (manifests_dir mn) M" using at by (rule same_at_bundles)
  let ?name = "bundle_name (manifests_dir mn) (unix_of now)"
  have name: "path_join [manifest_dir, mn, pad12 (unix_of now)] = ?name"
    using path_join_snoc [of "pad12 (unix_of now)" "[manifest_dir, mn]"] pad12_plain [OF now] dir by simp
  define b2 where "b2 = commit_object B ?name (concat (map (\<lambda>u. u @ newline) urls)) b1"
  have b2: "objs b2 = (objs b1)(?name \<mapsto> concat (map (\<lambda>u. u @ newline) urls))"
    by (simp only: b2_def bucket_commit [OF law])
  have "?name \<in> listed (objs b2) (manifests_dir mn @ ''/'')"
    by (rule bundle_listed [of _ "objs b2" "manifests_dir mn" "concat (map (\<lambda>u. u @ newline) urls)", OF now]) (simp add: b2)
  then have "listed (objs b2) (manifests_dir mn @ ''/'') = bundle_name (manifests_dir mn) ` insert (unix_of now) M"
    using listed_committed at1 unfolding b2 bundles_at_def image_insert by metis
  then have "bundles_at (objs b2) (manifests_dir mn) (insert (unix_of now) M)"
    using at1 now by (simp add: bundles_at_def)
  note collected = garbage_collected_times [OF law this]
  have "save_backup L G cfg B mn repos now b w = (garbage_collect_old_manifests B mn now b2, w1)"
    by (simp only: save_backup_def saved name write_manifest_collects [OF law] b2_def Let_def prod.case option.case)
  then show ?thesis using collected by (simp only: kept_manifests_def fst_conv)
qed

section \<open>How many manifests there are\<close>

definition hourly :: "time \<Rightarrow> int set \<Rightarrow> bool" where
  "hourly now M \<longleftrightarrow> (\<forall>s \<in> M. s \<le> unix_of now) \<and> (\<forall>s \<in> M. \<forall>t \<in> M. s < t \<longrightarrow> s + 3600 \<le> t)"

lemma unix_of_hour:
  assumes "s + backup_frequency \<le> t"
  shows "unix_of s + 3600 \<le> unix_of t"
proof -
  have "(s + 3600 * second) div second \<le> t div second"
    using assms by (intro zdiv_mono1) (simp_all add: backup_frequency_def hour_def minute_def second_def)
  then show ?thesis by (simp add: unix_of_def second_def)
qed

lemma hourly_kept:
  assumes "hourly prev M" and "prev + backup_frequency \<le> now"
  shows "hourly now (kept_manifests now M)"
  using assms(1) unix_of_hour [OF assms(2)] by (fastforce simp: hourly_def kept_manifests_def)

lemma hourly_card:
  assumes "hourly now M" and "M = kept_manifests now M'"
  shows "card M \<le> 25"
proof -
  define hours where "hours s = (unix_of now - s) div 3600" for s
  have range: "unix_of now - 86400 \<le> s \<and> s \<le> unix_of now" if "s \<in> M" for s
  proof -
    have "unix_of now * second \<le> now" using div_mult_mod_eq [of now second] by (simp add: unix_of_def second_def)
    moreover have "now - 86400 * second \<le> s * second"
      using that assms(2) by (simp add: kept_manifests_def of_last_day_def manifest_clean_up_duration_def hour_def minute_def of_unix_def)
    ultimately show ?thesis using that assms(1) by (simp add: hourly_def second_def)
  qed
  have "inj_on hours M"
  proof (rule linorder_inj_onI)
    fix s t assume "s < t" and st: "s \<in> M" "t \<in> M"
    then have "s + 3600 \<le> t" using assms(1) by (simp add: hourly_def)
    then have "hours t + 1 \<le> hours s"
      using zdiv_mono1 [of "unix_of now - t + 3600" "unix_of now - s" 3600] by (simp add: hours_def)
    then show "hours s \<noteq> hours t" by simp
  qed auto
  moreover have "hours ` M \<subseteq> {0..24}"
  proof
    fix h assume "h \<in> hours ` M"
    then obtain s where s: "s \<in> M" "h = hours s" by blast
    have "0 \<le> unix_of now - s" and "unix_of now - s \<le> 86400" using range [OF s(1)] by simp_all
    then show "h \<in> {0..24}"
      using zdiv_mono1 [of 0 "unix_of now - s" 3600] zdiv_mono1 [of "unix_of now - s" 86400 3600] by (simp add: s(2) hours_def)
  qed
  ultimately have "card M \<le> card {0..24 :: int}" by (metis card_image card_mono finite_atLeastAtMost_int)
  then show ?thesis by simp
qed

text \<open>The manifests after some saves: those of the day before the last one.\<close>

definition manifests_after :: "'d backup_tick list \<Rightarrow> int set" where
  "manifests_after ticks = {s \<in> (unix_of \<circ> bt_now) ` set ticks. of_last_day (bt_now (last ticks)) s}"

lemma manifests_after_snoc:
  assumes "timed (ticks @ [tick])"
  shows "manifests_after (ticks @ [tick]) = kept_manifests (bt_now tick) (manifests_after ticks)"
proof (cases "ticks = []")
  case False
  have "bt_now (last ticks) + backup_frequency \<le> bt_now tick"
    using assms False by (simp add: timed_def successively_append_iff last_map)
  then have "bt_now (last ticks) \<le> bt_now tick" by (simp add: backup_frequency_def hour_def minute_def second_def)
  then have "of_last_day (bt_now (last ticks)) s" if "of_last_day (bt_now tick) s" for s
    using that by (simp add: of_last_day_def)
  then show ?thesis by (auto simp: manifests_after_def kept_manifests_def)
qed (auto simp: manifests_after_def kept_manifests_def)

lemma timed_butlast: "timed (ticks @ [tick]) \<Longrightarrow> timed ticks"
  by (simp add: timed_def successively_append_iff)

lemma loop_manifests:
  assumes law: "bucket_law B objs" and dir: "real_dir (manifests_dir mn)"
    and none: "bundles_at (objs (fst st)) (manifests_dir mn) {}"
  shows "\<lbrakk>timed ticks; \<forall>tick \<in> set ticks. apart mn (bt_repos tick) \<and> valid_time (unix_of (bt_now tick))\<rbrakk> \<Longrightarrow>
    bundles_at (objs (fst (fold (backup_once L G cfg B mn) ticks st))) (manifests_dir mn) (manifests_after ticks)"
proof (induction ticks rule: rev_induct)
  case (snoc tick ticks)
  have "bundles_at (objs (fst (fold (backup_once L G cfg B mn) ticks st))) (manifests_dir mn) (manifests_after ticks)"
    using snoc timed_butlast by auto
  then show ?case
    unfolding manifests_after_snoc [OF snoc.prems(1)] fold_append comp_def fold_simps backup_once_def
    using snoc.prems(2) by (intro save_backup_manifests [OF law dir]) auto
qed (use none in \<open>simp add: manifests_after_def\<close>)

lemma hourly_manifests: "timed ticks \<Longrightarrow> hourly (if ticks = [] then now else bt_now (last ticks)) (manifests_after ticks)"
proof (induction ticks rule: rev_induct)
  case (snoc tick ticks)
  have "hourly (bt_now tick) (kept_manifests (bt_now tick) (manifests_after ticks))"
  proof (cases "ticks = []")
    case False
    have "bt_now (last ticks) + backup_frequency \<le> bt_now tick"
      using snoc.prems False by (simp add: timed_def successively_append_iff last_map)
    then show ?thesis using hourly_kept snoc.IH [OF timed_butlast [OF snoc.prems]] False by simp
  qed (simp add: hourly_def kept_manifests_def manifests_after_def)
  then show ?case by (simp add: manifests_after_snoc [OF snoc.prems])
qed (simp add: hourly_def manifests_after_def)

lemma manifests_after_card: "timed ticks \<Longrightarrow> card (manifests_after ticks) \<le> 25"
proof (induction ticks rule: rev_induct)
  case (snoc tick ticks)
  from hourly_card [OF _ manifests_after_snoc [OF snoc.prems]] hourly_manifests [OF snoc.prems] show ?case by simp
qed (simp add: manifests_after_def)

section \<open>Properties\<close>

text \<open>
  C28: what the process keeps of its manifests. In a bucket that does not fail, with no
  manifest when the process starts, with saves an hour apart on a clock that is not set back,
  and with the bundles of the repositories kept in other directories than the manifests: when a
  save ends, whatever git did in it, there is exactly the manifest of each save of the last 24
  hours, and these are at most 25.
\<close>

theorem manifests_bounded:
  assumes "bucket_law B objs" and "real_dir (manifests_dir mn)" and "bundles_at (objs b) (manifests_dir mn) {}"
    and "order {} = []" and "timed ticks" and "\<forall>tick \<in> set ticks. apart mn (bt_repos tick) \<and> valid_time (unix_of (bt_now tick))"
    and "run_backup_process L G cfg B F canon parse_url order mn ticks b w = Returns (b', w')"
  shows "listed (objs b') (manifests_dir mn @ ''/'') = bundle_name (manifests_dir mn) ` manifests_after ticks \<and>
    card (listed (objs b') (manifests_dir mn @ ''/'')) \<le> 25"
proof -
  obtain attrs where "list_objects B b (manifests_dir mn @ ''/'') = (attrs, None)" "set (entry_names attrs) = {}"
    using bucket_list [OF assms(1)] assms(3) by (metis bundles_at_def image_empty)
  then have "recover_from_backup L G cfg B F canon parse_url order mn b w = Returns (b, w)"
    using assms(4) by (simp add: recover_from_backup_def read_repo_list_def entry_names_def)
  then have loop: "fold (backup_once L G cfg B mn) ticks (b, w) = (b', w')"
    using assms(7) by (simp add: run_backup_process_def)
  have at: "bundles_at (objs b') (manifests_dir mn) (manifests_after ticks)"
    using loop_manifests [OF assms(1,2) _ assms(5,6), of "(b, w)" L G cfg] assms(3) by (simp add: loop)
  then have listed: "listed (objs b') (manifests_dir mn @ ''/'') = bundle_name (manifests_dir mn) ` manifests_after ticks"
    by (simp only: bundles_at_def)
  have "card (bundle_name (manifests_dir mn) ` manifests_after ticks) \<le> card (manifests_after ticks)"
    using at by (intro card_image_le) (simp add: bundles_at_def)
  then have "card (listed (objs b') (manifests_dir mn @ ''/'')) \<le> 25"
    unfolding listed using manifests_after_card [OF assms(5)] by (rule order_trans)
  with listed show ?thesis by (rule conjI)
qed

text \<open>Three backups of a repository that git makes a bundle of.\<close>

definition demo_ticks :: "(oid list \<times> (string \<times> oid) list) backup_tick list" where
  "demo_ticks = map (\<lambda>k. \<lparr>bt_before = id, bt_repos = [(https_url ''github.com'' ''/o/r'', demo_repo)],
     bt_now = 1700000000 * second + k * hour\<rparr>) [1, 2, 27]"

theorem manifests_bounded_witness:
  "\<exists>b' w'. run_backup_process plain_status bundling_git demo_config shelf no_files (github_url_canonicalizer id)
      (\<lambda>_. None) (\<lambda>_. []) ''m'' demo_ticks [] demo_world = Returns (b', w') \<and>
    listed (map_of b') (manifests_dir ''m'' @ ''/'') = bundle_name (manifests_dir ''m'') ` manifests_after demo_ticks \<and>
    card (listed (map_of b') (manifests_dir ''m'' @ ''/'')) \<le> 25"
proof -
  let ?run = "run_backup_process plain_status bundling_git demo_config shelf no_files (github_url_canonicalizer id)
      (\<lambda>_. None) (\<lambda>_. []) ''m'' demo_ticks [] demo_world"
  have "\<exists>b' w'. ?run = Returns (b', w')"
    by (simp add: run_backup_process_def recover_from_backup_def read_repo_list_def shelf_def)
  then obtain b' w' where run: "?run = Returns (b', w')" by blast
  have "manifests_dir ''m'' = ''goblet-repository-manifests/m''" and "repo_dir (https_url ''github.com'' ''/o/r'') = ''github.com/o/r''"
    by code_simp+
  then have "\<forall>tick \<in> set demo_ticks. apart ''m'' (bt_repos tick) \<and> valid_time (unix_of (bt_now tick))"
    and "real_dir (manifests_dir ''m'')"
    by (simp_all add: demo_ticks_def apart_def real_dir_def valid_time_def unix_of_def hour_def minute_def second_def)
  moreover have "timed demo_ticks" by (simp add: timed_def demo_ticks_def backup_frequency_def hour_def minute_def second_def)
  moreover have "bundles_at (map_of []) (manifests_dir ''m'') {}" by (simp add: bundles_at_def listed_def)
  ultimately have "listed (map_of b') (manifests_dir ''m'' @ ''/'') = bundle_name (manifests_dir ''m'') ` manifests_after demo_ticks \<and>
      card (listed (map_of b') (manifests_dir ''m'' @ ''/'')) \<le> 25"
    using manifests_bounded [OF shelf_law _ _ _ _ _ run] by blast
  with run show ?thesis by blast
qed

end
