(* ===== verification/Seed.thy ===== *)
theory Seed
  imports Repo Paths
begin

text \<open>
  \<open>seedRepository\<close> (\<open>goblet.go\<close>): a repository filled from an archive in S3, a tar file
  compressed by gzip. The AWS client, the two decompressors and the file system are arguments.
\<close>

section \<open>The libraries\<close>

text \<open>
  An entry of the archive: its name, what its content reads as, and the error that reading
  ends with. \<open>tar_entries\<close> is what \<open>Next\<close> yields, and the error it ends with, \<open>None\<close> for
  \<open>io.EOF\<close>. Creating a file truncates it; \<open>os_append\<close> is the writing of \<open>io.Copy\<close>.
\<close>

record tar_entry =
  te_name :: string
  te_content :: bytes
  te_error :: "go_error option"

record ('c, 'd) seed_lib =
  load_default_config :: "string \<Rightarrow> go_error + 'c"
  get_object :: "'c \<Rightarrow> string \<Rightarrow> string \<Rightarrow> go_error + bytes"
  gzip_reader :: "bytes \<Rightarrow> go_error + bytes"
  tar_entries :: "bytes \<Rightarrow> tar_entry list \<times> go_error option"
  os_create :: "string \<Rightarrow> 'd \<Rightarrow> go_error option \<times> 'd"
  os_append :: "string \<Rightarrow> bytes \<Rightarrow> 'd \<Rightarrow> go_error option \<times> 'd"

section \<open>seedRepository\<close>

definition get_s3_client :: "('c, 'd) seed_lib \<Rightarrow> go_error + 'c" where
  "get_s3_client S = load_default_config S ''us-west-2''"

definition copy_entry :: "('c, 'd) seed_lib \<Rightarrow> string \<Rightarrow> tar_entry \<Rightarrow> 'd \<Rightarrow> go_error option \<times> 'd" where
  "copy_entry S path e d =
     (case os_append S path (te_content e) d of
        (Some err, d') \<Rightarrow> (Some err, d')
      | (None, d') \<Rightarrow> (te_error e, d'))"

fun extract_entries :: "('c, 'd) seed_lib \<Rightarrow> string \<Rightarrow> tar_entry list \<Rightarrow> go_error option \<Rightarrow> 'd \<Rightarrow> go_error option \<times> 'd" where
  "extract_entries S root [] end d = (end, d)"
| "extract_entries S root (hdr # rest) end d =
     (let path = path_join [root, te_name hdr] in
      case os_create S path d of
        (Some err, d1) \<Rightarrow> (Some err, d1)
      | (None, d1) \<Rightarrow>
          (case copy_entry S path hdr d1 of
             (Some err, d2) \<Rightarrow> (Some err, d2)
           | (None, d2) \<Rightarrow> extract_entries S root rest end d2))"

definition seed_repository ::
  "('c, 'd) seed_lib \<Rightarrow> (string \<Rightarrow> string) \<Rightarrow> managed_repo \<Rightarrow> 'd \<Rightarrow> go_error option \<times> 'd" where
  "seed_repository S getenv repository d =
     (case get_s3_client S of
        Inl err \<Rightarrow> (Some err, d)
      | Inr client \<Rightarrow>
          (case get_object S client (getenv ''FIGMA_CI_CACHE_BUCKET'') ''figma.tar'' of
             Inl err \<Rightarrow> (Some err, d)
           | Inr body \<Rightarrow>
               (case gzip_reader S body of
                  Inl err \<Rightarrow> (Some err, d)
                | Inr tar \<Rightarrow>
                    (case tar_entries S tar of (entries, end) \<Rightarrow>
                       extract_entries S (r_path repository) entries end d))))"

section \<open>A file system\<close>

text \<open>
  The documented behaviour of files, over their contents by path: a file that is created is
  empty, writing appends, and an operation that fails or succeeds changes no other file.
\<close>

definition files_law :: "('c, 'd) seed_lib \<Rightarrow> ('d \<Rightarrow> string \<rightharpoonup> bytes) \<Rightarrow> bool" where
  "files_law S files \<longleftrightarrow>
     (\<forall>p d. fst (os_create S p d) = None \<longrightarrow> files (snd (os_create S p d)) = (files d)(p \<mapsto> [])) \<and>
     (\<forall>p bs d. fst (os_append S p bs d) = None \<longrightarrow>
        files (snd (os_append S p bs d)) = (files d)(p := map_option (\<lambda>old. old @ bs) (files d p))) \<and>
     (\<forall>p q d. q \<noteq> p \<longrightarrow> files (snd (os_create S p d)) q = files d q) \<and>
     (\<forall>p q bs d. q \<noteq> p \<longrightarrow> files (snd (os_append S p bs d)) q = files d q)"

lemma create_ok: "files_law S files \<Longrightarrow> os_create S p d = (None, d') \<Longrightarrow> files d' = (files d)(p \<mapsto> [])"
  unfolding files_law_def by (metis fst_conv snd_conv)

lemma append_ok:
  "files_law S files \<Longrightarrow> os_append S p bs d = (None, d') \<Longrightarrow> files d' = (files d)(p := map_option (\<lambda>old. old @ bs) (files d p))"
  unfolding files_law_def by (metis fst_conv snd_conv)

lemma create_other: "files_law S files \<Longrightarrow> os_create S p d = (err, d') \<Longrightarrow> q \<noteq> p \<Longrightarrow> files d' q = files d q"
  unfolding files_law_def by (metis snd_conv)

lemma append_other: "files_law S files \<Longrightarrow> os_append S p bs d = (err, d') \<Longrightarrow> q \<noteq> p \<Longrightarrow> files d' q = files d q"
  unfolding files_law_def by (metis snd_conv)

text \<open>Where an entry goes, and the files after all of them.\<close>

definition entry_path :: "string \<Rightarrow> tar_entry \<Rightarrow> string" where
  "entry_path root e = path_join [root, te_name e]"

fun extracted :: "string \<Rightarrow> tar_entry list \<Rightarrow> (string \<rightharpoonup> bytes) \<Rightarrow> string \<rightharpoonup> bytes" where
  "extracted root [] m = m"
| "extracted root (e # es) m = extracted root es (m(entry_path root e \<mapsto> te_content e))"

lemma extract_entries_ok:
  assumes law: "files_law S files"
  shows "extract_entries S root es end d = (None, d') \<Longrightarrow> files d' = extracted root es (files d) \<and> (\<forall>e \<in> set es. te_error e = None)"
proof (induction es arbitrary: d)
  case (Cons e es)
  obtain d1 where d1: "os_create S (entry_path root e) d = (None, d1)"
    and rest1: "(case copy_entry S (entry_path root e) e d1 of (Some err, d2) \<Rightarrow> (Some err, d2)
      | (None, d2) \<Rightarrow> extract_entries S root es end d2) = (None, d')"
    using Cons.prems by (auto simp: entry_path_def Let_def split: prod.splits option.splits)
  obtain d2 where d2: "os_append S (entry_path root e) (te_content e) d1 = (None, d2)" "te_error e = None"
    and rest2: "extract_entries S root es end d2 = (None, d')"
    using rest1 by (auto simp: copy_entry_def split: prod.splits option.splits)
  have "files d2 = (files d)(entry_path root e \<mapsto> te_content e)"
    by (simp add: append_ok [OF law d2(1)] create_ok [OF law d1])
  then have "files d' = extracted root (e # es) (files d)"
    using conjunct1 [OF Cons.IH [OF rest2]] by (simp only: extracted.simps)
  with Cons.IH [OF rest2] d2(2) show ?case by simp
qed simp

lemma extract_entries_elsewhere:
  assumes law: "files_law S files"
  shows "extract_entries S root es end d = (err, d') \<Longrightarrow> q \<notin> entry_path root ` set es \<Longrightarrow> files d' q = files d q"
proof (induction es arbitrary: d)
  case (Cons e es)
  have q: "q \<noteq> entry_path root e" "q \<notin> entry_path root ` set es" using Cons.prems(2) by auto
  obtain err1 d1 where d1: "os_create S (entry_path root e) d = (err1, d1)" by (metis surj_pair)
  obtain err2 d2 where d2: "os_append S (entry_path root e) (te_content e) d1 = (err2, d2)" by (metis surj_pair)
  have "files d1 q = files d q" "files d2 q = files d1 q"
    using create_other [OF law d1 q(1)] append_other [OF law d2 q(1)] by auto
  moreover have "d' = d1 \<or> d' = d2 \<or> extract_entries S root es end d2 = (err, d')"
    using Cons.prems(1) d1 d2 by (auto simp: entry_path_def copy_entry_def Let_def split: option.splits)
  ultimately show ?case using Cons.IH [of d2] q(2) by auto
qed simp

text \<open>A name without parent elements is a path below the directory.\<close>

lemma entry_path_below:
  assumes "has_prefix root ''/''" and "no_dotdot root" and "no_dotdot (te_name e)"
  shows "path_elems (entry_path root e) = path_elems root @ path_elems (te_name e)"
proof -
  let ?s = "root @ CHR ''/'' # te_name e"
  have root: "root \<noteq> []" using assms(1) by (auto simp: has_prefix_def)
  with assms(1) have "has_prefix ?s ''/''" by (cases root) (auto simp: has_prefix_def)
  moreover have "no_dotdot ?s" using assms by (simp add: split_on_split)
  moreover have "entry_path root e = path_clean ?s" using root by (simp add: entry_path_def path_join_def)
  ultimately show ?thesis by (simp add: path_elems_path_clean path_elems_append)
qed

section \<open>A concrete file system, for witnesses\<close>

text \<open>Files by path, the newest first; nothing can be created below a file.\<close>

type_synonym demo_files = "(string \<times> bytes) list"

definition demo_seed :: "tar_entry list \<Rightarrow> (unit, demo_files) seed_lib" where
  "demo_seed entries = \<lparr>load_default_config = (\<lambda>_. Inr ()), get_object = (\<lambda>_ _ _. Inr ''gz''), gzip_reader = (\<lambda>_. Inr ''tar''),
     tar_entries = (\<lambda>_. (entries, None)),
     os_create = (\<lambda>p d. if \<exists>q \<in> fst ` set d. has_prefix p (q @ ''/'') then (Some (PlainError ''not a directory''), d)
       else (None, (p, []) # d)),
     os_append = (\<lambda>p bs d. (None, case map_of d p of None \<Rightarrow> d | Some old \<Rightarrow> (p, old @ bs) # d))\<rparr>"

lemma demo_seed_law: "files_law (demo_seed entries) map_of"
  by (auto simp: files_law_def demo_seed_def fun_eq_iff split: option.splits)

definition demo_entry :: "string \<Rightarrow> bytes \<Rightarrow> tar_entry" where
  "demo_entry name content = \<lparr>te_name = name, te_content = content, te_error = None\<rparr>"

lemmas demo_seed_simps = seed_repository_def get_s3_client_def demo_seed_def demo_entry_def

section \<open>Properties\<close>

text \<open>
  A seeding that succeeds extracted the whole archive: every entry was read in full, each
  file has the content of the last entry of its name, and all other files are as before.
\<close>

theorem seed_extracts_all:
  assumes "files_law S files" and "seed_repository S getenv r d = (None, d')"
  shows "\<exists>client body tar entries.
    get_object S client (getenv ''FIGMA_CI_CACHE_BUCKET'') ''figma.tar'' = Inr body \<and> gzip_reader S body = Inr tar \<and>
    tar_entries S tar = (entries, None) \<and> (\<forall>e \<in> set entries. te_error e = None) \<and>
    files d' = extracted (r_path r) entries (files d)"
proof -
  obtain client body tar entries "end" where steps: "get_s3_client S = Inr client"
    "get_object S client (getenv ''FIGMA_CI_CACHE_BUCKET'') ''figma.tar'' = Inr body" "gzip_reader S body = Inr tar"
    "tar_entries S tar = (entries, end)" and run: "extract_entries S (r_path r) entries end d = (None, d')"
    using assms(2) by (auto simp: seed_repository_def split: sum.splits prod.splits)
  have "end = None" using run by (induction entries arbitrary: d) (auto simp: Let_def split: prod.splits option.splits)
  with steps extract_entries_ok [OF assms(1) run] show ?thesis by blast
qed

theorem seed_extracts_all_witness:
  "\<exists>d'. seed_repository (demo_seed [demo_entry ''HEAD'' ''ref'', demo_entry ''refs/h'' ''0'', demo_entry ''HEAD'' ''ref2'']) (\<lambda>_. [])
      demo_repo [] = (None, d') \<and> map_of d' = extracted (r_path demo_repo)
      [demo_entry ''HEAD'' ''ref'', demo_entry ''refs/h'' ''0'', demo_entry ''HEAD'' ''ref2''] Map.empty"
proof -
  let ?es = "[demo_entry ''HEAD'' ''ref'', demo_entry ''refs/h'' ''0'', demo_entry ''HEAD'' ''ref2'']"
  have "fst (seed_repository (demo_seed ?es) (\<lambda>_. []) demo_repo []) = None" by code_simp
  then obtain d' where run: "seed_repository (demo_seed ?es) (\<lambda>_. []) demo_repo [] = (None, d')" by (metis prod.collapse)
  with seed_extracts_all [OF demo_seed_law run] show ?thesis by (auto simp: demo_seed_def)
qed

text \<open>
  Seeding stays inside the repository: whether it succeeds or fails, when no name in the
  archive has a parent element every file that changed lies below the repository.
\<close>

theorem seed_stays_inside:
  assumes "files_law S files" and "has_prefix (r_path r) ''/''" and "no_dotdot (r_path r)"
    and "\<And>tar e. e \<in> set (fst (tar_entries S tar)) \<Longrightarrow> no_dotdot (te_name e)"
    and "seed_repository S getenv r d = (err, d')" and "files d' q \<noteq> files d q"
  shows "prefix (path_elems (r_path r)) (path_elems q)"
proof -
  have "\<exists>tar end. extract_entries S (r_path r) (fst (tar_entries S tar)) end d = (err, d')"
    using assms(5,6) by (auto simp: seed_repository_def split: sum.splits prod.splits) (metis fst_conv)
  then obtain tar "end" where "extract_entries S (r_path r) (fst (tar_entries S tar)) end d = (err, d')" by blast
  with extract_entries_elsewhere [OF assms(1)] assms(6)
  obtain e where e: "e \<in> set (fst (tar_entries S tar))" "q = entry_path (r_path r) e" by blast
  then show ?thesis using entry_path_below [OF assms(2,3) assms(4) [OF e(1)]] by simp
qed

theorem seed_stays_inside_witness:
  "prefix [''cache'', ''github.com'', ''o'', ''r''] (path_elems ''/cache/github.com/o/r/HEAD'')"
proof -
  let ?S = "demo_seed [demo_entry ''HEAD'' ''ref'']"
  obtain err d' where run: "seed_repository ?S (\<lambda>_. []) demo_repo [] = (err, d')" by (metis surj_pair)
  have "map_of (snd (seed_repository ?S (\<lambda>_. []) demo_repo [])) ''/cache/github.com/o/r/HEAD'' = Some ''ref''" by code_simp
  then have "map_of d' ''/cache/github.com/o/r/HEAD'' \<noteq> map_of [] ''/cache/github.com/o/r/HEAD''" by (simp add: run)
  moreover have "has_prefix (r_path demo_repo) ''/''" "no_dotdot (r_path demo_repo)"
    "path_elems (r_path demo_repo) = [''cache'', ''github.com'', ''o'', ''r'']" "no_dotdot ''HEAD''"
    by code_simp+
  ultimately show ?thesis
    using seed_stays_inside [OF demo_seed_law _ _ _ run, of "''/cache/github.com/o/r/HEAD''"] by (simp add: demo_seed_def demo_entry_def)
qed

text \<open>
  Names are not checked, so an entry can be written anywhere; and an entry for a directory is
  created as a file, after which the files in it cannot be.
\<close>

theorem seed_leaves_the_repository:
  "map_of (snd (seed_repository (demo_seed [demo_entry ''../../../../etc/passwd'' ''x'']) (\<lambda>_. []) demo_repo [])) ''/etc/passwd'' = Some ''x''"
  by code_simp

theorem seed_fails_on_directories:
  "fst (seed_repository (demo_seed [demo_entry ''refs/'' [], demo_entry ''refs/h'' ''0'']) (\<lambda>_. []) demo_repo []) =
     Some (PlainError ''not a directory'')"
  by code_simp

end
