(* ===== verification/Requests.thy ===== *)
theory Requests
  imports Server Pools Registry
begin

text \<open>
  The life of the registry while the server runs: requests, background fetches, bundles and
  openings one after the other, each with whatever others do while it waits. What the others
  may do is what every one of them is shown to do: the registry only grows.
\<close>

section \<open>What one operation may do to the world\<close>

text \<open>
  A relation between the world before and after: nothing happens, one after the other, any
  change outside the registry, and the opening of a repository.
\<close>

locale world_guarantee =
  fixes grows :: "'d world \<Rightarrow> 'd world \<Rightarrow> bool" and X :: "('d, 'r) libs" and cfg :: server_config and canon :: canonicalizer
  assumes grows_trans: "grows w w1 \<Longrightarrow> grows w1 w2 \<Longrightarrow> grows w w2"
    and grows_outside: "w_repos w' = w_repos w \<Longrightarrow> w_once w' = w_once w \<Longrightarrow> grows w w'"
    and grows_open: "open_managed_repository (lib_status X) (lib_git X) cfg canon u w = Returns (res, w') \<Longrightarrow> grows w w'"
begin

lemma grows_refl: "grows w w"
  by (rule grows_outside) simp_all

lemma stats_grow:
  assumes "grows w v"
  shows "grows w (record_stat ev v)" "grows w (log_elapsed op p v)" "grows w (count_operation p tags v)"
  by (rule grows_trans [OF assms grows_outside]; simp)+

lemma wants_grow: "grows w (snd (has_all_wants (lib_status X) (lib_git X) r hashes refs w))"
  by (rule grows_outside) (simp_all add: has_all_wants_def)

lemma fetch_grows: "grows w (snd (fetch_upstream (lib_status X) (lib_git X) cfg r t t' wants w))"
  by (rule grows_outside) simp_all

lemma serve_grows: "grows w (snd (snd (serve_fetch_local (lib_wire X) (lib_git X) cfg r wr command ci s w)))"
  by (rule grows_outside) (simp_all add: serve_fetch_local_def Let_def split_beta)

lemma ls_refs_grows: "grows w (snd (ls_refs_upstream (lib_status X) (lib_wire X) (lib_git X) r h command w))"
  by (rule grows_outside)
    (simp_all add: ls_refs_upstream_def Let_def split_beta split: upstream_reply.split option.split)

lemma run_gc_grows: "grows w (snd (run_gc (lib_status X) (lib_git X) cfg r w))"
  by (rule grows_outside) (simp_all add: run_gc_def start_operation_def Let_def split_beta)

lemma recover_grows: "grows w (snd (recover_from_bundle (lib_status X) (lib_git X) cfg r path w))"
  by (rule grows_outside) (simp_all add: recover_from_bundle_def start_operation_def Let_def split_beta)

lemma write_bundle_grows: "grows w (snd (snd (write_bundle (lib_status X) (lib_git X) cfg r wr s w)))"
  by (rule grows_outside) (simp_all add: write_bundle_def start_operation_def Let_def split_beta)

text \<open>One command, when the others do no more than this.\<close>

lemma fetch_task_grows:
  assumes "\<And>k v. grows v (env_at E k v)"
  shows "grows w (fetch_task X cfg E r hashes refs w)"
proof -
  let ?w0 = "log_elapsed ''FetchUpstream queuing'' (r_path r) (env_at E 0 w)"
  obtain check w1 where wants: "has_all_wants (lib_status X) (lib_git X) r hashes refs ?w0 = (check, w1)" by fastforce
  have g1: "grows w w1" using grows_trans [OF stats_grow(2) [OF assms] wants_grow] wants by (metis snd_conv)
  have "grows w (snd (fetch_upstream (lib_status X) (lib_git X) cfg r t t' hashes (env_at E 1 (count_operation p tags w1))))"
    for t t' p tags
    using grows_trans [OF grows_trans [OF stats_grow(3) [OF g1] assms] fetch_grows] .
  with g1 show ?thesis by (simp add: fetch_task_def Let_def wants split: sum.split bool.split)
qed

lemma serve_task_grows:
  assumes "\<And>k v. grows v (env_at E k v)"
  shows "grows w (snd (snd (serve_task X cfg E report wr r command ci tags s w)))"
  using grows_trans [OF stats_grow(2) [OF assms] serve_grows] by (simp add: serve_task_def Let_def split_beta)

lemma handle_fetch_grows:
  assumes "\<And>k v. grows v (env_at E k v)"
  shows "grows w (snd (snd (handle_fetch X cfg E report wr r command ci tags s w)))"
proof (cases "parse_fetch_wants (lib_new_oid X) command")
  case (Inr wants)
  obtain hashes refs where hr: "wants = (hashes, refs)" by fastforce
  obtain check w1 where w1: "has_all_wants (lib_status X) (lib_git X) r hashes refs w = (check, w1)" by fastforce
  define w2 where "w2 = env_at E 2 (fetch_task X cfg E r hashes refs w1)"
  obtain check' w3 where w3: "has_all_wants (lib_status X) (lib_git X) r hashes refs w2 = (check', w3)" by fastforce
  have g1: "grows w w1" using wants_grow [of w r hashes refs] w1 by simp
  have g2: "grows w w2" unfolding w2_def
    by (rule grows_trans [OF grows_trans [OF g1 fetch_task_grows] assms]) (rule assms)
  have g3: "grows w w3" using grows_trans [OF g2] wants_grow [of w2 r hashes refs] w3 by simp
  have serve: "grows w (snd (snd (serve_task X cfg E report wr r command ci tags' s v)))" if "grows w v" for v tags'
    by (rule grows_trans [OF that serve_task_grows]) (rule assms)
  show ?thesis
    using g1 g2 g3 serve [OF g1] serve [OF stats_grow(1) [OF g3]]
    by (auto simp: handle_fetch_def Inr hr w1 Let_def w3 simp flip: w2_def split: sum.split bool.split prod.split option.split)
qed (simp add: handle_fetch_def grows_refl)

lemma handle_ls_refs_grows:
  "grows w (snd (snd (handle_ls_refs X E report wr r command tags s w)))"
  using ls_refs_grows [of w r "env_store E" command] grows_refl
  by (auto simp: handle_ls_refs_def split: prod.split option.split sum.split)

lemma handle_v2_grows:
  assumes "\<And>k v. grows v (env_at E k v)"
    and "handle_v2_command X cfg E report wr r command ci tags s w = Some (ok, s', w')"
  shows "grows w w'"
proof -
  have "grows w w'" if "handle_fetch X cfg E report wr r command ci tags' s w = (ok, s', w')" for tags'
    using handle_fetch_grows [of E w report wr r command ci tags' s] assms(1) that by simp
  moreover have "grows w w'" if "handle_ls_refs X E report wr r command tags' s w = (ok, s', w')" for tags'
    using handle_ls_refs_grows [of w E report wr r command tags' s] that by simp
  ultimately show ?thesis
    using assms(2) grows_refl by (auto simp: handle_v2_command_def split: list.splits prod.splits option.splits if_splits)
qed

section \<open>Requests\<close>

lemma command_loop_grows:
  assumes "\<And>i k v. grows v (env_at (run i) k v)"
  shows "command_loop X cfg run tags repo ci i commands s w = Finished (s', w') \<Longrightarrow> grows w w'"
proof (induction commands arbitrary: i s w)
  case (Cons command rest)
  obtain ok s1 w1 where one: "handle_v2_command X cfg (run i) (git_report_error (lib_status X) (lib_wire X) (cfg_error_reporter cfg))
      sink_write repo command ci tags s w = Some (ok, s1, w1)"
    using Cons.prems by (auto simp: Let_def split: option.splits)
  have "grows w w1" by (rule handle_v2_grows [OF assms one])
  moreover have "grows w1 (w1\<lparr>w_stats := st\<rparr>)" for st by (rule grows_outside) simp_all
  ultimately have g: "grows w (w1\<lparr>w_stats := st\<rparr>)" for st using grows_trans by blast
  show ?case
  proof (cases ok)
    case True
    then show ?thesis using Cons.prems Cons.IH grows_trans [OF g] by (fastforce simp: one Let_def)
  next
    case False
    then show ?thesis using Cons.prems g by (auto simp: one Let_def)
  qed
qed (simp add: grows_refl)

lemma upload_pack_grows:
  assumes "\<And>i k v. grows v (env_at (sv_run V i) k v)" and "sv_canon V = canon"
    and "upload_pack_handler X cfg V report r ci s w = Finished (s', w')"
  shows "grows w w'"
  using assms(3) unfolding upload_pack_handler_def Let_def assms(2)
  by (auto split: sum.splits prod.splits process.splits if_splits
      intro: grows_refl grows_open grows_trans [OF grows_open command_loop_grows [OF assms(1)]])

lemma serve_http_grows:
  assumes "\<And>i k v. grows v (env_at (sv_run V i) k v)" and "sv_canon V = canon"
    and "serve_http X cfg V r rw flusher w = Finished (s', w')"
  shows "grows w w'"
  using assms(3) upload_pack_grows [OF assms(1,2)] grows_refl
  by (auto simp: serve_http_def route_def Let_def split: prod.splits option.splits if_splits)

lemma async_task_grows: "grows w (snd (async_task (lib_status X) (lib_git X) cfg r must_fetch E w))"
proof -
  let ?w0 = "log_elapsed ''FetchManagedRepository queuing'' (r_path r) w"
  let ?fetch = "\<lambda>must. fetch_upstream (lib_status X) (lib_git X) cfg r (ae_start E) (ae_end E) []
    (count_operation (r_path r) [''op:background_fetch'', must] ?w0)"
  define w1 where "w1 = (if must_fetch then snd (?fetch ''must:1'')
    else if recent r (ae_pickup E) ?w0 then ?w0 else snd (?fetch ''must:0''))"
  note g0 = stats_grow(2) [OF grows_refl]
  have "grows w (snd (?fetch must))" for must by (rule grows_trans [OF stats_grow(3) [OF g0] fetch_grows])
  with g0 have "grows w w1" by (simp add: w1_def)
  moreover have "snd (async_task (lib_status X) (lib_git X) cfg r must_fetch E w) =
    (if ae_gc_log E (w_disk w1) (path_join [r_path r, ''gc.log'']) then snd (run_gc (lib_status X) (lib_git X) cfg r w1) else w1)"
    by (simp add: async_task_def w1_def Let_def split_beta)
  ultimately show ?thesis using grows_trans [OF \<open>grows w w1\<close> run_gc_grows] by simp
qed

lemma background_grows:
  assumes "\<And>v. grows v (ae_queue E v)"
    and "fetch_managed_repository_async (lib_status X) (lib_git X) cfg canon u must_fetch E w = Returns (sent, w')"
  shows "grows w w'"
proof -
  obtain res w1 where op: "open_managed_repository (lib_status X) (lib_git X) cfg canon u w = Returns (res, w1)"
    using assms(2) by (auto simp: fetch_managed_repository_async_def split: process.splits)
  note g1 = grows_open [OF op]
  have task: "grows w w'" if "async_task (lib_status X) (lib_git X) cfg repo must_fetch E (ae_queue E w1) = (sent, w')" for repo
    using grows_trans [OF grows_trans [OF g1 assms(1)] async_task_grows [of _ repo must_fetch E]] that by (metis snd_conv)
  show ?thesis
    using assms(2) g1 task by (auto simp: fetch_managed_repository_async_def op split: sum.splits if_splits)
qed

end

section \<open>The registry only grows\<close>

text \<open>
  Every repository is stored under its own path, which is the one of the canonical URL its
  upstream is.
\<close>

definition registry_inv :: "server_config \<Rightarrow> canonicalizer \<Rightarrow> 'd world \<Rightarrow> bool" where
  "registry_inv cfg canon w \<longleftrightarrow>
     (\<forall>path m. w_repos w path = Some m \<longrightarrow> r_path m = path \<and>
        (\<exists>u v. canon u = Inr v \<and> local_disk_path (cfg_root cfg) v = path \<and> r_upstream m = url_string v))"

definition registry_grows :: "server_config \<Rightarrow> canonicalizer \<Rightarrow> 'd world \<Rightarrow> 'd world \<Rightarrow> bool" where
  "registry_grows cfg canon w w' \<longleftrightarrow>
     (\<forall>p m. w_repos w p = Some m \<longrightarrow> w_repos w' p = Some m) \<and> (\<forall>p. w_once w p \<longrightarrow> w_once w' p) \<and>
     (registry_inv cfg canon w \<longrightarrow> registry_inv cfg canon w')"

text \<open>What opening a repository leaves in the registry.\<close>

lemma registry_grows_trans: "registry_grows cfg canon w w1 \<Longrightarrow> registry_grows cfg canon w1 w2 \<Longrightarrow> registry_grows cfg canon w w2"
  by (simp add: registry_grows_def)

lemma registry_grows_outside: "w_repos w' = w_repos w \<Longrightarrow> (\<And>p. w_once w p \<Longrightarrow> w_once w' p) \<Longrightarrow> registry_grows cfg canon w w'"
  by (simp add: registry_grows_def registry_inv_def)

lemma stored_grows:
  assumes "get_managed_repo (local_disk_path (cfg_root cfg) v) v w = (m, w')" and "canon u = Inr v"
  shows "registry_grows cfg canon w w' \<and> w_repos w' (local_disk_path (cfg_root cfg) v) = Some m \<and> w_once w' = w_once w"
proof (cases "w_repos w (local_disk_path (cfg_root cfg) v)")
  case None
  let ?path = "local_disk_path (cfg_root cfg) v"
  have res: "m = \<lparr>r_path = ?path, r_upstream = url_string v\<rparr>" "w' = w\<lparr>w_repos := (w_repos w)(?path \<mapsto> m)\<rparr>"
    using assms(1) None by (auto simp: get_managed_repo_def Let_def)
  have "registry_inv cfg canon w'" if "registry_inv cfg canon w"
    using that assms(2) unfolding registry_inv_def res by auto
  with None show ?thesis by (auto simp: registry_grows_def res)
next
  case (Some m')
  then show ?thesis using assms(1) by (auto simp: get_managed_repo_def registry_grows_def)
qed

lemma open_registered:
  assumes "open_managed_repository L G cfg canon u w = Returns (res, w')"
  shows "registry_grows cfg canon w w' \<and>
    (\<forall>v m. canon u = Inr v \<longrightarrow> res = Inr m \<longrightarrow>
      w_repos w' (local_disk_path (cfg_root cfg) v) = Some m \<and> w_once w' (local_disk_path (cfg_root cfg) v))"
proof (cases "canon u")
  case (Inr v)
  let ?path = "local_disk_path (cfg_root cfg) v"
  obtain m w0 where get: "get_managed_repo ?path v w = (m, w0)" by fastforce
  obtain w2 where once: "once_do ?path (init_repository L G ?path v) w0 = Returns w2" and res: "res = Inr m" "w' = w2"
    using assms by (auto simp: open_managed_repository_def Inr get Let_def split: process.splits)
  note fields = once_do_fields [OF once]
  have "registry_grows cfg canon w0 w'" by (rule registry_grows_outside) (simp_all add: res fields)
  then show ?thesis
    using stored_grows [of cfg v w m w0 canon u] get Inr registry_grows_trans [of cfg canon w w0 w']
    by (simp add: Inr res fields)
qed (use assms in \<open>simp add: open_managed_repository_def registry_grows_def\<close>)

interpretation registry_guarantee: world_guarantee "registry_grows cfg canon" X cfg canon
  for cfg canon and X :: "('d, 'r) libs"
proof unfold_locales
  fix w w1 w2 w' :: "'d world" and u res
  show "registry_grows cfg canon w w1 \<Longrightarrow> registry_grows cfg canon w1 w2 \<Longrightarrow> registry_grows cfg canon w w2"
    by (rule registry_grows_trans)
  show "w_repos w' = w_repos w \<Longrightarrow> w_once w' = w_once w \<Longrightarrow> registry_grows cfg canon w w'"
    by (rule registry_grows_outside) simp_all
  show "open_managed_repository (lib_status X) (lib_git X) cfg canon u w = Returns (res, w') \<Longrightarrow> registry_grows cfg canon w w'"
    using open_registered by blast
qed

section \<open>The steps of openings and of the pools\<close>

text \<open>Openings, step by step and interleaved.\<close>

lemma open_step_registry:
  assumes "open_step L G cfg canon urls t s = Some (Returns s')" and "thread_ok cfg canon urls s t"
  shows "registry_grows cfg canon (rg_world s) (rg_world s')"
proof (cases "rg_pc s t")
  case (BeforeStore v)
  obtain m w where get: "get_managed_repo (local_disk_path (cfg_root cfg) v) v (rg_world s) = (m, w)" by fastforce
  have "rg_world s' = w \<or> rg_world s' = rg_world s"
    using assms(1) BeforeStore get by (auto simp: open_step_def move_def Let_def split: if_splits)
  moreover have "canon (urls t) = Inr v" using assms(2) BeforeStore by (simp add: thread_ok_def)
  ultimately show ?thesis using stored_grows [OF get] registry_grows_outside [of "rg_world s" "rg_world s"] by auto
next
  case (Initialising v m)
  with assms obtain w where w: "init_repository L G (r_path m) v (rg_world s) = Returns w"
    and s': "rg_world s' = w\<lparr>w_once := (w_once w)(r_path m := True)\<rparr>"
    by (auto simp: open_step_def move_def split: process.splits)
  show ?thesis by (rule registry_grows_outside) (simp_all add: s' init_repository_fields [OF w])
qed (use assms in \<open>auto simp: open_step_def move_def intro: registry_grows_outside split: sum.splits if_splits\<close>)

lemma reg_run_registry:
  assumes "reg_run L G cfg canon urls s es s'" and "reg_inv cfg canon urls done s"
  shows "registry_grows cfg canon (rg_world s) (rg_world s')"
  using assms
proof (induction rule: reg_run.induct)
  case (more s es s1 e s2)
  have inv: "reg_inv cfg canon urls done s1" by (rule reg_run_inv [OF more.hyps(1) more.prems])
  from more.hyps(2) have "registry_grows cfg canon (rg_world s1) (rg_world s2)"
  proof (cases rule: reg_stepE)
    case (moves t)
    then show ?thesis using open_step_registry [OF moves(2)] inv by (simp add: reg_inv_def)
  next
    case (elsewhere w')
    then show ?thesis by (simp add: registry_grows_outside)
  qed
  with more.IH [OF more.prems] show ?case by (rule registry_grows_trans)
qed (simp add: registry_grows_outside)

text \<open>The jobs of a repository's pool, which leave the registry alone.\<close>

lemma fetch_steps_fields [simp]:
  "w_repos (fetch_begin L r t w) = w_repos w" "w_once (fetch_begin L r t w) = w_once w"
  "w_repos (fetch_end_of L r t t' err w) = w_repos w" "w_once (fetch_end_of L r t t' err w) = w_once w"
  by (simp_all add: fetch_begin_def fetch_end_of_def Let_def)

lemma operation_fields [simp]:
  "w_repos (snd (run_gc L G cfg r w)) = w_repos w" "w_once (snd (run_gc L G cfg r w)) = w_once w"
  "w_repos (snd (start_operation cfg name w)) = w_repos w" "w_once (snd (start_operation cfg name w)) = w_once w"
  by (simp_all add: run_gc_def start_operation_def Let_def split_beta)

lemma job_step_registry:
  assumes "job_step L G cfg r gc_log jobs now i s = Some s'"
  shows "w_repos (rp_world s') = w_repos (rp_world s)" and "w_once (rp_world s') = w_once (rp_world s)"
proof -
  have "w_repos (rp_world s') = w_repos (rp_world s) \<and> w_once (rp_world s') = w_once (rp_world s)"
    using assms
    by (cases "rp_pc s i"; cases "jobs i")
      (auto simp: job_step_def pool_ops has_all_wants_def Let_def split_beta split: if_splits)
  then show "w_repos (rp_world s') = w_repos (rp_world s)" and "w_once (rp_world s') = w_once (rp_world s)" by simp_all
qed

lemma pool_run_registry:
  assumes "pool_run L G cfg r gc_log P jobs others s es s'" and "\<And>w w'. others w w' \<Longrightarrow> registry_grows cfg canon w w'"
  shows "registry_grows cfg canon (rp_world s) (rp_world s')"
  using assms
proof (induction rule: pool_run.induct)
  case (more s es s1 e s2)
  from more.hyps(2) have "registry_grows cfg canon (rp_world s1) (rp_world s2)"
  proof (induction rule: pool_step.induct)
    case (run now i s s')
    then show ?case using job_step_registry [OF run(1)] by (intro registry_grows_outside) simp_all
  qed (auto simp: at_def intro: registry_grows_outside more.prems)
  with more.IH [OF more.prems] show ?case by (rule registry_grows_trans)
qed (simp add: registry_grows_outside)

section \<open>Runs of the server\<close>

text \<open>
  A request that is answered, a background fetch, an opening, a bundle that is written or
  fetched from, with others in between that let the registry grow; any interleaving of the
  steps of openings; and any run of a repository's pool.
\<close>

inductive server_step :: "('d, 'r) libs \<Rightarrow> server_config \<Rightarrow> canonicalizer \<Rightarrow> 'd world \<Rightarrow> 'd world \<Rightarrow> bool"
  for X cfg canon
where
  request: "\<lbrakk>serve_http X cfg V r rw flusher w = Finished (s, w'); sv_canon V = canon;
      \<And>i k v. registry_grows cfg canon v (env_at (sv_run V i) k v)\<rbrakk> \<Longrightarrow> server_step X cfg canon w w'"
| background: "\<lbrakk>fetch_managed_repository_async (lib_status X) (lib_git X) cfg canon u must_fetch E w = Returns (sent, w');
      \<And>v. registry_grows cfg canon v (ae_queue E v)\<rbrakk> \<Longrightarrow> server_step X cfg canon w w'"
| opened: "open_managed_repository (lib_status X) (lib_git X) cfg canon u w = Returns (res, w') \<Longrightarrow> server_step X cfg canon w w'"
| saving: "write_bundle (lib_status X) (lib_git X) cfg m wr out w = (err, out' :: bytes, w') \<Longrightarrow> server_step X cfg canon w w'"
| recovering: "recover_from_bundle (lib_status X) (lib_git X) cfg m path w = (err, w') \<Longrightarrow> server_step X cfg canon w w'"
| openings: "reg_run (lib_status X) (lib_git X) cfg canon urls s es s' \<Longrightarrow> reg_inv cfg canon urls finished s \<Longrightarrow>
    server_step X cfg canon (rg_world s) (rg_world s')"
| pools: "pool_run (lib_status X) (lib_git X) cfg m gc_log P jobs others p es p' \<Longrightarrow>
    (\<And>v v'. others v v' \<Longrightarrow> registry_grows cfg canon v v') \<Longrightarrow> server_step X cfg canon (rp_world p) (rp_world p')"

abbreviation server_run :: "('d, 'r) libs \<Rightarrow> server_config \<Rightarrow> canonicalizer \<Rightarrow> 'd world \<Rightarrow> 'd world \<Rightarrow> bool" where
  "server_run X cfg canon \<equiv> (server_step X cfg canon)\<^sup>*\<^sup>*"

lemma server_step_grows: "server_step X cfg canon w w' \<Longrightarrow> registry_grows cfg canon w w'"
proof (induction rule: server_step.induct)
  case (request V r rw flusher w s w')
  then show ?case using registry_guarantee.serve_http_grows by blast
next
  case (background u must_fetch E w sent w')
  then show ?case using registry_guarantee.background_grows by blast
next
  case (opened u w res w')
  then show ?case using registry_guarantee.grows_open by blast
next
  case (saving m wr out w err out' w')
  then show ?case using registry_guarantee.write_bundle_grows [of cfg canon w X m wr out] by simp
next
  case (recovering m path w err w')
  then show ?case using registry_guarantee.recover_grows [of cfg canon w X m path] by simp
next
  case (openings urls s es s' finished)
  then show ?case by (rule reg_run_registry)
next
  case (pools m gc_log P jobs others p es p')
  then show ?case by (rule pool_run_registry)
qed

lemma server_run_grows: "server_run X cfg canon w w' \<Longrightarrow> registry_grows cfg canon w w'"
  by (induction rule: rtranclp_induct)
    (auto intro: registry_guarantee.grows_refl registry_guarantee.grows_trans server_step_grows)

section \<open>Properties\<close>

text \<open>
  C17: requests share repositories: whatever the server does from its start to an opening and
  from there to a later one, two URLs that lead to the same directory get the same managed
  repository, hence one mutex and one pair of pools; the second opening runs no git command;
  and the upstream is a canonical URL of that very directory.
\<close>

theorem requests_share_repository:
  assumes "registry_inv cfg canon w0"
    and "server_run X cfg canon w0 w1" and "open_managed_repository (lib_status X) (lib_git X) cfg canon u w1 = Returns (Inr m, w2)"
    and "server_run X cfg canon w2 w3" and "open_managed_repository (lib_status X) (lib_git X) cfg canon u' w3 = Returns (Inr m', w4)"
    and "canon u = Inr v" and "canon u' = Inr v'" and "local_disk_path (cfg_root cfg) v' = local_disk_path (cfg_root cfg) v"
  shows "m' = m \<and> w4 = w3 \<and> r_path m = local_disk_path (cfg_root cfg) v \<and>
    (\<exists>u0 v0. canon u0 = Inr v0 \<and> local_disk_path (cfg_root cfg) v0 = r_path m \<and> r_upstream m = url_string v0)"
proof -
  let ?path = "local_disk_path (cfg_root cfg) v"
  have inv1: "registry_inv cfg canon w1" using server_run_grows [OF assms(2)] assms(1) by (simp add: registry_grows_def)
  have opened: "registry_grows cfg canon w1 w2" "w_repos w2 ?path = Some m" "w_once w2 ?path"
    using open_registered [OF assms(3)] assms(6) by simp_all
  with inv1 have inv2: "registry_inv cfg canon w2" by (simp add: registry_grows_def)
  have later: "w_repos w3 ?path = Some m" "w_once w3 ?path"
    using server_run_grows [OF assms(4)] opened(2,3) by (simp_all add: registry_grows_def)
  then have "m' = m \<and> w4 = w3"
    using assms(5,7,8) by (simp add: open_managed_repository_def get_managed_repo_def once_do_def)
  with inv2 opened(2) show ?thesis unfolding registry_inv_def by metis
qed

text \<open>The two endpoints of a repository, with a background fetch in between.\<close>

theorem requests_share_repository_witness:
  "\<exists>m w3. open_managed_repository plain_status (demo_git demo_reply) demo_config (github_url_canonicalizer id)
      (https_url ''github.com'' ''/o/r/info/refs'') w3 = Returns (Inr m, w3) \<and> r_path m = ''/cache/github.com/o/r''"
proof -
  let ?X = "demo_libs demo_reply" and ?c = "github_url_canonicalizer id"
  have X: "lib_status ?X = plain_status" "lib_git ?X = demo_git demo_reply" by (simp_all add: demo_libs_def)
  obtain m where m: "open_managed_repository plain_status (demo_git demo_reply) demo_config ?c
      (https_url ''github.com'' ''/o/r'') demo_world = Returns (Inr m, opened_world)"
    using demo_open by blast
  obtain err out w3 where saved: "write_bundle plain_status (demo_git demo_reply) demo_config m (\<lambda>b s. (length b, None, s @ b)) [] opened_world =
      (err, out :: bytes, w3)" by (rule prod_cases3)
  from saved have "server_step ?X demo_config ?c opened_world w3" unfolding X [symmetric] by (rule server_step.saving)
  then have run: "server_run ?X demo_config ?c opened_world w3" by (rule r_into_rtranclp)
  have canon: "?c (https_url ''github.com'' ''/o/r/info/refs'') = Inr (https_url ''github.com'' ''/o/r'')"
    and path: "local_disk_path (cfg_root demo_config) (https_url ''github.com'' ''/o/r'') = ''/cache/github.com/o/r''"
    by code_simp+
  have "w_repos w3 ''/cache/github.com/o/r'' = Some m \<and> w_once w3 ''/cache/github.com/o/r''"
    using open_registered [OF m] server_run_grows [OF run] demo_canon path by (simp add: registry_grows_def)
  then have again: "open_managed_repository plain_status (demo_git demo_reply) demo_config ?c
      (https_url ''github.com'' ''/o/r/info/refs'') w3 = Returns (Inr m, w3)"
    by (simp add: open_managed_repository_def get_managed_repo_def once_do_def canon path)
  have "registry_inv demo_config ?c demo_world" by (simp add: registry_inv_def demo_world_def)
  from requests_share_repository [OF this rtranclp.rtrancl_refl m [folded X] run again [folded X] demo_canon canon refl]
  have "r_path m = ''/cache/github.com/o/r''" using path by simp
  with again show ?thesis by blast
qed

end
