(* ===== verification/EndToEnd.thy ===== *)
theory EndToEnd
  imports RequestLog
begin

text \<open>
  What the proxy promises its clients, from the bytes of a request to those of the answer:
  a specification of the answer to a sequence of commands as a function of the disk, and that
  \<open>ServeHTTP\<close> implements it when nothing else happens to the repository.
\<close>

section \<open>The specification\<close>

text \<open>
  What a fetch finds on the disk, after a fetch from the upstream if something is missing;
  \<open>None\<close> when it is missing still.
\<close>

definition disk_with ::
  "('d, 'r) libs \<Rightarrow> managed_repo \<Rightarrow> oid list \<Rightarrow> string list \<Rightarrow> 'd \<Rightarrow> 'd option" where
  "disk_with X r hashes refs d =
     (case wants_check (lib_status X) (lib_git X) d (r_path r) hashes refs of
        Inl _ \<Rightarrow> None
      | Inr True \<Rightarrow> Some d
      | Inr False \<Rightarrow>
          (let d' = fetched_disk (lib_git X) r hashes d in
           if wants_check (lib_status X) (lib_git X) d' (r_path r) hashes refs = Inr True then Some d' else None))"

text \<open>
  References come from the upstream, packs from upload-pack on a disk that has what is
  wanted. The answer to a command and the disk it leaves.
\<close>

definition answer ::
  "('d, 'r) libs \<Rightarrow> server_config \<Rightarrow> managed_repo \<Rightarrow> string \<Rightarrow> bytes req_chunk list \<Rightarrow> 'd \<Rightarrow> (bytes \<times> 'd) option" where
  "answer X cfg r ci command d =
     (if rc_command (hd command) = ''ls-refs'' then
        (case post_upstream (lib_git X) (r_upstream r @ ''/git-upload-pack'') (new_git_request (lib_wire X) command) of
           Reply st ctype body chunks err \<Rightarrow>
             if st = 200 \<and> err = None then Some (concat (map (encode_resp (lib_wire X)) chunks), d) else None
         | _ \<Rightarrow> None)
      else
        (case parse_fetch_wants (lib_new_oid X) command of
           Inl _ \<Rightarrow> None
         | Inr (hashes, refs) \<Rightarrow>
             (case disk_with X r hashes refs d of
                None \<Rightarrow> None
              | Some d1 \<Rightarrow>
                  (case run_git_binary (lib_git X) (serve_cmd (lib_wire X) cfg r command ci) d1 of
                     (out, None, d2) \<Rightarrow> Some (concat (stdout_of out), d2)
                   | _ \<Rightarrow> None))))"

fun answers ::
  "('d, 'r) libs \<Rightarrow> server_config \<Rightarrow> managed_repo \<Rightarrow> string \<Rightarrow> bytes req_chunk list list \<Rightarrow> 'd \<Rightarrow> (bytes \<times> 'd) option" where
  "answers X cfg r ci [] d = Some ([], d)"
| "answers X cfg r ci (c # cs) d =
     (case answer X cfg r ci c d of
        None \<Rightarrow> None
      | Some (out, d1) \<Rightarrow>
          (case answers X cfg r ci cs d1 of None \<Rightarrow> None | Some (outs, d2) \<Rightarrow> Some (out @ outs, d2)))"

section \<open>The output\<close>

text \<open>Nothing has failed on the connection, and no status but 200 was sent.\<close>

definition sink_good :: "sink \<Rightarrow> bool" where
  "sink_good s \<longleftrightarrow> sink_unlimited s \<and> (rw_sent (mw_w (sk_w s)) = None \<or> (\<exists>hs. rw_sent (mw_w (sk_w s)) = Some (200, hs)))"

lemma mon_write_good:
  assumes "rw_capacity (mw_w w) = None" and "rw_sent (mw_w w) = None \<or> (\<exists>hs. rw_sent (mw_w w) = Some (200, hs))"
  shows "rw_capacity (mw_w (snd (snd (mon_write b w)))) = None \<and>
    (rw_sent (mw_w (snd (snd (mon_write b w)))) = None \<or> (\<exists>hs. rw_sent (mw_w (snd (snd (mon_write b w)))) = Some (200, hs)))"
  using assms
  by (auto simp: mon_write_def rw_write_def rw_write_header_def mon_flush_def Let_def split: option.splits prod.splits if_splits)

interpretation http_good: output_invariant "git_report_error L W has_rep" sink_write sink_good for L W has_rep
proof unfold_locales
  fix s tags e b
  assume s: "sink_good s"
  show "sink_good (git_report_error L W has_rep tags e s)"
    using s mon_write_good [of "sk_w s"]
    by (auto simp: git_report_error_def sink_good_def write_error_def write_packet_def Let_def split_beta split: option.splits)
  show "sink_good (snd (snd (sink_write b s)))"
    using s mon_write_good [of "sk_w s" b] by (simp add: sink_write_def sink_good_def split_beta)
qed

section \<open>One command\<close>

text \<open>Nothing happens while a request waits, and its client stays.\<close>

definition quiet :: "'d run_env \<Rightarrow> bool" where
  "quiet E \<longleftrightarrow> env_at E = (\<lambda>_ v. v) \<and> ctx_err E = None"

lemma serve_task_answers:
  assumes "run_git_binary (lib_git X) (serve_cmd (lib_wire X) cfg r command ci) (w_disk w) = (out, None, d)"
    and "quiet E" and "sink_unlimited s"
  shows "\<exists>s' w'. serve_task X cfg E (git_report_error L W has_rep) sink_write r command ci tags s w = (True, s', w') \<and>
    sink_body s' = sink_body s @ concat (stdout_of out) \<and> w_disk w' = d"
proof -
  obtain ok s' w' where run: "serve_task X cfg E (git_report_error L W has_rep) sink_write r command ci tags s w = (ok, s', w')"
    by (metis prod_cases3)
  have disk: "w_disk (env_at E 3 w) = w_disk w" using assms(2) by (simp add: quiet_def)
  with serve_task_succeeds [of X cfg r command ci E w s "git_report_error L W has_rep" tags] assms(1,3) run have ok
    by (simp add: git_error_def)
  with run have "serve_task X cfg E (git_report_error L W has_rep) sink_write r command ci tags s w = (True, s', w')" by simp
  with serve_task_body [OF this] serve_task_result(2) [OF this] assms(1) disk show ?thesis by (simp add: git_disk_def)
qed

lemma fetch_answers:
  assumes "answer X cfg r ci command (w_disk w) = Some (out, d)" and "rc_command (hd command) = ''fetch''" and "command \<noteq> []"
    and "tags_ok X" and "quiet E" and "sink_unlimited s"
  shows "\<exists>s' w'. handle_v2_command X cfg E (git_report_error L W has_rep) sink_write r command ci tags s w = Some (True, s', w') \<and>
    sink_body s' = sink_body s @ out \<and> w_disk w' = d"
proof -
  obtain hashes refs d1 outs where wants: "parse_fetch_wants (lib_new_oid X) command = Inr (hashes, refs)"
    and d1: "disk_with X r hashes refs (w_disk w) = Some d1"
    and run: "run_git_binary (lib_git X) (serve_cmd (lib_wire X) cfg r command ci) d1 = (outs, None, d)"
    and out: "out = concat (stdout_of outs)"
    using assms(1,2) by (auto simp: answer_def split: sum.splits option.splits prod.splits)
  have env: "env_at E = (\<lambda>_ v. v)" "ctx_err E = None" using assms(5) by (simp_all add: quiet_def)
  have served: "\<exists>s' w'. serve_task X cfg E (git_report_error L W has_rep) sink_write r command ci tags' s v = (True, s', w') \<and>
    sink_body s' = sink_body s @ out \<and> w_disk w' = d" if "w_disk v = d1" for v tags'
    using serve_task_answers [of X cfg r command ci v outs d E s L W has_rep tags'] run that assms(5,6) out by simp
  consider (hit) "wants_ok X r hashes refs w = Inr True" "d1 = w_disk w"
    | (miss) "wants_ok X r hashes refs w = Inr False" "d1 = fetched_disk (lib_git X) r hashes (w_disk w)"
        "wants_check (lib_status X) (lib_git X) d1 (r_path r) hashes refs = Inr True"
    using d1 by (auto simp: disk_with_def Let_def split: sum.splits bool.splits if_splits)
  then show ?thesis
  proof cases
    case hit
    then show ?thesis
      using served [of "log_check (lib_status X) ''hasAllWants'' r w"]
      by (simp add: handle_v2_fetch [OF assms(4,3,2)] handle_fetch_local [OF wants])
  next
    case miss
    let ?v = "after_fetch X cfg E r hashes refs w"
    have disk: "w_disk ?v = d1" using after_fetch_quiet [OF miss(1) env(1)] miss(2) by simp
    have "after_miss X cfg E report wr r command ci hashes refs tags' s ?v =
      serve_task X cfg E report wr r command ci tags' s
        (record_stat (UpstreamFetchWaited tags') (log_check (lib_status X) ''hasAllWants'' r ?v))" for report wr tags'
      using miss(3) disk env(2) by (simp add: after_miss_def)
    then show ?thesis
      using served disk by (simp add: handle_v2_fetch [OF assms(4,3,2)] handle_fetch_miss [OF assms(4) wants miss(1)])
  qed
qed

lemma ls_refs_answers:
  assumes "answer X cfg r ci command (w_disk w) = Some (out, d)" and "rc_command (hd command) = ''ls-refs''" and "command \<noteq> []"
    and "tags_ok X" and "sink_unlimited s"
  shows "\<exists>s' w'. handle_v2_command X cfg E (git_report_error L W has_rep) sink_write r command ci tags s w = Some (True, s', w') \<and>
    sink_body s' = sink_body s @ out \<and> w_disk w' = d"
proof -
  obtain ctype body chunks where reply: "post_upstream (lib_git X) (r_upstream r @ ''/git-upload-pack'')
      (new_git_request (lib_wire X) command) = Reply 200 ctype body chunks None"
    and out: "out = concat (map (encode_resp (lib_wire X)) chunks)" "d = w_disk w"
    using assms(1,2) by (auto simp: answer_def split: upstream_reply.splits if_splits)
  from ls_refs_forwarded [OF assms(4,3,2) reply assms(5)] out show ?thesis by blast
qed

section \<open>All commands of a request\<close>

lemma command_answers:
  assumes "answer X cfg r ci command (w_disk w) = Some (out, d)" and "command_ok command"
    and "tags_ok X" and "quiet E" and "sink_good s"
  shows "\<exists>s' w' tags'. handle_v2_command X cfg E (git_report_error L W has_rep) sink_write r command ci tags s w = Some (True, s', w') \<and>
    sink_body s' = sink_body s @ out \<and> w_disk w' = d \<and> sink_good s' \<and>
    sk_stats s' = sk_stats s @ [(tags', fst (status_or_internal L None))]"
proof -
  have known: "command \<noteq> []" "rc_command (hd command) = ''fetch'' \<or> rc_command (hd command) = ''ls-refs''"
    using assms(2) by (auto simp: command_ok_def known_command_def)
  have "sink_unlimited s" using assms(5) by (simp add: sink_good_def)
  then obtain s' w' where run: "handle_v2_command X cfg E (git_report_error L W has_rep) sink_write r command ci tags s w
      = Some (True, s', w')" and res: "sink_body s' = sink_body s @ out" "w_disk w' = d"
    using fetch_answers [OF assms(1) _ known(1) assms(3,4)] ls_refs_answers [OF assms(1) _ known(1) assms(3)] known(2) by metis
  from http_out.handle_v2_once [OF run] have "\<exists>tags'. sk_stats s' = sk_stats s @ [(tags', fst (status_or_internal L None))]"
    by (auto simp: one_more_def)
  moreover have "sink_good s'" using http_good.keeps_command [OF run assms(5)] by simp
  ultimately show ?thesis using run res by blast
qed

lemma loop_answers:
  assumes "answers X cfg r ci commands (w_disk w) = Some (out, d)" and "list_all command_ok commands"
    and "tags_ok X" and "\<And>k. quiet (run k)" and "sink_good s"
  shows "\<exists>s' w'. command_loop X cfg run tags r ci i commands s w = Finished (s', w') \<and>
    sink_body s' = sink_body s @ out \<and> w_disk w' = d \<and> sink_good s' \<and>
    map snd (sk_stats s') = map snd (sk_stats s) @ replicate (length commands) (fst (status_or_internal (lib_status X) None))"
  using assms(1,2,5)
proof (induction commands arbitrary: i s w out)
  case (Cons c cs)
  obtain o1 d1 o2 where one: "answer X cfg r ci c (w_disk w) = Some (o1, d1)"
    and rest: "answers X cfg r ci cs d1 = Some (o2, d)" and out: "out = o1 @ o2"
    using Cons.prems(1) by (auto split: option.splits)
  obtain s1 w1 where s1: "handle_v2_command X cfg (run i) (git_report_error (lib_status X) (lib_wire X) (cfg_error_reporter cfg))
      sink_write r c ci tags s w = Some (True, s1, w1)" "sink_body s1 = sink_body s @ o1" "w_disk w1 = d1" "sink_good s1"
    "map snd (sk_stats s1) = map snd (sk_stats s) @ [fst (status_or_internal (lib_status X) None)]"
    using command_answers [OF one _ assms(3,4) Cons.prems(3)] Cons.prems(2) by fastforce
  let ?w = "w1\<lparr>w_stats := w_stats w1 @ [RequestDistribution (metric_tags (lib_lower X) (r_upstream r) c @ [''success:1''])]\<rparr>"
  from Cons.IH [of ?w o2 s1 "i + 1"] rest s1(3,4) Cons.prems(2) show ?case
    by (simp add: s1(1) Let_def) (fastforce simp: s1(2,5) out)
qed simp

section \<open>A concrete request, for witnesses\<close>

text \<open>The references, and an object that is not there yet, of a repository that exists on disk.\<close>

definition two_commands :: "bytes req_chunk list list" where
  "two_commands = [[chunk_of ''ls-refs'' None], want_command (Oid [255])]"

definition mirror_libs :: "(oid list \<times> (string \<times> oid) list, oid) libs" where
  "mirror_libs = (demo_libs demo_reply)\<lparr>lib_wire := plain_wire\<lparr>scan_request := (\<lambda>_. (request_stream two_commands, None))\<rparr>,
     lib_git := (demo_git demo_reply)\<lparr>fs_stat := (\<lambda>_ _. Exists)\<rparr>\<rparr>"

lemma mirror_opened:
  "case open_managed_repository plain_status (lib_git mirror_libs) demo_config (github_url_canonicalizer id)
      (hr_url (full_url (demo_request ''/o/r/git-upload-pack'' [] []))) demo_world of
     Returns (Inr m, w) \<Rightarrow> m = demo_repo \<and> w_disk w = w_disk demo_world
   | _ \<Rightarrow> False"
  by code_simp

lemma mirror_opens:
  "\<exists>w. open_managed_repository plain_status (lib_git mirror_libs) demo_config (github_url_canonicalizer id)
      (hr_url (full_url (demo_request ''/o/r/git-upload-pack'' [] []))) demo_world = Returns (Inr demo_repo, w) \<and>
     w_disk w = w_disk demo_world"
proof (cases "open_managed_repository plain_status (lib_git mirror_libs) demo_config (github_url_canonicalizer id)
    (hr_url (full_url (demo_request ''/o/r/git-upload-pack'' [] []))) demo_world")
  case (Returns res)
  with mirror_opened show ?thesis by (cases res; cases "fst res") auto
qed (use mirror_opened in simp)

lemma mirror_answers:
  "answers mirror_libs demo_config demo_repo [] two_commands (w_disk demo_world) =
     Some (''LPACK'', ([Oid [255], Oid [0]], [(''refs/heads/main'', Oid [0])]))"
  by code_simp

section \<open>Properties\<close>

text \<open>
  C35: the proxy answers as specified. Suppose that a request for git-upload-pack is let in,
  that its body, unzipped if it was zipped, renders commands, that its repository opens, that
  the connection takes all that is sent and the client stays, and that nothing else happens to
  the repository while the request is handled. Then it is answered with the concatenation of
  the answers to its commands, in order, each computed on the disk the one before left, with no
  status but 200 and one report without an error for each command.
\<close>

theorem request_answered:
  assumes "tags_ok X" and "tg_type (hr_tags r) = None"
    and "(if hr_header r ''Content-Encoding'' = ''gzip'' then sv_gunzip V (hr_body r) else Inr (hr_body r)) = Inr b"
    and "sv_authorizer V ((full_url r)\<lparr>hr_tags := (hr_tags r)\<lparr>tg_type := Some ''not-a-command''\<rparr>\<rparr>) = None"
    and "has_suffix (u_path (hr_url r)) ''/git-upload-pack''" and "fresh_response rw"
    and "scan_request (lib_wire X) b = (request_stream commands, None)" and "list_all command_ok commands"
    and "open_managed_repository (lib_status X) (lib_git X) cfg (sv_canon V) (hr_url (full_url r)) w = Returns (Inr repo, w1)"
    and "answers X cfg repo (ci_source_of r) commands (w_disk w1) = Some (out, d)" and "\<And>i. quiet (sv_run V i)"
  shows "\<exists>s' w'. serve_http X cfg V r rw flusher w = Finished (s', w') \<and> sink_body s' = out \<and> w_disk w' = d \<and>
    (rw_sent (mw_w (sk_w s')) = None \<or> (\<exists>hs. rw_sent (mw_w (sk_w s')) = Some (200, hs))) \<and>
    map snd (sk_stats s') = replicate (length commands) (fst (status_or_internal (lib_status X) None))"
proof -
  let ?r = "(full_url r)\<lparr>hr_tags := (hr_tags r)\<lparr>tg_type := Some ''not-a-command''\<rparr>\<rparr>"
  let ?s = "sink_header_add ''Content-Type'' ''application/x-git-upload-pack-result'' (open_sink rw flusher)"
  have insert: "lib_tag X (TagInsert CommandTypeKey ''not-a-command'') (hr_tags r) =
      (None, (hr_tags r)\<lparr>tg_type := Some ''not-a-command''\<rparr>)"
    using assms(1,2) by (simp add: tag_law_def used_tags_def get_tag_def set_tag_def)
  have same: "hr_header ?r = hr_header r" "hr_body ?r = hr_body r" "hr_url ?r = hr_url (full_url r)"
    "u_path (hr_url (full_url r)) = u_path (hr_url r)"
    by (simp_all add: full_url_def)
  obtain sc h where sc: "new_request_scanner (lib_wire X) b (sv_store V) = (sc, h)" by fastforce
  then have fields: "sc_buf sc < next_addr h" "\<not> sc_done sc" "sc_final sc = None" "sc_pending sc = request_stream commands"
    using assms(7) by (auto simp: new_request_scanner_def)
  have parsed: "parse_all_commands (lib_status X) (lib_wire X) sc h = Inr commands"
    using parse_values_stream [OF assms(8), of "lib_status X" "lib_wire X" None "[]"] fields(3,4)
    by (simp add: parse_all_values [OF fields(1,2)] parse_values_nil)
  have path: "\<not> has_suffix (u_path (hr_url r)) ''/info/refs''" "\<not> has_suffix (u_path (hr_url r)) ''/git-receive-pack''"
    using assms(5) by (auto simp: has_suffix_iff)
  have "sink_good ?s" using assms(6) by (simp add: sink_good_def)
  from loop_answers [where run = "sv_run V" and tags = "hr_tags ?r" and i = 0, OF assms(10,8,1,11) this]
  obtain s' w' where loop: "command_loop X cfg (sv_run V) (hr_tags ?r) repo (ci_source_of r) 0 commands ?s w1 = Finished (s', w')"
    and res: "sink_body s' = out" "w_disk w' = d" "sink_good s'"
      "map snd (sk_stats s') = replicate (length commands) (fst (status_or_internal (lib_status X) None))"
    using assms(6) by auto
  have "upload_pack_handler X cfg V report ?r (ci_source_of r) (open_sink rw flusher) w = Finished (s', w')" for report
    unfolding upload_pack_handler_def Let_def same assms(3) using sc parsed assms(9) loop by simp
  then have "serve_http X cfg V r rw flusher w = Finished (s', w')"
    using path assms(5) by (simp add: serve_http_authorized [OF insert assms(4)] route_def same(4) Let_def)
  with res show ?thesis by (simp add: sink_good_def)
qed

theorem request_answered_witness:
  "\<exists>s' w'. serve_http mirror_libs demo_config (demo_server no_op_request_authorizer)
      (demo_request ''/o/r/git-upload-pack'' [] []) demo_response True demo_world = Finished (s', w') \<and>
    sink_body s' = ''LPACK'' \<and> fst (w_disk w') = [Oid [255], Oid [0]] \<and> length (sk_stats s') = 2"
proof -
  let ?r = "demo_request ''/o/r/git-upload-pack'' [] []" and ?X = mirror_libs
  obtain w1 where w1: "open_managed_repository plain_status (lib_git ?X) demo_config (github_url_canonicalizer id)
      (hr_url (full_url ?r)) demo_world = Returns (Inr demo_repo, w1)" "w_disk w1 = w_disk demo_world"
    using mirror_opens by blast
  have libs: "lib_status ?X = plain_status" "lib_tag ?X = plain_tag"
    "scan_request (lib_wire ?X) b = (request_stream two_commands, None)" for b
    by (simp_all add: mirror_libs_def)
  have "tags_ok ?X" "tg_type (hr_tags ?r) = None"
    and "(if hr_header ?r ''Content-Encoding'' = ''gzip'' then sv_gunzip (demo_server no_op_request_authorizer) (hr_body ?r)
      else Inr (hr_body ?r)) = Inr (hr_body ?r)"
    and "sv_authorizer (demo_server no_op_request_authorizer)
      ((full_url ?r)\<lparr>hr_tags := (hr_tags ?r)\<lparr>tg_type := Some ''not-a-command''\<rparr>\<rparr>) = None"
    and "has_suffix (u_path (hr_url ?r)) ''/git-upload-pack''"
    and "scan_request (lib_wire ?X) (hr_body ?r) = (request_stream two_commands, None)" "list_all command_ok two_commands"
    by (simp_all add: libs plain_tag_law no_op_request_authorizer_def has_suffix_def no_tags_def
        two_commands_def command_ok_def want_command_def chunk_of_def known_command_def)
  note facts = this(1-5) demo_response_fresh this(6,7)
  have opens: "open_managed_repository (lib_status ?X) (lib_git ?X) demo_config (sv_canon (demo_server no_op_request_authorizer))
      (hr_url (full_url ?r)) demo_world = Returns (Inr demo_repo, w1)" using w1(1) by (simp add: libs)
  have answer: "answers ?X demo_config demo_repo (ci_source_of ?r) two_commands (w_disk w1) =
      Some (''LPACK'', ([Oid [255], Oid [0]], [(''refs/heads/main'', Oid [0])]))"
    using mirror_answers w1(2) by (simp add: ci_source_of_def)
  have quiet: "quiet (sv_run (demo_server no_op_request_authorizer) i)" for i
    by (simp add: demo_server_def quiet_def fun_eq_iff)
  obtain s' w' where run: "serve_http ?X demo_config (demo_server no_op_request_authorizer) ?r demo_response True demo_world
      = Finished (s', w')" and body: "sink_body s' = ''LPACK''" and disk: "fst (w_disk w') = [Oid [255], Oid [0]]"
    and stats: "map snd (sk_stats s') = replicate (length two_commands) (fst (status_or_internal (lib_status ?X) None))"
    using request_answered [where flusher = True, OF facts opens answer quiet] by auto
  have "length (sk_stats s') = 2" using arg_cong [OF stats, of length] by (simp add: two_commands_def)
  with run body disk show ?thesis by blast
qed

end
