(* ===== verification/Spec2Isabelle.thy ===== *)
theory Spec2Isabelle
  imports PackHook Credentials Registry Pools ServerMain HookProgress BackupProcess Seed Requests EndToEnd
begin

text \<open>
  Goblet is a caching proxy for Git repositories. An HTTP server (\<open>http_proxy_server.go\<close>) takes
  the requests of Git clients, asks an authorizer, parses the body into protocol version 2
  commands and hands each to \<open>handleV2Command\<close> (\<open>git_protocol_v2_handler.go\<close>), which forwards
  \<open>ls-refs\<close> to the upstream and answers \<open>fetch\<close> from a bare repository on disk, after a fetch
  from the upstream where something is missing. The repositories (\<open>managed_repository.go\<close>) are
  created on first use, one per canonical URL (\<open>goblet.go\<close>, \<open>github/url.go\<close>,
  \<open>google/hooks.go\<close>). The server (\<open>goblet-server/main.go\<close>) fetches them at its start and every
  fifteen minutes; \<open>google/backup.go\<close> keeps bundles of them in a storage bucket. A separate
  program (\<open>hooks/packobjects/main.go\<close>) caches the packs \<open>git upload-pack\<close> produces.

  Theories, and the code they model. Names of definitions are those of the Go functions, in
  lower case with underscores.

  \<^item> \<open>Prelude\<close>: the parts of \<open>strings\<close>, \<open>strconv\<close>, \<open>time\<close> and the error values the code uses;
    lemmas on strings and decimal numbers.
  \<^item> \<open>Protocol\<close>: \<open>parseAllCommands\<close>, \<open>parseFetchWants\<close>, \<open>parseLsRefsResponse\<close> and the chunk copies
    of \<open>io.go\<close>. Byte slices are addresses in an explicit store, because the scanner reuses one
    buffer for all chunks; \<open>parse_values\<close> is the reference parser without a store, and the
    refinement to it is proved inside the locale \<open>chunk_copy\<close>, which both copy functions satisfy.
  \<^item> \<open>Reporting\<close>: \<open>reporting.go\<close>, \<open>grpc.go\<close>, the packet writers. The locale \<open>byte_writer\<close> is the
    contract of \<open>io.Writer\<close>, \<open>status_reporter\<close> and \<open>git_reporter\<close> those of the two reporters.
  \<^item> \<open>Canon\<close>: the three canonicalizers under the locale \<open>url_canonicalizer\<close>, and cache paths.
  \<^item> \<open>Repo\<close>: the operations of \<open>managedRepository\<close> on the record \<open>world\<close> (disk, registry, update
    times, operation log, statistics, 32-bit counter).
  \<^item> \<open>Opening\<close>: \<open>openManagedRepository\<close> as one operation; \<open>Registry\<close>: the same code as a step
    relation of any number of threads, each opening a URL of its own, over \<open>sync.Map\<close>, the
    mutexes, the pools and the \<open>sync.Once\<close> of the repositories. \<open>open_step\<close> of a thread alone
    refines \<open>open_managed_repository\<close>; \<open>waits_for\<close> is the one wait there is, for the thread that
    runs the initialisation.
  \<^item> \<open>Handler\<close>: \<open>handleV2Command\<close>; the locale \<open>command_output\<close> joins the reporter and the writer.
    \<open>checked_world\<close> and \<open>served_world\<close> are the worlds in which a fetch passes its check and
    which upload-pack leaves; \<open>fetch_race\<close> shows what may happen to the disk between them.
  \<^item> \<open>Server\<close>: \<open>ServeHTTP\<close>, its three routes and the loop over the commands, whose runs
    \<open>loop_trace\<close> lists command by command.
  \<^item> \<open>PackHook\<close>: the hook as a deterministic step function of one of any number of processes over
    one cache directory, with the choices of the environment (how much is written, which file
    operation fails, which process is killed) as an argument of each step.
  \<^item> \<open>Base64\<close>, \<open>Authorizer\<close>, \<open>Credentials\<close>: \<open>github/authorizer.go\<close>, \<open>github/app.go\<close>,
    \<open>github/token.go\<close> and the request authorizer of \<open>google/hooks.go\<close>.
  \<^item> \<open>Backup\<close>: the backups and recoveries of \<open>google/backup.go\<close>; \<open>BackupRecovery\<close>: that on a
    bucket that works a recovery gives git the newest bundles (\<open>newest_bundles\<close>) after a backup;
    \<open>BackupProcess\<close>: \<open>RunBackupProcess\<close>, and the manifests it leaves in the bucket
    (\<open>manifests_after\<close>).
  \<^item> \<open>Scheduler\<close>: \<open>FetchManagedRepositoryAsync\<close>, \<open>RunEvery\<close>,
    \<open>FetchRepositories\<close> and the start of the server, with what its first fetches leave of the
    update times (\<open>start_grows\<close>) while others run.
  \<^item> \<open>Pools\<close>: the fetch pool and the mutex of one repository as a step relation of any number of
    on-demand fetches, background fetches, garbage collections and bundle recoveries, with the
    channels of the background fetches, which have room for one message, and their reader;
    \<open>job_step\<close> refines \<open>fetch_task\<close> of \<open>Handler\<close> and \<open>async_task\<close> of \<open>Scheduler\<close>.
  \<^item> \<open>RequestLog\<close>: \<open>logHTTPRequest\<close> around a whole request; the body is read where the request
    comes to the parser (\<open>reads_body\<close>), in pieces of any sizes. The locale \<open>output_invariant\<close>
    carries a property of the output through \<open>handleV2Command\<close>.
  \<^item> \<open>EndToEnd\<close>: the specification \<open>answers\<close>, the bytes a sequence of commands is answered with
    as a function of the disk, and that \<open>ServeHTTP\<close> implements it for a request nothing disturbs.
  \<^item> \<open>Requests\<close>: the registry over a life of the server. The locale \<open>world_guarantee\<close> says what an
    operation may do to the registry; requests, background fetches and backups keep to it, and
    so do the interleaved steps of \<open>Registry\<close> and \<open>Pools\<close>: the guarantee is reflexive and
    transitive, so what runs in between another operation may keep to it too.
  \<^item> \<open>Json\<close>, \<open>Config\<close>: \<open>LoadConfigFile\<close>, with the parser of \<open>encoding/json\<close> and its storing of
    values into the fields of \<open>ConfigFile\<close>; an independent printer of JSON gives the round trips.
  \<^item> \<open>Metrics\<close>: the measures and the views the server registers.
  \<^item> \<open>Seed\<close>: \<open>seedRepository\<close> and \<open>getS3Client\<close>, which nothing in the repository calls.
  \<^item> \<open>ServerMain\<close>: \<open>main\<close> of the server from its flags and its configuration to its routes, with
    the rules of \<open>ServeMux\<close>, and what holds once the program serves; \<open>Paths\<close>: lemmas on clean paths, for the directories of the cache.
  \<^item> \<open>HookProgress\<close>: termination of the hook, and that the environment \<open>serveFetchLocal\<close> gives to
    git is the one the hook reads.

  Parameters. What is not in the repository is a field of a record of functions: \<open>git_lib\<close> (the
  git binary, libgit2, the file system, the upstream's HTTP answers), \<open>wire_lib\<close>
  (\<open>gitprotocolio\<close>), \<open>status_lib\<close> (gRPC status), \<open>tag_lib\<close> (OpenCensus tags), \<open>cache_lib\<close> (the TTL
  cache), \<open>bucket_lib\<close> (Cloud Storage), \<open>pool_lib\<close> (the worker pools of pond), \<open>main_lib\<close> (the
  environment of the process and the registration of metrics), \<open>app_lib\<close> (JWT, PEM, GitHub's
  answers), \<open>seed_lib\<close> (AWS, gzip and tar), \<open>github\<close> and \<open>token_info\<close>. Laws of these libraries are
  named predicates (\<open>status_law\<close>, \<open>tag_law\<close>, \<open>cache_law\<close>, \<open>pool_law\<close>, \<open>bucket_law\<close>, \<open>files_law\<close>,
  \<open>register_law\<close>) that a theorem assumes where it needs them, each met by a concrete instance in
  the theorem's witness. Concurrency inside a request appears as
  the field \<open>env_at\<close> of \<open>run_env\<close>: an arbitrary change of the world at each point where
  \<open>handleV2Command\<close> waits.

  Bounds. Counters of bytes are 64-bit words and the counter of local fetches is a 32-bit word,
  as in the code; times are integers of nanoseconds and Unix seconds are bounded where the code
  prints them with twelve digits. No definition needs fuel, except \<open>mon_close\<close>, which is a
  partial function because the code does not return; loops of a process (the hook) and of
  threads (the registry, the pools) are runs of single steps.

  Not modelled: the aggregation and export of metrics, log output (\<open>log.Printf\<close>, the line of
  \<open>logElapsed\<close> for what took long, \<open>logV2Request\<close>), the durations in statistics other than the
  two of a fetch, the handlers of pprof, \<open>Authorizer.Close\<close> (it stops the timer of the cache),
  panics inside pool tasks, what \<open>encoding/json\<close> leaves in the spare capacity of a slice whose
  key is repeated, and the package \<open>testing\<close>.
\<close>

end
